(* ===== verification/Prelude.thy ===== *)
theory Prelude
  imports Main "HOL-Library.Word"
begin

text \<open>
  What every theory of the development shares: the widths of the C integers, the outcome of
  code that may call \<^verbatim>\<open>panic()\<close>, the parameters that stand for kernel library
  functions the repository does not contain, the C string helpers the parsers use, and the
  lemmas on circular buffers indexed by free-running 32-bit counters.
\<close>

section \<open>Machine integers\<close>

type_synonym u8 = "8 word"
type_synonym u32 = "32 word"
type_synonym u64 = "64 word"

text \<open>Pointers to the kernel's task structures: an address, compared for equality only.\<close>

type_synonym tptr = nat

section \<open>Code that may panic\<close>

text \<open>
  \<^verbatim>\<open>panic(fmt, ...)\<close> never returns: \<open>Inl fmt\<close>. Everything else is \<open>Inr\<close> of the
  value (or of the new state) the code goes on with.
\<close>

type_synonym 'a outcome = "string + 'a"

definition bind_outcome :: "'a outcome \<Rightarrow> ('a \<Rightarrow> 'b outcome) \<Rightarrow> 'b outcome" where
  "bind_outcome m f = (case m of Inl e \<Rightarrow> Inl e | Inr x \<Rightarrow> f x)"

named_theorems outcome_simps \<open>rewriting of sequences of steps that may panic\<close>

lemma bind_outcome_simps [simp, outcome_simps]:
  "bind_outcome (Inl e) f = Inl e"
  "bind_outcome (Inr x) f = f x"
  by (simp_all add: bind_outcome_def)

lemma bind_outcome_Inr_iff [outcome_simps]:
  "bind_outcome m f = Inr y \<longleftrightarrow> (\<exists>x. m = Inr x \<and> f x = Inr y)"
  by (cases m) auto

lemma bind_outcome_assoc:
  "bind_outcome (bind_outcome m f) g = bind_outcome m (\<lambda>x. bind_outcome (f x) g)"
  by (cases m) auto

text \<open>A loop whose body may panic: the iterations in order, up to the first panic.\<close>

fun fold_outcome :: "('a \<Rightarrow> 's \<Rightarrow> 's outcome) \<Rightarrow> 'a list \<Rightarrow> 's \<Rightarrow> 's outcome" where
  "fold_outcome f [] s = Inr s"
| "fold_outcome f (x # xs) s = bind_outcome (f x s) (fold_outcome f xs)"

lemma fold_outcome_append:
  "fold_outcome f (xs @ ys) s = bind_outcome (fold_outcome f xs s) (fold_outcome f ys)"
proof (induction xs arbitrary: s)
  case (Cons x xs)
  then show ?case by (cases "f x s") auto
qed simp

lemma fold_outcome_invariant:
  assumes "fold_outcome f xs s = Inr t" and "P s"
    and "\<And>x s t. x \<in> set xs \<Longrightarrow> P s \<Longrightarrow> f x s = Inr t \<Longrightarrow> P t"
  shows "P t"
  using assms
proof (induction xs arbitrary: s)
  case (Cons x xs)
  then obtain u where "f x s = Inr u" "fold_outcome f xs u = Inr t"
    by (auto simp: bind_outcome_Inr_iff)
  with Cons show ?case by (metis list.set_intros)
qed simp

lemma fold_outcome_total:
  assumes "P s" and "\<And>x s. x \<in> set xs \<Longrightarrow> P s \<Longrightarrow> \<exists>t. f x s = Inr t \<and> P t"
  shows "\<exists>t. fold_outcome f xs s = Inr t \<and> P t"
  using assms
proof (induction xs arbitrary: s)
  case (Cons x xs)
  then obtain u where "f x s = Inr u" "P u" by (meson list.set_intros(1))
  moreover have "\<exists>t. fold_outcome f xs u = Inr t \<and> P t"
    using Cons.IH [OF \<open>P u\<close>] Cons.prems(2) by simp
  ultimately show ?case by simp
qed simp

section \<open>Circular buffers under free-running counters\<close>

text \<open>
  The kernel side of kSTEP has two circular buffers, a task's action queue (task.c) and the bytes
  received on the channel (io.c). Both index an array of \<open>N\<close> slots by \<open>counter % N\<close>, where the
  two counters are 32-bit and only ever incremented, so they wrap. \<open>ring_list\<close> is the content,
  oldest first. Because \<open>N\<close> divides \<open>2 ^ 32\<close> the wrap of a counter is invisible.
\<close>

definition ring_list :: "'a list \<Rightarrow> u32 \<Rightarrow> u32 \<Rightarrow> 'a list" where
  "ring_list buf h t = map (\<lambda>i. buf ! ((unat h + i) mod length buf)) [0..<unat (t - h)]"

lemma length_ring_list [simp]: "length (ring_list buf h t) = unat (t - h)"
  by (simp add: ring_list_def)

lemma ring_list_empty [simp]: "ring_list buf h h = []"
  by (simp add: ring_list_def)

lemma unat_succ_mod:
  fixes h :: u32
  assumes "n dvd 2 ^ 32"
  shows "(unat (h + 1) + i) mod n = (unat h + Suc i) mod n"
proof -
  have "unat (h + 1) mod n = (unat h + 1) mod n"
    using assms by (simp add: unat_word_ariths mod_mod_cancel)
  then show ?thesis by (metis mod_add_left_eq add.assoc add_Suc_right add.commute plus_1_eq_Suc)
qed

lemma unat_diff_succ_right:
  fixes h t :: u32
  assumes "unat (t - h) < 2 ^ 32 - 1"
  shows "unat (t + 1 - h) = Suc (unat (t - h))"
proof -
  have "t + 1 - h = (t - h) + 1" by (simp add: algebra_simps)
  moreover have "unat ((t - h) + 1) = Suc (unat (t - h))"
    using assms by (simp only: unat_word_ariths) simp
  ultimately show ?thesis by (simp only:)
qed

lemma unat_diff_succ_left:
  fixes h t :: u32
  assumes "h \<noteq> t"
  shows "unat (t - h) = Suc (unat (t - (h + 1)))"
proof -
  have "t - h \<noteq> 0" using assms by simp
  moreover have "t - (h + 1) = (t - h) - 1" by simp
  ultimately show ?thesis by (metis Suc_pred' unat_gt_0 unat_minus_one)
qed

lemma unat_tail_mod:
  fixes h t :: u32
  assumes "n dvd 2 ^ 32"
  shows "unat t mod n = (unat h + unat (t - h)) mod n"
proof -
  have "t = h + (t - h)" by simp
  then have "unat t = (unat h + unat (t - h)) mod 2 ^ 32"
    using unat_word_ariths(1) [of h "t - h"] by simp
  with assms show ?thesis by (simp add: mod_mod_cancel)
qed

lemma mod_neq_of_lt:
  fixes a i k n :: nat
  assumes "i < k" "k < n"
  shows "(a + i) mod n \<noteq> (a + k) mod n"
proof
  assume "(a + i) mod n = (a + k) mod n"
  then have "n dvd (a + k) - (a + i)"
    using assms mod_eq_dvd_iff_nat [of "a + i" "a + k" n] by simp
  with assms show False by (simp add: nat_dvd_not_less)
qed

lemma ring_list_put:
  assumes "length buf dvd 2 ^ 32" "length buf < 2 ^ 32" "unat (t - h) < length buf"
  shows "ring_list (buf[unat t mod length buf := x]) h (t + 1) = ring_list buf h t @ [x]"
proof -
  let ?n = "length buf" and ?k = "unat (t - h)"
  have k: "unat (t + 1 - h) = Suc ?k" using assms by (intro unat_diff_succ_right) simp
  have t: "unat t mod ?n = (unat h + ?k) mod ?n" by (rule unat_tail_mod [OF assms(1)])
  have "(unat h + i) mod ?n \<noteq> unat t mod ?n" if "i < ?k" for i
    unfolding t using that assms(3) by (rule mod_neq_of_lt)
  moreover have "unat t mod ?n < ?n" using assms(3) by (intro mod_less_divisor) linarith
  ultimately show ?thesis
    by (simp add: ring_list_def k t [symmetric]) (metis atLeastLessThan_iff nth_list_update_neq)
qed

lemma ring_list_take:
  assumes "length buf dvd 2 ^ 32" "h \<noteq> t"
  shows "ring_list buf h t = buf ! (unat h mod length buf) # ring_list buf (h + 1) t"
proof -
  have "ring_list buf h t =
      map (\<lambda>i. buf ! ((unat h + i) mod length buf)) [0..<Suc (unat (t - (h + 1)))]"
    by (simp only: ring_list_def unat_diff_succ_left [OF assms(2)])
  then show ?thesis
    by (simp add: upt_conv_Cons map_Suc_upt [symmetric] ring_list_def unat_succ_mod [OF assms(1)]
        del: upt_Suc)
qed

section \<open>Cut texts\<close>

text \<open>Cutting a buffer again after appending to the cut text.\<close>

lemma take_take_append: "take n (take n s @ t) = take n (s @ t)"
  by (simp add: min_def)

end
