(* ===== verification/Fifo.thy ===== *)
theory Fifo
  imports Prelude
begin

text \<open>
  The contract of a bounded first-in first-out queue whose producer panics when it is full. The
  action queue of a task (\<open>Task_Ctrl\<close>) and the receive ring of the channel (\<open>Channel\<close>)
  are the two interpretations; the lemmas here are proved once for both.
\<close>

datatype 'a fifo_op = Put 'a | Take

text \<open>The specification: a list, a capacity, and what a sequence of operations does to it.\<close>

fun spec_op :: "nat \<Rightarrow> 'a fifo_op \<Rightarrow> 'a list \<times> 'a list \<Rightarrow> ('a list \<times> 'a list) option" where
  "spec_op c (Put x) (q, out) = (if length q < c then Some (q @ [x], out) else None)"
| "spec_op c Take (q, out) = (case q of [] \<Rightarrow> Some ([], out) | x # r \<Rightarrow> Some (r, out @ [x]))"

fun spec_run :: "nat \<Rightarrow> 'a fifo_op list \<Rightarrow> 'a list \<times> 'a list \<Rightarrow> ('a list \<times> 'a list) option" where
  "spec_run c [] s = Some s"
| "spec_run c (x # xs) s = (case spec_op c x s of None \<Rightarrow> None | Some s' \<Rightarrow> spec_run c xs s')"

definition puts :: "'a fifo_op list \<Rightarrow> 'a list" where
  "puts xs = List.map_filter (\<lambda>x. case x of Put a \<Rightarrow> Some a | Take \<Rightarrow> None) xs"

lemma puts_simps [simp]: "puts [] = []" "puts (Put a # xs) = a # puts xs" "puts (Take # xs) = puts xs"
  by (simp_all add: puts_def map_filter_simps)

lemma spec_run_order:
  "spec_run c xs (q, out) = Some (q', out') \<Longrightarrow> out' @ q' = out @ q @ puts xs"
proof (induction xs arbitrary: q out)
  case (Cons x xs)
  then show ?case
    by (cases x; cases q) (fastforce split: if_splits)+
qed simp

text \<open>The same operations on an implementation, given by its put and its take.\<close>

fun impl_run :: "('a \<Rightarrow> 'q \<Rightarrow> 'q outcome) \<Rightarrow> ('q \<Rightarrow> ('a \<times> 'q) option) \<Rightarrow>
    'a fifo_op list \<Rightarrow> 'q \<times> 'a list \<Rightarrow> ('q \<times> 'a list) outcome" where
  "impl_run pt tk [] s = Inr s"
| "impl_run pt tk (Put x # xs) (q, out) =
     bind_outcome (pt x q) (\<lambda>q'. impl_run pt tk xs (q', out))"
| "impl_run pt tk (Take # xs) (q, out) =
     (case tk q of None \<Rightarrow> impl_run pt tk xs (q, out)
                 | Some (x, q') \<Rightarrow> impl_run pt tk xs (q', out @ [x]))"

locale bounded_fifo =
  fixes inv :: "'q \<Rightarrow> bool" and content :: "'q \<Rightarrow> 'a list" and cap :: nat
    and pt :: "'a \<Rightarrow> 'q \<Rightarrow> 'q outcome" and tk :: "'q \<Rightarrow> ('a \<times> 'q) option"
  assumes content_bounded: "inv q \<Longrightarrow> length (content q) \<le> cap"
    and put_room: "inv q \<Longrightarrow> length (content q) < cap \<Longrightarrow>
      \<exists>q'. pt x q = Inr q' \<and> inv q' \<and> content q' = content q @ [x]"
    and put_full: "inv q \<Longrightarrow> length (content q) = cap \<Longrightarrow> \<exists>m. pt x q = Inl m"
    and take_none: "inv q \<Longrightarrow> content q = [] \<Longrightarrow> tk q = None"
    and take_some: "inv q \<Longrightarrow> content q = x # r \<Longrightarrow>
      \<exists>q'. tk q = Some (x, q') \<and> inv q' \<and> content q' = r"
begin

lemma put_Inr_iff:
  assumes "inv q"
  shows "(\<exists>q'. pt x q = Inr q') \<longleftrightarrow> length (content q) < cap"
  using put_room [OF assms] put_full [OF assms] content_bounded [OF assms]
  by (metis Inl_Inr_False le_neq_implies_less)

lemma put_Inr:
  assumes "inv q" "pt x q = Inr q'"
  shows "inv q'" "content q' = content q @ [x]"
  using put_room [OF assms(1), of x] assms put_Inr_iff [OF assms(1), of x] by auto

lemma simulation:
  assumes "inv q"
  shows "case spec_run cap xs (content q, out) of
      None \<Rightarrow> \<exists>m. impl_run pt tk xs (q, out) = Inl m
    | Some (l, out') \<Rightarrow> \<exists>q'. impl_run pt tk xs (q, out) = Inr (q', out') \<and> inv q' \<and> content q' = l"
  using assms
proof (induction xs arbitrary: q out)
  case (Cons x xs)
  show ?case
  proof (cases x)
    case (Put a)
    show ?thesis
    proof (cases "length (content q) < cap")
      case True
      then obtain q' where "pt a q = Inr q'" "inv q'" "content q' = content q @ [a]"
        using put_room [OF Cons.prems] by blast
      then show ?thesis using Cons.IH [of q' out] True Put by (auto split: option.splits)
    next
      case False
      then obtain m where "pt a q = Inl m"
        using put_full [OF Cons.prems] content_bounded [OF Cons.prems] by fastforce
      then show ?thesis using False Put by (auto split: option.splits)
    qed
  next
    case Take
    show ?thesis
    proof (cases "content q")
      case Nil
      then have "tk q = None" by (rule take_none [OF Cons.prems])
      then show ?thesis using Cons.IH [of q out] Cons.prems Take Nil by (auto split: option.splits)
    next
      case c: (Cons y r)
      obtain q' where "tk q = Some (y, q')" "inv q'" "content q' = r"
        using take_some [OF Cons.prems c] by blast
      then show ?thesis using Cons.IH [of q' "out @ [y]"] Take c by (auto split: option.splits)
    qed
  qed
qed simp

lemma fifo_order:
  assumes "inv q" "impl_run pt tk xs (q, []) = Inr (q', out)"
  shows "inv q' \<and> out @ content q' = content q @ puts xs"
proof -
  from simulation [OF assms(1), of xs "[]"] assms(2)
  obtain l where "spec_run cap xs (content q, []) = Some (l, out)" "inv q'" "content q' = l"
    by (auto split: option.splits)
  then show ?thesis using spec_run_order [of cap xs "content q" "[]" l out] by simp
qed

end

end
