(* ===== verification/Task_Ctrl.thy ===== *)
theory Task_Ctrl
  imports Fifo
begin

text \<open>
  The control file of kmod/task.c: the queue of actions the controller asks of a task, the record
  kept of every task, the read a task makes to learn what to do, and the loop of user/user.c that
  makes that read. The last section runs the controller and one task against each other as a step
  relation and proves that a settled task has done everything it was asked, in order.
\<close>

section \<open>The action queue\<close>

datatype kstep_ctrl =
    KSTEP_CTRL_NONE | KSTEP_CTRL_EXIT | KSTEP_CTRL_PAUSE | KSTEP_CTRL_BLOCK
  | KSTEP_CTRL_CHAN_READ | KSTEP_CTRL_CHAN_WRITE | KSTEP_CTRL_YIELD | KSTEP_CTRL_PARK

abbreviation KSTEP_CTRL_QUEUE :: nat where
  "KSTEP_CTRL_QUEUE \<equiv> 8"

record kstep_task =
  kt_p :: tptr
  kt_settled :: bool
  kt_queue :: "kstep_ctrl list"
  kt_head :: u32
  kt_tail :: u32

text \<open>Only the task itself takes; an empty queue gives \<open>KSTEP_CTRL_NONE\<close>.\<close>

definition kstep_ctrl_take :: "kstep_task \<Rightarrow> kstep_ctrl \<times> kstep_task" where
  "kstep_ctrl_take t =
     (if kt_head t = kt_tail t then (KSTEP_CTRL_NONE, t)
      else (kt_queue t ! (unat (kt_head t) mod KSTEP_CTRL_QUEUE), t\<lparr>kt_head := kt_head t + 1\<rparr>))"

text \<open>Only the controller puts; the comparison is on the wrapping difference of the counters.\<close>

definition kstep_ctrl_put :: "kstep_task \<Rightarrow> kstep_ctrl \<Rightarrow> kstep_task outcome" where
  "kstep_ctrl_put t act =
     (if kt_tail t - kt_head t \<ge> 8 then Inl ''Task %d has more than %d actions outstanding''
      else Inr (t\<lparr>kt_queue := (kt_queue t)[unat (kt_tail t) mod KSTEP_CTRL_QUEUE := act],
                  kt_tail := kt_tail t + 1\<rparr>))"

definition ctrl_inv :: "kstep_task \<Rightarrow> bool" where
  "ctrl_inv t \<longleftrightarrow> length (kt_queue t) = KSTEP_CTRL_QUEUE \<and>
     unat (kt_tail t - kt_head t) \<le> KSTEP_CTRL_QUEUE"

text \<open>What is asked for and not yet taken, oldest first.\<close>

definition ctrl_pending :: "kstep_task \<Rightarrow> kstep_ctrl list" where
  "ctrl_pending t = ring_list (kt_queue t) (kt_head t) (kt_tail t)"

text \<open>The take as a partial operation: nothing to take when the counters agree.\<close>

definition ctrl_take_opt :: "kstep_task \<Rightarrow> (kstep_ctrl \<times> kstep_task) option" where
  "ctrl_take_opt t = (if kt_head t = kt_tail t then None else Some (kstep_ctrl_take t))"

named_theorems ctrl_defs \<open>the definitions of the action queue\<close>

declare ctrl_inv_def [ctrl_defs] ctrl_pending_def [ctrl_defs] kstep_ctrl_take_def [ctrl_defs]
  kstep_ctrl_put_def [ctrl_defs] ctrl_take_opt_def [ctrl_defs]

lemma u32_ge_8: "(8 \<le> (w :: u32)) \<longleftrightarrow> 8 \<le> unat w"
  by (simp add: word_le_nat_alt)

lemma ctrl_pending_empty:
  "ctrl_pending t = [] \<longleftrightarrow> kt_head t = kt_tail t"
proof -
  have "length (ctrl_pending t) = 0 \<longleftrightarrow> kt_tail t - kt_head t = 0"
    by (simp add: ctrl_pending_def unat_eq_zero)
  then show ?thesis by auto
qed

interpretation ctrl: bounded_fifo ctrl_inv ctrl_pending KSTEP_CTRL_QUEUE
  "\<lambda>a t. kstep_ctrl_put t a" ctrl_take_opt
proof unfold_locales
  fix t :: kstep_task and a
  assume inv: "ctrl_inv t"
  then show "length (ctrl_pending t) \<le> KSTEP_CTRL_QUEUE" by (simp add: ctrl_defs)
  {
    assume "length (ctrl_pending t) < KSTEP_CTRL_QUEUE"
    then have lt: "unat (kt_tail t - kt_head t) < 8" by (simp add: ctrl_defs)
    then have "unat (kt_tail t + 1 - kt_head t) = Suc (unat (kt_tail t - kt_head t))"
      by (intro unat_diff_succ_right) simp
    then show "\<exists>t'. kstep_ctrl_put t a = Inr t' \<and> ctrl_inv t' \<and>
        ctrl_pending t' = ctrl_pending t @ [a]"
      using lt inv ring_list_put [of "kt_queue t" "kt_tail t" "kt_head t" a]
      by (simp add: ctrl_defs u32_ge_8)
  next
    assume "length (ctrl_pending t) = KSTEP_CTRL_QUEUE"
    then show "\<exists>m. kstep_ctrl_put t a = Inl m" by (simp add: ctrl_defs u32_ge_8)
  next
    assume "ctrl_pending t = []"
    then show "ctrl_take_opt t = None" by (simp add: ctrl_pending_empty ctrl_take_opt_def)
  next
    fix r
    assume l: "ctrl_pending t = a # r"
    then have ne: "kt_head t \<noteq> kt_tail t" using ctrl_pending_empty [of t] by auto
    then show "\<exists>t'. ctrl_take_opt t = Some (a, t') \<and> ctrl_inv t' \<and> ctrl_pending t' = r"
      using l inv ring_list_take [of "kt_queue t" "kt_head t" "kt_tail t"]
        unat_diff_succ_left [OF ne] by (simp add: ctrl_defs)
  }
qed

section \<open>The record of every task\<close>

text \<open>
  The xarray of records, keyed by pid. A task is named by its pointer and its pid (\<open>p->pid\<close>):
  a reused pid does not find the dead task's record.
\<close>

type_synonym kstep_tasks = "nat \<rightharpoonup> kstep_task"

definition kstep_task_find :: "kstep_tasks \<Rightarrow> tptr \<Rightarrow> nat \<Rightarrow> kstep_task option" where
  "kstep_task_find xa p pid =
     (case xa pid of None \<Rightarrow> None | Some t \<Rightarrow> if kt_p t = p then Some t else None)"

text \<open>
  \<open>kzalloc\<close>'s zeroed record with its reference to the task, then the park that a new task's first
  read takes, then the store. \<open>alloc_ok\<close> and \<open>store_ok\<close> say whether the allocations
  inside \<open>kzalloc\<close> and \<open>xa_store\<close> succeeded.
\<close>

definition kstep_task_zalloc :: "tptr \<Rightarrow> kstep_task" where
  "kstep_task_zalloc p = \<lparr>kt_p = p, kt_settled = False,
     kt_queue = replicate KSTEP_CTRL_QUEUE KSTEP_CTRL_NONE, kt_head = 0, kt_tail = 0\<rparr>"

definition kstep_task_add :: "bool \<Rightarrow> bool \<Rightarrow> tptr \<Rightarrow> nat \<Rightarrow> kstep_tasks \<Rightarrow> kstep_tasks outcome" where
  "kstep_task_add alloc_ok store_ok p pid xa =
     (if \<not> alloc_ok then Inl ''Failed to record task %d''
      else bind_outcome (kstep_ctrl_put (kstep_task_zalloc p) KSTEP_CTRL_PARK) (\<lambda>t.
        if \<not> store_ok then Inl ''Failed to record task %d'' else Inr (xa(pid \<mapsto> t))))"

definition kstep_task_settled :: "kstep_tasks \<Rightarrow> tptr \<Rightarrow> nat \<Rightarrow> bool \<Rightarrow> bool" where
  "kstep_task_settled xa p pid signal_pending =
     (case kstep_task_find xa p pid of None \<Rightarrow> False
      | Some t \<Rightarrow> kt_settled t \<and> kt_head t = kt_tail t \<and> \<not> signal_pending)"

section \<open>The control file's read\<close>

text \<open>
  What one read comes to. \<open>Read_park\<close>: the state is set to interruptible, the controller is told
  and the task schedules away; \<open>Read_act\<close>: one byte is handed over and the read returns 1;
  \<open>Read_halt\<close>: marked settled and halted with interrupts coming on only as it halts;
  \<open>Read_again\<close>: a reschedule or a signal is pending and the read returns 0 at once.
\<close>

datatype ctrl_read = Read_park | Read_act kstep_ctrl | Read_halt | Read_again

definition kstep_ctrl_read ::
  "kstep_tasks \<Rightarrow> tptr \<Rightarrow> nat \<Rightarrow> nat \<Rightarrow> bool \<Rightarrow> bool \<Rightarrow> bool \<Rightarrow> (ctrl_read \<times> kstep_tasks) outcome" where
  "kstep_ctrl_read xa p pid len copy_ok need_resched signal_pending =
     (case kstep_task_find xa p pid of None \<Rightarrow> Inl ''Task %d has no kSTEP record''
      | Some t \<Rightarrow>
        (let (act, t') = kstep_ctrl_take t; xa' = xa(pid \<mapsto> t') in
         if act = KSTEP_CTRL_PARK then Inr (Read_park, xa')
         else if act \<noteq> KSTEP_CTRL_NONE then
           (if len = 0 \<or> \<not> copy_ok then Inl ''Task %d cannot be given action %d''
            else Inr (Read_act act, xa'))
         else if \<not> need_resched \<and> \<not> signal_pending
           then Inr (Read_halt, xa(pid \<mapsto> t'\<lparr>kt_settled := True\<rparr>))
         else Inr (Read_again, xa')))"

text \<open>What runs when an interrupt ends the halt, before the read returns 0.\<close>

definition kstep_ctrl_unhalt :: "kstep_tasks \<Rightarrow> nat \<Rightarrow> kstep_tasks" where
  "kstep_ctrl_unhalt xa pid =
     (case xa pid of None \<Rightarrow> xa | Some t \<Rightarrow> xa(pid \<mapsto> t\<lparr>kt_settled := False\<rparr>))"

text \<open>
  The controller's side: queue the action and, for a task already halted at the read, say that an
  interprocessor interrupt lets it out (the second component). The settle that follows is the
  caller's wait.
\<close>

definition kstep_task_ctrl ::
  "kstep_tasks \<Rightarrow> tptr \<Rightarrow> nat \<Rightarrow> kstep_ctrl \<Rightarrow> (kstep_tasks \<times> bool) outcome" where
  "kstep_task_ctrl xa p pid act =
     (case kstep_task_find xa p pid of None \<Rightarrow> Inl ''Task %d has no kSTEP record''
      | Some t \<Rightarrow> bind_outcome (kstep_ctrl_put t act)
          (\<lambda>t'. Inr (xa(pid \<mapsto> t'), kt_settled t')))"

section \<open>The task's own loop\<close>

text \<open>
  Where a task is: about to read the control file, parked in its first read, halted in a read,
  asleep in the system call of an action, or gone.
\<close>

datatype task_pc = At_read | Parked | Halted | Asleep kstep_ctrl | Exited

text \<open>
  The switch of \<open>task_main\<close>: the system call each action makes and where it leaves the task. The
  first byte a read returned is \<open>c\<close>; anything else is \<open>panic("Unknown control action")\<close>.
\<close>

fun task_main_act :: "kstep_ctrl \<Rightarrow> task_pc outcome" where
  "task_main_act KSTEP_CTRL_EXIT = Inr Exited"
| "task_main_act KSTEP_CTRL_PAUSE = Inr (Asleep KSTEP_CTRL_PAUSE)"
| "task_main_act KSTEP_CTRL_BLOCK = Inr (Asleep KSTEP_CTRL_BLOCK)"
| "task_main_act KSTEP_CTRL_CHAN_READ = Inr (Asleep KSTEP_CTRL_CHAN_READ)"
| "task_main_act KSTEP_CTRL_CHAN_WRITE = Inr At_read"
| "task_main_act KSTEP_CTRL_YIELD = Inr At_read"
| "task_main_act KSTEP_CTRL_NONE = Inl ''Unknown control action: %d''"
| "task_main_act KSTEP_CTRL_PARK = Inl ''Unknown control action: %d''"

text \<open>The actions the controller's verbs ask for (task.c, kstep_task_pause to kstep_task_block).\<close>

definition verb_acts :: "kstep_ctrl set" where
  "verb_acts = {KSTEP_CTRL_EXIT, KSTEP_CTRL_PAUSE, KSTEP_CTRL_BLOCK, KSTEP_CTRL_CHAN_READ,
     KSTEP_CTRL_CHAN_WRITE, KSTEP_CTRL_YIELD}"

definition kstep_task_pause :: "kstep_tasks \<Rightarrow> tptr \<Rightarrow> nat \<Rightarrow> (kstep_tasks \<times> bool) outcome" where
  "kstep_task_pause xa p pid = kstep_task_ctrl xa p pid KSTEP_CTRL_PAUSE"

definition kstep_task_exit :: "kstep_tasks \<Rightarrow> tptr \<Rightarrow> nat \<Rightarrow> (kstep_tasks \<times> bool) outcome" where
  "kstep_task_exit xa p pid = kstep_task_ctrl xa p pid KSTEP_CTRL_EXIT"

definition kstep_task_yield :: "kstep_tasks \<Rightarrow> tptr \<Rightarrow> nat \<Rightarrow> (kstep_tasks \<times> bool) outcome" where
  "kstep_task_yield xa p pid = kstep_task_ctrl xa p pid KSTEP_CTRL_YIELD"

definition kstep_task_chan_read :: "kstep_tasks \<Rightarrow> tptr \<Rightarrow> nat \<Rightarrow> (kstep_tasks \<times> bool) outcome" where
  "kstep_task_chan_read xa p pid = kstep_task_ctrl xa p pid KSTEP_CTRL_CHAN_READ"

definition kstep_task_chan_write :: "kstep_tasks \<Rightarrow> tptr \<Rightarrow> nat \<Rightarrow> (kstep_tasks \<times> bool) outcome" where
  "kstep_task_chan_write xa p pid = kstep_task_ctrl xa p pid KSTEP_CTRL_CHAN_WRITE"

definition kstep_task_block :: "kstep_tasks \<Rightarrow> tptr \<Rightarrow> nat \<Rightarrow> (kstep_tasks \<times> bool) outcome" where
  "kstep_task_block xa p pid = kstep_task_ctrl xa p pid KSTEP_CTRL_BLOCK"


section \<open>The controller and one task\<close>

text \<open>
  The two sides as a step relation. Ghost fields record what was asked (\<open>cs_asked\<close>, by the verbs)
  and what the task has taken (\<open>cs_done\<close>). \<open>task_step\<close> is the task's own: the reads of
  its loop, the interrupt that ends a halt, and the return from a sleep when a signal is pending or
  its channel read completes. \<open>need_resched\<close> is free in every read: the scheduler may want the CPU
  at any time.
\<close>

record ctrl_sys =
  cs_xa :: kstep_tasks
  cs_pc :: task_pc
  cs_sig :: bool
  cs_asked :: "kstep_ctrl list"
  cs_done :: "kstep_ctrl list"

inductive task_step :: "tptr \<Rightarrow> nat \<Rightarrow> ctrl_sys \<Rightarrow> ctrl_sys \<Rightarrow> bool" for p pid where
  read_park: "cs_pc s = At_read \<Longrightarrow>
    kstep_ctrl_read (cs_xa s) p pid 1 True nr (cs_sig s) = Inr (Read_park, xa') \<Longrightarrow>
    task_step p pid s (s\<lparr>cs_xa := xa', cs_pc := Parked, cs_done := cs_done s @ [KSTEP_CTRL_PARK]\<rparr>)"
| read_act: "cs_pc s = At_read \<Longrightarrow>
    kstep_ctrl_read (cs_xa s) p pid 1 True nr (cs_sig s) = Inr (Read_act a, xa') \<Longrightarrow>
    task_main_act a = Inr pc' \<Longrightarrow>
    task_step p pid s (s\<lparr>cs_xa := xa', cs_pc := pc', cs_done := cs_done s @ [a]\<rparr>)"
| read_halt: "cs_pc s = At_read \<Longrightarrow>
    kstep_ctrl_read (cs_xa s) p pid 1 True nr (cs_sig s) = Inr (Read_halt, xa') \<Longrightarrow>
    task_step p pid s (s\<lparr>cs_xa := xa', cs_pc := Halted\<rparr>)"
| read_again: "cs_pc s = At_read \<Longrightarrow>
    kstep_ctrl_read (cs_xa s) p pid 1 True nr (cs_sig s) = Inr (Read_again, xa') \<Longrightarrow>
    task_step p pid s (s\<lparr>cs_xa := xa'\<rparr>)"
| unhalt: "cs_pc s = Halted \<Longrightarrow>
    task_step p pid s (s\<lparr>cs_xa := kstep_ctrl_unhalt (cs_xa s) pid, cs_pc := At_read\<rparr>)"
| handle: "cs_sig s \<Longrightarrow> cs_pc s \<notin> {Halted, Exited} \<Longrightarrow>
    task_step p pid s (s\<lparr>cs_pc := At_read, cs_sig := False\<rparr>)"
| token: "cs_pc s = Asleep KSTEP_CTRL_CHAN_READ \<Longrightarrow>
    task_step p pid s (s\<lparr>cs_pc := At_read\<rparr>)"

inductive ctrl_step :: "tptr \<Rightarrow> nat \<Rightarrow> ctrl_sys \<Rightarrow> ctrl_sys \<Rightarrow> bool" for p pid where
  ask: "act \<in> verb_acts \<Longrightarrow> kstep_task_ctrl (cs_xa s) p pid act = Inr (xa', ipi) \<Longrightarrow>
    ctrl_step p pid s (s\<lparr>cs_xa := xa', cs_asked := cs_asked s @ [act]\<rparr>)"
| wakeup: "ctrl_step p pid s (s\<lparr>cs_sig := True\<rparr>)"
| own: "task_step p pid s s' \<Longrightarrow> ctrl_step p pid s s'"

text \<open>A task starts at its first read, recorded, nothing asked and nothing done.\<close>

inductive ctrl_reachable :: "tptr \<Rightarrow> nat \<Rightarrow> ctrl_sys \<Rightarrow> bool" for p pid where
  start: "kstep_task_add True True p pid xa = Inr xa' \<Longrightarrow>
    ctrl_reachable p pid
      \<lparr>cs_xa = xa', cs_pc = At_read, cs_sig = False, cs_asked = [], cs_done = []\<rparr>"
| step: "ctrl_reachable p pid s \<Longrightarrow> ctrl_step p pid s s' \<Longrightarrow> ctrl_reachable p pid s'"

definition ctrl_sys_inv :: "tptr \<Rightarrow> nat \<Rightarrow> ctrl_sys \<Rightarrow> bool" where
  "ctrl_sys_inv p pid s \<longleftrightarrow> (\<exists>t. cs_xa s pid = Some t \<and> kt_p t = p \<and> ctrl_inv t \<and>
     cs_done s @ ctrl_pending t = KSTEP_CTRL_PARK # cs_asked s \<and>
     set (cs_asked s) \<subseteq> verb_acts \<and> (kt_settled t \<longleftrightarrow> cs_pc s = Halted))"

lemma kstep_ctrl_take_settled [simp]:
  "kt_settled (snd (kstep_ctrl_take t)) = kt_settled t" "kt_p (snd (kstep_ctrl_take t)) = kt_p t"
  by (simp_all add: kstep_ctrl_take_def)

lemma kstep_ctrl_put_fields:
  "kstep_ctrl_put t a = Inr t' \<Longrightarrow> kt_settled t' = kt_settled t \<and> kt_p t' = kt_p t"
  by (auto simp: kstep_ctrl_put_def split: if_splits)

lemma kstep_ctrl_take_cases:
  assumes "ctrl_inv t"
  obtains (empty) "ctrl_pending t = []" "kstep_ctrl_take t = (KSTEP_CTRL_NONE, t)"
  | (taken) a t' where "kstep_ctrl_take t = (a, t')" "ctrl_pending t = a # ctrl_pending t'"
      "ctrl_inv t'" "kt_settled t' = kt_settled t" "kt_p t' = kt_p t"
proof (cases "ctrl_pending t")
  case Nil
  then show thesis using empty by (simp add: kstep_ctrl_take_def ctrl_pending_empty)
next
  case (Cons a r)
  then obtain t' where "ctrl_take_opt t = Some (a, t')" "ctrl_inv t'" "ctrl_pending t' = r"
    using ctrl.take_some [OF assms Cons] by blast
  moreover from this have "kstep_ctrl_take t = (a, t')"
    by (auto simp: ctrl_take_opt_def split: if_splits)
  ultimately show thesis using taken Cons kstep_ctrl_take_settled [of t] by fastforce
qed

lemma kstep_task_find_Some [simp]:
  "xa pid = Some t \<Longrightarrow> kt_p t = p \<Longrightarrow> kstep_task_find xa p pid = Some t"
  by (simp add: kstep_task_find_def)

text \<open>What one read does to a recorded task, by what its queue holds.\<close>

lemma kstep_ctrl_read_result:
  assumes "xa pid = Some t" "kt_p t = p" "ctrl_inv t"
    and nn: "KSTEP_CTRL_NONE \<notin> set (ctrl_pending t)"
  shows "ctrl_pending t = [] \<and> kstep_ctrl_read xa p pid 1 True nr sg =
      Inr (if \<not> nr \<and> \<not> sg then (Read_halt, xa(pid \<mapsto> t\<lparr>kt_settled := True\<rparr>)) else (Read_again, xa))
    \<or> (\<exists>a t'. ctrl_pending t = a # ctrl_pending t' \<and> ctrl_inv t' \<and>
      kt_settled t' = kt_settled t \<and> kt_p t' = p \<and> a \<noteq> KSTEP_CTRL_NONE \<and>
      kstep_ctrl_read xa p pid 1 True nr sg =
        Inr (if a = KSTEP_CTRL_PARK then Read_park else Read_act a, xa(pid \<mapsto> t')))"
  using assms(3)
proof (cases rule: kstep_ctrl_take_cases)
  case empty
  have "xa(pid \<mapsto> t) = xa" using assms(1) by auto
  with empty show ?thesis using assms(1,2) by (simp add: kstep_ctrl_read_def)
next
  case (taken a t')
  then have "a \<noteq> KSTEP_CTRL_NONE" using nn by auto
  with taken show ?thesis using assms(1,2) by (auto simp: kstep_ctrl_read_def)
qed

lemma ctrl_sys_inv_no_none:
  assumes "cs_done s @ ctrl_pending t = KSTEP_CTRL_PARK # cs_asked s" "set (cs_asked s) \<subseteq> verb_acts"
  shows "KSTEP_CTRL_NONE \<notin> set (ctrl_pending t)"
proof
  assume "KSTEP_CTRL_NONE \<in> set (ctrl_pending t)"
  then have "KSTEP_CTRL_NONE \<in> set (KSTEP_CTRL_PARK # cs_asked s)"
    using assms(1) by (metis Un_iff set_append)
  with assms(2) show False by (auto simp: verb_acts_def)
qed

lemma task_main_act_not_halted: "task_main_act a = Inr pc' \<Longrightarrow> pc' \<noteq> Halted"
  by (cases a) auto

lemma ctrl_inv_settled [simp]: "ctrl_inv (t\<lparr>kt_settled := b\<rparr>) = ctrl_inv t"
  "ctrl_pending (t\<lparr>kt_settled := b\<rparr>) = ctrl_pending t"
  by (simp_all add: ctrl_defs)

lemma task_step_inv:
  assumes "task_step p pid s s'" "ctrl_sys_inv p pid s"
  shows "ctrl_sys_inv p pid s'"
proof -
  from assms(2) obtain t where t: "cs_xa s pid = Some t" "kt_p t = p" "ctrl_inv t"
    and ord: "cs_done s @ ctrl_pending t = KSTEP_CTRL_PARK # cs_asked s"
    and vb: "set (cs_asked s) \<subseteq> verb_acts" and st: "kt_settled t \<longleftrightarrow> cs_pc s = Halted"
    by (auto simp: ctrl_sys_inv_def)
  note rd = kstep_ctrl_read_result [where xa = "cs_xa s" and sg = "cs_sig s", OF t
      ctrl_sys_inv_no_none [OF ord vb]]
  show ?thesis
    using assms(1)
  proof cases
    case (read_park nr xa')
    then show ?thesis
      using rd [of nr] ord vb st
      by (auto simp: ctrl_sys_inv_def split: if_splits)
  next
    case (read_act nr a xa' pc')
    then show ?thesis
      using rd [of nr] ord vb st
        task_main_act_not_halted [of a pc']
      by (auto simp: ctrl_sys_inv_def split: if_splits)
  next
    case (read_halt nr xa')
    then show ?thesis
      using rd [of nr] t ord vb st
      by (auto simp: ctrl_sys_inv_def split: if_splits)
  next
    case (read_again nr xa')
    then show ?thesis
      using rd [of nr] t ord vb st
      by (auto simp: ctrl_sys_inv_def split: if_splits)
  next
    case unhalt
    then show ?thesis using t ord vb st by (auto simp: ctrl_sys_inv_def kstep_ctrl_unhalt_def)
  next
    case handle
    then show ?thesis using t ord vb st by (auto simp: ctrl_sys_inv_def)
  next
    case token
    then show ?thesis using t ord vb st by (auto simp: ctrl_sys_inv_def)
  qed
qed

lemma ctrl_step_inv:
  assumes "ctrl_step p pid s s'" "ctrl_sys_inv p pid s"
  shows "ctrl_sys_inv p pid s'"
  using assms(1)
proof cases
  case (ask act xa' ipi)
  from assms(2) obtain t where t: "cs_xa s pid = Some t" "kt_p t = p" "ctrl_inv t"
    "cs_done s @ ctrl_pending t = KSTEP_CTRL_PARK # cs_asked s"
    "set (cs_asked s) \<subseteq> verb_acts" "kt_settled t \<longleftrightarrow> cs_pc s = Halted"
    by (auto simp: ctrl_sys_inv_def)
  with ask obtain t' where t': "kstep_ctrl_put t act = Inr t'" "xa' = (cs_xa s)(pid \<mapsto> t')"
    by (auto simp: kstep_task_ctrl_def bind_outcome_Inr_iff)
  then have "ctrl_inv t'" "ctrl_pending t' = ctrl_pending t @ [act]"
    using ctrl.put_Inr [OF t(3)] by auto
  then show ?thesis using ask t t' kstep_ctrl_put_fields [OF t'(1)]
    by (auto simp: ctrl_sys_inv_def)
next
  case wakeup
  then show ?thesis using assms(2) by (auto simp: ctrl_sys_inv_def)
next
  case own
  then show ?thesis using assms(2) by (rule task_step_inv)
qed

lemma kstep_task_add_pending:
  assumes "kstep_task_add a b p pid xa = Inr xa'"
  shows "\<exists>t. xa' pid = Some t \<and> kt_p t = p \<and> ctrl_inv t \<and> ctrl_pending t = [KSTEP_CTRL_PARK] \<and>
    \<not> kt_settled t"
proof -
  have z: "ctrl_inv (kstep_task_zalloc p)" "ctrl_pending (kstep_task_zalloc p) = []"
    by (simp_all add: ctrl_defs kstep_task_zalloc_def)
  obtain t where "kstep_ctrl_put (kstep_task_zalloc p) KSTEP_CTRL_PARK = Inr t" "xa' = xa(pid \<mapsto> t)"
    using assms by (auto simp: kstep_task_add_def bind_outcome_Inr_iff split: if_splits)
  then show ?thesis
    using ctrl.put_Inr [OF z(1), of KSTEP_CTRL_PARK t] z(2)
      kstep_ctrl_put_fields [of "kstep_task_zalloc p" KSTEP_CTRL_PARK t]
    by (simp add: kstep_task_zalloc_def)
qed

lemma ctrl_reachable_inv: "ctrl_reachable p pid s \<Longrightarrow> ctrl_sys_inv p pid s"
proof (induction rule: ctrl_reachable.induct)
  case (start xa xa')
  then show ?case using kstep_task_add_pending [OF start] by (auto simp: ctrl_sys_inv_def)
next
  case (step s s')
  then show ?case by (blast intro: ctrl_step_inv)
qed


lemma pending_act_known:
  assumes "cs_done s @ ctrl_pending t = KSTEP_CTRL_PARK # cs_asked s" "set (cs_asked s) \<subseteq> verb_acts"
    and "a \<in> set (ctrl_pending t)" "a \<noteq> KSTEP_CTRL_PARK"
  shows "\<exists>pc. task_main_act a = Inr pc"
proof -
  have "a \<in> set (KSTEP_CTRL_PARK # cs_asked s)" using assms(1,3) by (metis Un_iff set_append)
  with assms(2,4) have "a \<in> verb_acts" by auto
  then show ?thesis by (auto simp: verb_acts_def)
qed

lemma task_main_act_pc: "task_main_act a = Inr pc \<Longrightarrow> pc \<in> {At_read, Exited} \<union> range Asleep"
  by (cases a) auto

lemma ctrl_sys_inv_drains:
  assumes "ctrl_sys_inv p pid s" "cs_pc s = At_read" "\<not> cs_sig s"
  shows "\<exists>s'. (task_step p pid)\<^sup>*\<^sup>* s s' \<and> cs_asked s' = cs_asked s \<and>
    (kstep_task_settled (cs_xa s') p pid (cs_sig s') \<or> cs_pc s' \<in> {Parked, Exited} \<union> range Asleep)"
  using assms
proof (induction "length (ctrl_pending (the (cs_xa s pid)))" arbitrary: s rule: less_induct)
  case less
  obtain t where t: "cs_xa s pid = Some t" "kt_p t = p" "ctrl_inv t"
    and ord: "cs_done s @ ctrl_pending t = KSTEP_CTRL_PARK # cs_asked s"
    and vb: "set (cs_asked s) \<subseteq> verb_acts"
    using less.prems(1) by (auto simp: ctrl_sys_inv_def)
  note rd = kstep_ctrl_read_result [where xa = "cs_xa s" and nr = False and sg = "cs_sig s", OF t
      ctrl_sys_inv_no_none [OF ord vb]]
  show ?case
    using rd
  proof (elim disjE exE conjE)
    assume e: "ctrl_pending t = []"
      and r: "kstep_ctrl_read (cs_xa s) p pid 1 True False (cs_sig s) =
        Inr (if \<not> False \<and> \<not> cs_sig s then (Read_halt, (cs_xa s)(pid \<mapsto> t\<lparr>kt_settled := True\<rparr>))
             else (Read_again, cs_xa s))"
    let ?s = "s\<lparr>cs_xa := (cs_xa s)(pid \<mapsto> t\<lparr>kt_settled := True\<rparr>), cs_pc := Halted\<rparr>"
    have "task_step p pid s ?s" using less.prems r by (intro task_step.read_halt) auto
    moreover have "kstep_task_settled (cs_xa ?s) p pid (cs_sig ?s)"
      using e t less.prems by (auto simp: kstep_task_settled_def kstep_task_find_def ctrl_pending_empty)
    ultimately show ?case by (intro exI [of _ ?s]) auto
  next
    fix a t'
    assume p: "ctrl_pending t = a # ctrl_pending t'"
      and r: "kstep_ctrl_read (cs_xa s) p pid 1 True False (cs_sig s) =
        Inr (if a = KSTEP_CTRL_PARK then Read_park else Read_act a, (cs_xa s)(pid \<mapsto> t'))"
    show ?case
    proof (cases "a = KSTEP_CTRL_PARK")
      case True
      let ?s = "s\<lparr>cs_xa := (cs_xa s)(pid \<mapsto> t'), cs_pc := Parked, cs_done := cs_done s @ [KSTEP_CTRL_PARK]\<rparr>"
      have "task_step p pid s ?s" using less.prems r True by (intro task_step.read_park) auto
      then show ?thesis by (intro exI [of _ ?s]) auto
    next
      case False
      then obtain pc where pc: "task_main_act a = Inr pc" using pending_act_known [OF ord vb] p by auto
      let ?s = "s\<lparr>cs_xa := (cs_xa s)(pid \<mapsto> t'), cs_pc := pc, cs_done := cs_done s @ [a]\<rparr>"
      have st: "task_step p pid s ?s" using less.prems r pc False by (intro task_step.read_act) auto
      show ?thesis
      proof (cases "pc = At_read")
        case True
        then obtain s' where "(task_step p pid)\<^sup>*\<^sup>* ?s s'" "cs_asked s' = cs_asked s"
          "kstep_task_settled (cs_xa s') p pid (cs_sig s') \<or> cs_pc s' \<in> {Parked, Exited} \<union> range Asleep"
          using less.hyps [of ?s] task_step_inv [OF st less.prems(1)] less.prems(3) p t by auto
        then show ?thesis using st by (meson converse_rtranclp_into_rtranclp)
      next
        case False
        then show ?thesis using st task_main_act_pc [OF pc] by (intro exI [of _ ?s]) auto
      qed
    qed
  qed
qed

text \<open>A run that parks, is woken, asked to yield, yields and settles.\<close>

lemma demo_settled:
  "\<exists>s. ctrl_reachable 1 7 s \<and> kstep_task_settled (cs_xa s) 1 7 (cs_sig s) \<and> cs_asked s = [KSTEP_CTRL_YIELD]"
proof -
  let ?q0 = "(replicate 8 KSTEP_CTRL_NONE)[0 := KSTEP_CTRL_PARK]"
  let ?q1 = "?q0[1 := KSTEP_CTRL_YIELD]"
  let ?t = "\<lambda>b q h l. \<lparr>kt_p = 1, kt_settled = b, kt_queue = q, kt_head = h, kt_tail = l\<rparr>"
  let ?s = "\<lambda>t pc sg ask dn. \<lparr>cs_xa = [7 \<mapsto> t], cs_pc = pc, cs_sig = sg, cs_asked = ask, cs_done = dn\<rparr>"
  let ?P = "KSTEP_CTRL_PARK" and ?Y = "KSTEP_CTRL_YIELD"
  have "kstep_task_add True True 1 7 Map.empty = Inr [7 \<mapsto> ?t False ?q0 0 1]"
    by (simp add: kstep_task_add_def kstep_ctrl_put_def kstep_task_zalloc_def)
  then have r0: "ctrl_reachable 1 7 (?s (?t False ?q0 0 1) At_read False [] [])"
    by (rule ctrl_reachable.start)
  have "task_step 1 7 (?s (?t False ?q0 0 1) At_read False [] []) (?s (?t False ?q0 1 1) Parked False [] [?P])"
    using task_step.read_park [of "?s (?t False ?q0 0 1) At_read False [] []" 1 7 False "[7 \<mapsto> ?t False ?q0 1 1]"]
    by (simp add: kstep_ctrl_read_def kstep_task_find_def kstep_ctrl_take_def)
  with r0 have r1: "ctrl_reachable 1 7 (?s (?t False ?q0 1 1) Parked False [] [?P])"
    by (blast intro: ctrl_reachable.step ctrl_step.own)
  have "ctrl_step 1 7 (?s (?t False ?q0 1 1) Parked False [] [?P]) (?s (?t False ?q0 1 1) Parked True [] [?P])"
    using ctrl_step.wakeup [of 1 7 "?s (?t False ?q0 1 1) Parked False [] [?P]"] by simp
  with r1 have r2: "ctrl_reachable 1 7 (?s (?t False ?q0 1 1) Parked True [] [?P])"
    by (rule ctrl_reachable.step)
  have "task_step 1 7 (?s (?t False ?q0 1 1) Parked True [] [?P]) (?s (?t False ?q0 1 1) At_read False [] [?P])"
    using task_step.handle [of "?s (?t False ?q0 1 1) Parked True [] [?P]" 1 7] by simp
  with r2 have r3: "ctrl_reachable 1 7 (?s (?t False ?q0 1 1) At_read False [] [?P])"
    by (blast intro: ctrl_reachable.step ctrl_step.own)
  have "ctrl_step 1 7 (?s (?t False ?q0 1 1) At_read False [] [?P]) (?s (?t False ?q1 1 2) At_read False [?Y] [?P])"
    using ctrl_step.ask [of ?Y "?s (?t False ?q0 1 1) At_read False [] [?P]" 1 7 "[7 \<mapsto> ?t False ?q1 1 2]" False]
    by (simp add: kstep_task_ctrl_def kstep_task_find_def kstep_ctrl_put_def verb_acts_def)
  with r3 have r4: "ctrl_reachable 1 7 (?s (?t False ?q1 1 2) At_read False [?Y] [?P])"
    by (rule ctrl_reachable.step)
  have "task_step 1 7 (?s (?t False ?q1 1 2) At_read False [?Y] [?P]) (?s (?t False ?q1 2 2) At_read False [?Y] [?P, ?Y])"
    using task_step.read_act [of "?s (?t False ?q1 1 2) At_read False [?Y] [?P]" 1 7 False ?Y "[7 \<mapsto> ?t False ?q1 2 2]" At_read]
    by (simp add: kstep_ctrl_read_def kstep_task_find_def kstep_ctrl_take_def)
  with r4 have r5: "ctrl_reachable 1 7 (?s (?t False ?q1 2 2) At_read False [?Y] [?P, ?Y])"
    by (blast intro: ctrl_reachable.step ctrl_step.own)
  have "task_step 1 7 (?s (?t False ?q1 2 2) At_read False [?Y] [?P, ?Y]) (?s (?t True ?q1 2 2) Halted False [?Y] [?P, ?Y])"
    using task_step.read_halt [of "?s (?t False ?q1 2 2) At_read False [?Y] [?P, ?Y]" 1 7 False "[7 \<mapsto> ?t True ?q1 2 2]"]
    by (simp add: kstep_ctrl_read_def kstep_task_find_def kstep_ctrl_take_def)
  with r5 have "ctrl_reachable 1 7 (?s (?t True ?q1 2 2) Halted False [?Y] [?P, ?Y])"
    by (blast intro: ctrl_reachable.step ctrl_step.own)
  then show ?thesis by (intro exI conjI) (auto simp: kstep_task_settled_def kstep_task_find_def)
qed

section \<open>Properties\<close>



text \<open>
  A put panics exactly when eight actions are outstanding, and otherwise appends its action.
\<close>

theorem ctrl_put_panics_iff_full:
  assumes "ctrl_inv t"
  shows "(\<exists>m. kstep_ctrl_put t a = Inl m) \<longleftrightarrow> length (ctrl_pending t) = KSTEP_CTRL_QUEUE"
proof -
  have "(\<exists>m. kstep_ctrl_put t a = Inl m) \<longleftrightarrow> \<not> (\<exists>t'. kstep_ctrl_put t a = Inr t')"
    by (cases "kstep_ctrl_put t a") auto
  then show ?thesis
    using ctrl.put_Inr_iff [OF assms, of a] ctrl.content_bounded [OF assms] by simp
qed

theorem ctrl_put_panics_iff_full_witness:
  "(\<exists>m. kstep_ctrl_put (kstep_task_zalloc 1) KSTEP_CTRL_PAUSE = Inl m) \<longleftrightarrow>
     length (ctrl_pending (kstep_task_zalloc 1)) = KSTEP_CTRL_QUEUE"
  by (rule ctrl_put_panics_iff_full) (simp add: ctrl_inv_def kstep_task_zalloc_def)

text \<open>
  C1. Settled means done: in every state the controller and a task can reach, when
  \<open>kstep_task_settled\<close> says yes, the task sits in the halt of its read and has performed
  its first park and every action asked of it since, in the order they were asked.
\<close>

theorem settled_means_done:
  assumes "ctrl_reachable p pid s" "kstep_task_settled (cs_xa s) p pid (cs_sig s)"
  shows "cs_done s = KSTEP_CTRL_PARK # cs_asked s \<and> cs_pc s = Halted \<and> \<not> cs_sig s"
proof -
  obtain t where t: "cs_xa s pid = Some t" "kt_p t = p"
    "cs_done s @ ctrl_pending t = KSTEP_CTRL_PARK # cs_asked s" "kt_settled t \<longleftrightarrow> cs_pc s = Halted"
    using ctrl_reachable_inv [OF assms(1)] by (auto simp: ctrl_sys_inv_def)
  moreover have "kt_settled t" "kt_head t = kt_tail t" "\<not> cs_sig s"
    using assms(2) t by (auto simp: kstep_task_settled_def)
  moreover from this have "ctrl_pending t = []" by (simp add: ctrl_pending_empty)
  ultimately show ?thesis by simp
qed

theorem settled_means_done_witness:
  "\<exists>s. ctrl_reachable 1 7 s \<and> kstep_task_settled (cs_xa s) 1 7 (cs_sig s) \<and>
    cs_asked s = [KSTEP_CTRL_YIELD] \<and> cs_done s = KSTEP_CTRL_PARK # cs_asked s \<and> cs_pc s = Halted"
  using demo_settled settled_means_done [of 1 7] by metis

text \<open>
  C5. At any moment a task has performed a prefix of what was asked of it, its park first, and at
  most eight actions are outstanding; a kill queued behind a wait never overtakes it.
\<close>

theorem actions_in_order:
  assumes "ctrl_reachable p pid s"
  shows "\<exists>rest. KSTEP_CTRL_PARK # cs_asked s = cs_done s @ rest \<and> length rest \<le> KSTEP_CTRL_QUEUE"
proof -
  obtain t where "ctrl_inv t" "cs_done s @ ctrl_pending t = KSTEP_CTRL_PARK # cs_asked s"
    using ctrl_reachable_inv [OF assms] by (auto simp: ctrl_sys_inv_def)
  then show ?thesis using ctrl.content_bounded by metis
qed

theorem actions_in_order_witness:
  "\<exists>s. ctrl_reachable 1 7 s \<and> cs_asked s = [KSTEP_CTRL_YIELD] \<and>
    (\<exists>rest. KSTEP_CTRL_PARK # cs_asked s = cs_done s @ rest \<and> length rest \<le> KSTEP_CTRL_QUEUE)"
  using demo_settled actions_in_order [of 1 7] by metis

text \<open>
  A read by a recorded task never panics, and what it hands over is always an action that the
  switch of \<open>task_main\<close> knows: the kmod-side values never reach user space.
\<close>

theorem read_never_panics:
  assumes "ctrl_reachable p pid s"
  shows "\<exists>r xa'. kstep_ctrl_read (cs_xa s) p pid 1 True nr (cs_sig s) = Inr (r, xa') \<and>
    (case r of Read_act a \<Rightarrow> (\<exists>pc. task_main_act a = Inr pc) | _ \<Rightarrow> True)"
proof -
  obtain t where t: "cs_xa s pid = Some t" "kt_p t = p" "ctrl_inv t"
    and ord: "cs_done s @ ctrl_pending t = KSTEP_CTRL_PARK # cs_asked s"
    and vb: "set (cs_asked s) \<subseteq> verb_acts"
    using ctrl_reachable_inv [OF assms] by (auto simp: ctrl_sys_inv_def)
  note ok = pending_act_known [OF ord vb]
  from kstep_ctrl_read_result [where xa = "cs_xa s" and nr = nr and sg = "cs_sig s", OF t
      ctrl_sys_inv_no_none [OF ord vb]]
  show ?thesis
  proof (elim disjE exE conjE)
    fix a t'
    assume "ctrl_pending t = a # ctrl_pending t'"
      "kstep_ctrl_read (cs_xa s) p pid 1 True nr (cs_sig s) =
        Inr (if a = KSTEP_CTRL_PARK then Read_park else Read_act a, (cs_xa s)(pid \<mapsto> t'))"
    then show ?thesis using ok [of a] by auto
  qed auto
qed

theorem read_never_panics_witness:
  "\<exists>s. ctrl_reachable 1 7 s \<and> (\<exists>r xa'. kstep_ctrl_read (cs_xa s) 1 7 1 True False (cs_sig s) = Inr (r, xa') \<and>
    (case r of Read_act a \<Rightarrow> (\<exists>pc. task_main_act a = Inr pc) | _ \<Rightarrow> True))"
  using demo_settled read_never_panics [of 1 7 _ False] by metis

text \<open>
  Progress: a task at its read with no signal pending gets, by its own steps alone, to a point
  where it is settled with everything asked done, or where it sleeps, parks or has exited because
  an action told it to. Nothing asked is left waiting behind an action that does not block.
\<close>

theorem task_drains_queue:
  assumes "ctrl_reachable p pid s" "cs_pc s = At_read" "\<not> cs_sig s"
  shows "\<exists>s'. (task_step p pid)\<^sup>*\<^sup>* s s' \<and> cs_asked s' = cs_asked s \<and>
    (kstep_task_settled (cs_xa s') p pid (cs_sig s') \<or> cs_pc s' \<in> {Parked, Exited} \<union> range Asleep)"
  using ctrl_sys_inv_drains [OF ctrl_reachable_inv [OF assms(1)] assms(2,3)] .

theorem task_drains_queue_witness:
  "\<exists>s. (ctrl_reachable 1 7 s \<and> cs_pc s = At_read \<and> \<not> cs_sig s) \<and>
    (\<exists>s'. (task_step 1 7)\<^sup>*\<^sup>* s s' \<and> cs_asked s' = cs_asked s \<and>
    (kstep_task_settled (cs_xa s') 1 7 (cs_sig s') \<or> cs_pc s' \<in> {Parked, Exited} \<union> range Asleep))"
proof -
  obtain xa' where "kstep_task_add True True 1 7 Map.empty = Inr xa'"
    by (auto simp: kstep_task_add_def kstep_ctrl_put_def kstep_task_zalloc_def)
  note r = ctrl_reachable.start [OF this]
  let ?s = "\<lparr>cs_xa = xa', cs_pc = At_read, cs_sig = False, cs_asked = [], cs_done = []\<rparr>"
  have "cs_pc ?s = At_read" "\<not> cs_sig ?s" by simp_all
  with r task_drains_queue [OF r this] show ?thesis by blast
qed

end
