(* ===== verification/Channel.thy ===== *)
theory Channel
  imports Fifo "HOL-Library.Multiset"
begin

text \<open>
  The channel to the host, kmod/io.c up to the JSON records: the pool of transmit buffers shared
  with the device, and the ring of received bytes the controller reads lines from. The virtqueues
  are the kernel's; what is modelled of them is which buffers the device holds. The device reads a
  transmit buffer's memory when it consumes the buffer, not when the record is queued, so a buffer
  reused too early would corrupt a record in flight.
\<close>

section \<open>Transmit\<close>

abbreviation TX_BUFS :: nat where "TX_BUFS \<equiv> 256"
abbreviation TX_BUF :: nat where "TX_BUF \<equiv> 512"
abbreviation RX_BUFS :: nat where "RX_BUFS \<equiv> 4"
abbreviation RX_BUF :: nat where "RX_BUF \<equiv> 256"

text \<open>
  \<open>tx_free\<close> is the array's first \<open>tx_nfree\<close> entries, top of the stack last; \<open>tx_mem\<close>
  is the memory of each buffer; \<open>tx_vq\<close> holds the buffers (with their lengths) the device has yet
  to consume; \<open>tx_used\<close> those it has consumed and \<open>virtqueue_get_buf\<close> will return.
\<close>

record tx_state =
  tx_free :: "nat list"
  tx_mem :: "nat \<Rightarrow> string"
  tx_vq :: "(nat \<times> nat) list"
  tx_used :: "nat list"

fun tx_reclaim_loop :: "nat list \<Rightarrow> nat list \<Rightarrow> nat list" where
  "tx_reclaim_loop [] free = free"
| "tx_reclaim_loop (buf # used) free = tx_reclaim_loop used (free @ [buf])"

definition tx_reclaim :: "tx_state \<Rightarrow> tx_state" where
  "tx_reclaim s = s\<lparr>tx_free := tx_reclaim_loop (tx_used s) (tx_free s), tx_used := []\<rparr>"

text \<open>The device's interrupt: reclaim under the lock.\<close>

definition tx_done :: "tx_state \<Rightarrow> tx_state" where
  "tx_done s = tx_reclaim s"

text \<open>
  \<open>add_ok\<close>: whether \<open>virtqueue_add_outbuf\<close> took the buffer. The memcpy overwrites the
  buffer's first bytes and leaves the rest.
\<close>

definition kstep_io_write :: "bool \<Rightarrow> string \<Rightarrow> tx_state \<Rightarrow> tx_state outcome" where
  "kstep_io_write add_ok data s =
     (if length data > TX_BUF then Inl ''record of %zu bytes exceeds the channel buffer''
      else let s1 = (if tx_free s = [] then tx_reclaim s else s) in
        if tx_free s1 = [] then Inl ''channel: %d records in flight, the host is not reading''
        else let buf = last (tx_free s1);
                 s2 = s1\<lparr>tx_free := butlast (tx_free s1),
                         tx_mem := (tx_mem s1)(buf := data @ drop (length data) (tx_mem s1 buf))\<rparr> in
          if \<not> add_ok then Inl ''channel: virtqueue_add_outbuf failed''
          else Inr (s2\<lparr>tx_vq := tx_vq s2 @ [(buf, length data)]\<rparr>))"

text \<open>What \<open>chan_probe\<close> sets the pool up to: every buffer free.\<close>

definition chan_tx_init :: "(nat \<Rightarrow> string) \<Rightarrow> tx_state" where
  "chan_tx_init mem = \<lparr>tx_free = [0..<TX_BUFS], tx_mem = mem, tx_vq = [], tx_used = []\<rparr>"

text \<open>
  \<open>chan_probe\<close>, on the pool as it finds it (the module's data is zero: the stack empty).
  \<open>err\<close> is what finding the virtqueues returned, \<open>tx_ok\<close> and \<open>rx_ok\<close> whether the two
  allocations succeeded, \<open>add_ok\<close> whether the device took the receive buffers. The result is
  the return value and the pool.
\<close>

definition chan_probe :: "int \<Rightarrow> bool \<Rightarrow> bool \<Rightarrow> bool \<Rightarrow> tx_state \<Rightarrow> (int \<times> tx_state) outcome" where
  "chan_probe err tx_ok rx_ok add_ok s =
     (if err \<noteq> 0 then Inr (err, s)
      else if \<not> tx_ok \<or> \<not> rx_ok then Inr (- 12, s)
      else if \<not> add_ok then Inl ''channel: virtqueue_add_inbuf failed''
      else Inr (0, s\<lparr>tx_free := tx_free s @ [0..<TX_BUFS]\<rparr>))"

definition kstep_io_init :: "bool \<Rightarrow> bool \<Rightarrow> unit outcome" where
  "kstep_io_init registered probed =
     (if \<not> registered then Inl ''channel: register_virtio_driver failed''
      else if \<not> probed then Inl ''channel: no virtio console device (is CONFIG_VIRTIO_CONSOLE off and virtconsole attached?)''
      else Inr ())"

lemma chan_probe_init:
  assumes "chan_probe err tx_ok rx_ok add_ok \<lparr>tx_free = [], tx_mem = mem, tx_vq = [], tx_used = []\<rparr> = Inr (0, s)"
  shows "s = chan_tx_init mem"
  using assms by (auto simp: chan_probe_def chan_tx_init_def split: if_splits)

lemma tx_reclaim_loop_eq [simp]: "tx_reclaim_loop used free = free @ used"
  by (induction used arbitrary: free) auto

text \<open>
  Every buffer is in exactly one place: free, held by the device, or consumed and not yet
  reclaimed. This is what bounds the stack and keeps a buffer in flight from being reused.
\<close>

definition tx_inv :: "tx_state \<Rightarrow> bool" where
  "tx_inv s \<longleftrightarrow> mset (tx_free s) + mset (map fst (tx_vq s)) + mset (tx_used s) = mset [0..<TX_BUFS]"

definition tx_in_flight :: "tx_state \<Rightarrow> string list" where
  "tx_in_flight s = map (\<lambda>(b, n). take n (tx_mem s b)) (tx_vq s)"

text \<open>The device consumes the oldest buffer: what the host then reads is the buffer's memory.\<close>

record tx_sys =
  ts_tx :: tx_state
  ts_sent :: "string list"
  ts_host :: "string list"

inductive tx_step :: "tx_sys \<Rightarrow> tx_sys \<Rightarrow> bool" where
  send: "kstep_io_write ok data (ts_tx s) = Inr t \<Longrightarrow>
    tx_step s (s\<lparr>ts_tx := t, ts_sent := ts_sent s @ [data]\<rparr>)"
| consume: "tx_vq (ts_tx s) = (b, n) # q \<Longrightarrow>
    tx_step s (s\<lparr>ts_tx := (ts_tx s)\<lparr>tx_vq := q, tx_used := tx_used (ts_tx s) @ [b]\<rparr>,
                 ts_host := ts_host s @ [take n (tx_mem (ts_tx s) b)]\<rparr>)"
| interrupt: "tx_step s (s\<lparr>ts_tx := tx_done (ts_tx s)\<rparr>)"

inductive tx_reachable :: "tx_sys \<Rightarrow> bool" where
  start: "tx_reachable \<lparr>ts_tx = chan_tx_init mem, ts_sent = [], ts_host = []\<rparr>"
| step: "tx_reachable s \<Longrightarrow> tx_step s s' \<Longrightarrow> tx_reachable s'"

definition tx_sys_inv :: "tx_sys \<Rightarrow> bool" where
  "tx_sys_inv s \<longleftrightarrow> tx_inv (ts_tx s) \<and> ts_sent s = ts_host s @ tx_in_flight (ts_tx s)"

lemma tx_reclaim_inv [simp]: "tx_inv (tx_reclaim s) = tx_inv s"
  by (simp add: tx_inv_def tx_reclaim_def ac_simps)

lemma tx_reclaim_in_flight [simp]: "tx_in_flight (tx_reclaim s) = tx_in_flight s"
  "tx_vq (tx_reclaim s) = tx_vq s"
  by (simp_all add: tx_in_flight_def tx_reclaim_def)

lemma tx_inv_disjoint:
  assumes "tx_inv s" "b \<in> set (tx_free s)"
  shows "b \<notin> fst ` set (tx_vq s)"
proof -
  have "distinct (tx_free s @ map fst (tx_vq s) @ tx_used s)"
    using assms(1) mset_eq_imp_distinct_iff [of "tx_free s @ map fst (tx_vq s) @ tx_used s" "[0..<TX_BUFS]"]
    by (simp add: tx_inv_def ac_simps)
  then show ?thesis using assms(2) by auto
qed

lemma tx_inv_length:
  assumes "tx_inv s"
  shows "length (tx_free s) + length (tx_vq s) + length (tx_used s) = TX_BUFS"
  using arg_cong [OF assms [unfolded tx_inv_def], of size] by simp

text \<open>The record as written, on the state a write picks its buffer from.\<close>

lemma kstep_io_write_Inr:
  assumes "kstep_io_write ok data s = Inr t" "tx_inv s"
  shows "tx_inv t \<and> tx_in_flight t = tx_in_flight s @ [data] \<and> length data \<le> TX_BUF"
proof -
  define s1 where "s1 = (if tx_free s = [] then tx_reclaim s else s)"
  define buf where "buf = last (tx_free s1)"
  have i: "tx_inv s1" and fl: "tx_in_flight s1 = tx_in_flight s"
    using assms(2) by (simp_all add: s1_def)
  have ne: "tx_free s1 \<noteq> []" and len: "length data \<le> TX_BUF"
    and t: "t = s1\<lparr>tx_free := butlast (tx_free s1),
      tx_mem := (tx_mem s1)(buf := data @ drop (length data) (tx_mem s1 buf)),
      tx_vq := tx_vq s1 @ [(buf, length data)]\<rparr>"
    using assms(1) by (auto simp: kstep_io_write_def Let_def s1_def [symmetric] buf_def split: if_splits)
  have "mset (tx_free s1) = add_mset buf (mset (butlast (tx_free s1)))"
    using ne by (metis append_butlast_last_id buf_def mset_append union_mset_add_mset_right mset.simps add_0_right)
  then have "tx_inv t" using i by (simp add: t tx_inv_def)
  moreover have "buf \<notin> fst ` set (tx_vq s1)"
    using tx_inv_disjoint [OF i] ne by (simp add: buf_def)
  then have "tx_in_flight t = tx_in_flight s1 @ [data]"
    by (force simp: t tx_in_flight_def split: prod.splits)
  ultimately show ?thesis using fl len by simp
qed

lemma tx_step_inv: "tx_step s s' \<Longrightarrow> tx_sys_inv s \<Longrightarrow> tx_sys_inv s'"
proof (induction rule: tx_step.induct)
  case (send ok data s t)
  then show ?case using kstep_io_write_Inr [OF send.hyps] by (simp add: tx_sys_inv_def)
next
  case (consume s b n q)
  then show ?case by (simp add: tx_sys_inv_def tx_inv_def tx_in_flight_def)
next
  case (interrupt s)
  then show ?case by (simp add: tx_sys_inv_def tx_done_def)
qed

lemma tx_reachable_inv: "tx_reachable s \<Longrightarrow> tx_sys_inv s"
proof (induction rule: tx_reachable.induct)
  case (start mem)
  then show ?case by (simp add: tx_sys_inv_def tx_inv_def chan_tx_init_def tx_in_flight_def)
next
  case (step s s')
  then show ?case by (blast intro: tx_step_inv)
qed

section \<open>Receive\<close>

abbreviation RX_RING :: nat where "RX_RING \<equiv> 4096"

abbreviation newline :: char where "newline \<equiv> CHR 0x0A"

record rx_state =
  rx_ring :: string
  rx_head :: u32
  rx_tail :: u32

definition rx_put :: "char \<Rightarrow> rx_state \<Rightarrow> rx_state outcome" where
  "rx_put c s =
     (if rx_head s - rx_tail s = 4096 then Inl ''channel: input overflow''
      else Inr (s\<lparr>rx_ring := (rx_ring s)[unat (rx_head s) mod RX_RING := c],
                  rx_head := rx_head s + 1\<rparr>))"

text \<open>
  The interrupt: every buffer the device filled, byte by byte, each then given back to the device
  (\<open>rx_post\<close>, which panics when the device refuses it).
\<close>

definition rx_post :: "bool \<Rightarrow> rx_state \<Rightarrow> rx_state outcome" where
  "rx_post add_ok s = (if \<not> add_ok then Inl ''channel: virtqueue_add_inbuf failed'' else Inr s)"

definition rx_done :: "bool \<Rightarrow> string list \<Rightarrow> rx_state \<Rightarrow> rx_state outcome" where
  "rx_done add_ok bufs s =
     fold_outcome (\<lambda>buf s. bind_outcome (fold_outcome rx_put buf s) (rx_post add_ok)) bufs s"

definition rx_inv :: "rx_state \<Rightarrow> bool" where
  "rx_inv s \<longleftrightarrow> length (rx_ring s) = RX_RING \<and> unat (rx_head s - rx_tail s) \<le> RX_RING"

definition rx_bytes :: "rx_state \<Rightarrow> string" where
  "rx_bytes s = ring_list (rx_ring s) (rx_tail s) (rx_head s)"

definition rx_take :: "rx_state \<Rightarrow> (char \<times> rx_state) option" where
  "rx_take s = (if rx_head s = rx_tail s then None
     else Some (rx_ring s ! (unat (rx_tail s) mod RX_RING), s\<lparr>rx_tail := rx_tail s + 1\<rparr>))"

named_theorems rx_defs \<open>the definitions of the receive ring\<close>

declare rx_put_def [rx_defs] rx_inv_def [rx_defs] rx_bytes_def [rx_defs] rx_take_def [rx_defs]

lemma rx_bytes_empty: "rx_bytes s = [] \<longleftrightarrow> rx_head s = rx_tail s"
proof -
  have "length (rx_bytes s) = 0 \<longleftrightarrow> rx_head s - rx_tail s = 0"
    by (simp add: rx_bytes_def unat_eq_zero)
  then show ?thesis by auto
qed

lemma u32_eq_4096: "((w :: u32) = 4096) \<longleftrightarrow> unat w = 4096"
  by (simp add: word_unat_eq_iff)

lemma rx_put_eq:
  assumes "rx_inv s"
  shows "rx_put c s = (if length (rx_bytes s) = RX_RING then Inl ''channel: input overflow''
     else Inr (s\<lparr>rx_ring := (rx_ring s)[unat (rx_head s) mod RX_RING := c],
                 rx_head := rx_head s + 1\<rparr>))"
  by (simp add: rx_put_def rx_bytes_def u32_eq_4096)

interpretation rx: bounded_fifo rx_inv rx_bytes RX_RING rx_put rx_take
proof
  fix q :: rx_state and c :: char and r :: string
  assume i: "rx_inv q"
  then have len: "length (rx_ring q) = RX_RING" by (simp add: rx_inv_def)
  show "length (rx_bytes q) \<le> RX_RING" using i by (simp add: rx_defs)
  show "\<exists>q'. rx_put c q = Inr q' \<and> rx_inv q' \<and> rx_bytes q' = rx_bytes q @ [c]"
    if "length (rx_bytes q) < RX_RING"
  proof -
    let ?q = "q\<lparr>rx_ring := (rx_ring q)[unat (rx_head q) mod RX_RING := c], rx_head := rx_head q + 1\<rparr>"
    have k: "unat (rx_head q - rx_tail q) < RX_RING" using that by (simp add: rx_bytes_def)
    then have "unat (rx_head q + 1 - rx_tail q) \<le> RX_RING"
      using unat_diff_succ_right [of "rx_head q" "rx_tail q"] by simp
    then have "rx_inv ?q" using len by (simp add: rx_inv_def)
    moreover have "rx_bytes ?q = rx_bytes q @ [c]"
      using ring_list_put [of "rx_ring q" "rx_head q" "rx_tail q" c] k len by (simp add: rx_bytes_def)
    ultimately show ?thesis using that rx_put_eq [OF i] by auto
  qed
  show "\<exists>m. rx_put c q = Inl m" if "length (rx_bytes q) = RX_RING"
    using that by (simp add: rx_put_eq [OF i])
  show "rx_take q = None" if "rx_bytes q = []"
    using that by (simp add: rx_take_def rx_bytes_empty)
  show "\<exists>q'. rx_take q = Some (c, q') \<and> rx_inv q' \<and> rx_bytes q' = r" if b: "rx_bytes q = c # r"
  proof -
    have ne: "rx_tail q \<noteq> rx_head q" using b rx_bytes_empty [of q] by auto
    have u: "unat (rx_head q - (rx_tail q + 1)) \<le> RX_RING"
      using unat_diff_succ_left [OF ne] i by (simp add: rx_inv_def)
    show ?thesis
      using b ring_list_take [of "rx_ring q", OF _ ne] len ne u
      by (simp add: rx_take_def rx_bytes_def rx_inv_def)
  qed
qed

text \<open>
  One turn of the loop of \<open>kstep_io_readline\<close> on the byte it took: append it, unless it ends the
  line or the caller's buffer is full.
\<close>

definition readline_byte :: "nat \<Rightarrow> char \<Rightarrow> string \<Rightarrow> string" where
  "readline_byte mx c line =
     (if c \<noteq> newline \<and> length line + 1 < mx then line @ [c] else line)"

lemma rx_take_measure:
  "rx_take s = Some (c, s') \<Longrightarrow> unat (rx_head s' - rx_tail s') < unat (rx_head s - rx_tail s)"
  using unat_diff_succ_left [of "rx_tail s" "rx_head s"] by (auto simp: rx_take_def split: if_splits)

text \<open>
  The loop over the bytes already received. It ends with the line and True, or, where
  \<open>wait_event\<close> would sleep because the ring is empty, with the line so far and False.
\<close>

function readline_loop :: "nat \<Rightarrow> string \<Rightarrow> rx_state \<Rightarrow> string \<times> bool \<times> rx_state" where
  "readline_loop mx line s =
     (case rx_take s of None \<Rightarrow> (line, False, s)
      | Some (c, s') \<Rightarrow>
          if c = newline then (readline_byte mx c line, True, s')
          else readline_loop mx (readline_byte mx c line) s')"
  by pat_completeness auto
termination
  by (relation "measure (\<lambda>(_, _, s). unat (rx_head s - rx_tail s))") (auto dest: rx_take_measure)

declare readline_loop.simps [simp del]

definition kstep_io_readline :: "nat \<Rightarrow> rx_state \<Rightarrow> string \<times> bool \<times> rx_state" where
  "kstep_io_readline mx s = readline_loop mx [] s"

text \<open>What the caller's buffer of \<open>mx\<close> bytes keeps of a line: its terminating 0 takes one.\<close>

definition cut :: "nat \<Rightarrow> string \<Rightarrow> string" where
  "cut mx l = take (mx - 1) l"

lemma cut_Nil [simp]: "cut mx [] = []"
  by (simp add: cut_def)

lemma readline_byte_take:
  "c \<noteq> newline \<Longrightarrow> readline_byte mx c (cut mx l) = cut mx (l @ [c])"
  by (auto simp: readline_byte_def min_def cut_def)

lemma readline_byte_newline [simp]: "readline_byte mx newline l = l"
  by (simp add: readline_byte_def)

lemma readline_loop_line:
  assumes "rx_inv s" "rx_bytes s = l @ newline # rest" "newline \<notin> set l"
  shows "\<exists>s'. readline_loop mx (cut mx pre) s = (cut mx (pre @ l), True, s') \<and>
           rx_inv s' \<and> rx_bytes s' = rest"
  using assms
proof (induction l arbitrary: s pre)
  case Nil
  then obtain s' where "rx_take s = Some (newline, s')" "rx_inv s'" "rx_bytes s' = rest"
    using rx.take_some [of s newline rest] by auto
  then show ?case by (subst readline_loop.simps) simp
next
  case (Cons c l)
  then obtain s' where t: "rx_take s = Some (c, s')" "rx_inv s'" "rx_bytes s' = l @ newline # rest"
    using rx.take_some [of s c "l @ newline # rest"] by auto
  then show ?case using Cons.IH [OF t(2,3), of "pre @ [c]"] Cons.prems(3)
    by (subst readline_loop.simps) (auto simp: readline_byte_take)
qed

lemma readline_loop_blocks:
  assumes "rx_inv s" "newline \<notin> set (rx_bytes s)"
  shows "\<exists>s'. readline_loop mx (cut mx pre) s = (cut mx (pre @ rx_bytes s), False, s') \<and>
           rx_inv s' \<and> rx_bytes s' = []"
  using assms
proof (induction "rx_bytes s" arbitrary: s pre)
  case Nil
  then have "rx_take s = None" using rx.take_none by simp
  then show ?case using Nil by (subst readline_loop.simps) simp
next
  case (Cons c l)
  then obtain s' where t: "rx_take s = Some (c, s')" "rx_inv s'" "rx_bytes s' = l"
    using rx.take_some [of s c l] by auto
  have b: "rx_bytes s = c # l" by (rule Cons.hyps(2) [symmetric])
  have "c \<noteq> newline" "newline \<notin> set (rx_bytes s')" using Cons.prems(2) t(3) by (auto simp: b)
  then show ?case using Cons.hyps(1) [of s' "pre @ [c]"] t
    by (subst readline_loop.simps) (simp add: readline_byte_take b)
qed

section \<open>Bytes arriving while the controller reads\<close>

text \<open>
  The controller reads one byte at a time under the ring's lock and the interrupt adds to the ring
  between any two of them. \<open>ls_recv\<close> is everything received so far, \<open>ls_line\<close> the line being
  read, \<open>ls_out\<close> the lines returned.
\<close>

record line_sys =
  ls_rx :: rx_state
  ls_line :: string
  ls_out :: "string list"
  ls_recv :: string

inductive line_step :: "nat \<Rightarrow> line_sys \<Rightarrow> line_sys \<Rightarrow> bool" for mx where
  arrive: "rx_done ok bufs (ls_rx s) = Inr r \<Longrightarrow>
    line_step mx s (s\<lparr>ls_rx := r, ls_recv := ls_recv s @ concat bufs\<rparr>)"
| byte: "rx_take (ls_rx s) = Some (c, r) \<Longrightarrow> c \<noteq> newline \<Longrightarrow>
    line_step mx s (s\<lparr>ls_rx := r, ls_line := readline_byte mx c (ls_line s)\<rparr>)"
| complete: "rx_take (ls_rx s) = Some (newline, r) \<Longrightarrow>
    line_step mx s (s\<lparr>ls_rx := r, ls_line := [],
      ls_out := ls_out s @ [readline_byte mx newline (ls_line s)]\<rparr>)"

inductive line_reachable :: "nat \<Rightarrow> line_sys \<Rightarrow> bool" for mx where
  start: "length ring = RX_RING \<Longrightarrow> line_reachable mx
    \<lparr>ls_rx = \<lparr>rx_ring = ring, rx_head = h, rx_tail = h\<rparr>, ls_line = [], ls_out = [], ls_recv = []\<rparr>"
| step: "line_reachable mx s \<Longrightarrow> line_step mx s s' \<Longrightarrow> line_reachable mx s'"

text \<open>The complete lines of a stream, and what follows the last newline.\<close>

fun split_lines :: "string \<Rightarrow> string list \<times> string" where
  "split_lines [] = ([], [])"
| "split_lines (c # cs) = (let (ls, r) = split_lines cs in
     if c = newline then ([] # ls, r)
     else case ls of [] \<Rightarrow> ([], c # r) | l # ls' \<Rightarrow> ((c # l) # ls', r))"

lemma split_lines_snoc:
  "split_lines (cs @ [c]) = (let (ls, r) = split_lines cs in
     if c = newline then (ls @ [r], []) else (ls, r @ [c]))"
  by (induction cs) (auto simp: Let_def split: prod.splits list.splits if_splits)

lemma split_lines_no_newline: "newline \<notin> set (snd (split_lines cs))"
  by (induction cs rule: rev_induct) (auto simp: split_lines_snoc Let_def split: prod.splits)

definition line_sys_inv :: "nat \<Rightarrow> line_sys \<Rightarrow> bool" where
  "line_sys_inv mx s \<longleftrightarrow> rx_inv (ls_rx s) \<and>
     (\<exists>done. ls_recv s = done @ rx_bytes (ls_rx s) \<and>
       ls_out s = map (cut mx) (fst (split_lines done)) \<and>
       ls_line s = cut mx (snd (split_lines done)))"

lemma rx_put_all:
  "fold_outcome rx_put bs s = Inr t \<Longrightarrow> rx_inv s \<Longrightarrow> rx_inv t \<and> rx_bytes t = rx_bytes s @ bs"
proof (induction bs arbitrary: s)
  case (Cons b bs)
  then obtain u where "rx_put b s = Inr u" "fold_outcome rx_put bs u = Inr t"
    by (auto simp: bind_outcome_Inr_iff)
  then show ?case using Cons.IH [of u] rx.put_Inr [OF Cons.prems(2)] by auto
qed simp

lemma rx_done_Inr:
  "rx_done ok bufs s = Inr t \<Longrightarrow> rx_inv s \<Longrightarrow> rx_inv t \<and> rx_bytes t = rx_bytes s @ concat bufs"
proof (induction bufs arbitrary: s)
  case (Cons b bufs)
  then obtain u where "fold_outcome rx_put b s = Inr u" "rx_done ok bufs u = Inr t"
    by (auto simp: rx_done_def rx_post_def bind_outcome_Inr_iff split: if_splits)
  then show ?case using Cons.IH [of u] rx_put_all [OF _ Cons.prems(2)] by auto
qed (simp add: rx_done_def)

lemma rx_take_bytes:
  assumes "rx_inv s" "rx_take s = Some (c, s')"
  shows "rx_inv s' \<and> rx_bytes s = c # rx_bytes s'"
  using assms rx.take_none [of s] rx.take_some [of s] by (cases "rx_bytes s") fastforce+

lemma line_step_inv: "line_step mx s s' \<Longrightarrow> line_sys_inv mx s \<Longrightarrow> line_sys_inv mx s'"
proof (induction rule: line_step.induct)
  case (arrive ok bufs s r)
  then show ?case using rx_done_Inr [OF arrive.hyps] by (auto simp: line_sys_inv_def)
next
  case (byte s c r)
  then obtain d where d: "ls_recv s = d @ rx_bytes (ls_rx s)" "rx_inv (ls_rx s)"
      "ls_out s = map (cut mx) (fst (split_lines d))"
      "ls_line s = cut mx (snd (split_lines d))"
    by (auto simp: line_sys_inv_def)
  have r: "rx_inv r" "rx_bytes (ls_rx s) = c # rx_bytes r"
    using rx_take_bytes [OF d(2) byte.hyps(1)] by auto
  show ?case unfolding line_sys_inv_def
    by (intro conjI exI [of _ "d @ [c]"])
      (use d r byte.hyps in \<open>simp_all add: split_lines_snoc readline_byte_take split_beta\<close>)
next
  case (complete s r)
  then obtain d where d: "ls_recv s = d @ rx_bytes (ls_rx s)" "rx_inv (ls_rx s)"
      "ls_out s = map (cut mx) (fst (split_lines d))"
      "ls_line s = cut mx (snd (split_lines d))"
    by (auto simp: line_sys_inv_def)
  have r: "rx_inv r" "rx_bytes (ls_rx s) = newline # rx_bytes r"
    using rx_take_bytes [OF d(2) complete.hyps(1)] by auto
  show ?case unfolding line_sys_inv_def
    by (intro conjI exI [of _ "d @ [newline]"])
      (use d r in \<open>simp_all add: split_lines_snoc split_beta\<close>)
qed

lemma line_reachable_inv: "line_reachable mx s \<Longrightarrow> line_sys_inv mx s"
proof (induction rule: line_reachable.induct)
  case (start ring h)
  then show ?case by (simp add: line_sys_inv_def rx_inv_def rx_bytes_def)
next
  case (step s s')
  then show ?case by (blast intro: line_step_inv)
qed

section \<open>What the channel promises\<close>

lemma kstep_io_write_full:
  assumes "tx_inv s" "length data \<le> TX_BUF"
  shows "(\<exists>m. kstep_io_write True data s = Inl m) \<longleftrightarrow> length (tx_vq s) = TX_BUFS"
proof -
  have "tx_free (if tx_free s = [] then tx_reclaim s else s) = [] \<longleftrightarrow> length (tx_vq s) = TX_BUFS"
    using tx_inv_length [OF assms(1)] by (auto simp: tx_reclaim_def)
  then show ?thesis using assms(2) by (simp add: kstep_io_write_def Let_def)
qed

text \<open>
  C3. In every state the senders, the device and its interrupts can reach, what the host has read
  followed by what is still in flight is exactly what was sent, record by record and in order: no
  buffer is rewritten while the device holds it, and the free stack never outgrows its array.
\<close>

theorem channel_records_intact:
  assumes "tx_reachable s"
  shows "ts_sent s = ts_host s @ tx_in_flight (ts_tx s) \<and> length (tx_free (ts_tx s)) \<le> TX_BUFS"
  using tx_reachable_inv [OF assms] tx_inv_length [of "ts_tx s"] by (auto simp: tx_sys_inv_def)

definition tx_demo :: tx_sys where
  "tx_demo = \<lparr>ts_tx = \<lparr>tx_free = [0..<255], tx_mem = (\<lambda>_. [])(255 := ''ab''), tx_vq = [],
     tx_used = [255]\<rparr>, ts_sent = [''ab''], ts_host = [''ab'']\<rparr>"

lemma upt_256: "[0..<256] = [0..<255] @ [255]"
  using upt_Suc_append [of 0 255] by simp

lemma tx_demo_reachable: "tx_reachable tx_demo"
proof -
  let ?s0 = "\<lparr>ts_tx = chan_tx_init (\<lambda>_. []), ts_sent = [], ts_host = []\<rparr>"
  let ?t = "\<lparr>tx_free = [0..<255], tx_mem = (\<lambda>_. [])(255 := ''ab''), tx_vq = [(255, 2)], tx_used = []\<rparr>"
  have "kstep_io_write True ''ab'' (ts_tx ?s0) = Inr ?t"
    by (simp add: kstep_io_write_def chan_tx_init_def Let_def upt_256 del: upt_rec_numeral)
  from tx_reachable.step [OF tx_reachable.start tx_step.send [OF this]]
  have "tx_reachable (?s0\<lparr>ts_tx := ?t, ts_sent := ts_sent ?s0 @ [''ab'']\<rparr>)" .
  from tx_reachable.step [OF this tx_step.consume [of _ 255 2 "[]"]]
  show ?thesis by (simp add: tx_demo_def del: upt_rec_numeral)
qed

theorem channel_records_intact_witness:
  "tx_reachable tx_demo \<and> ts_sent tx_demo = [''ab''] \<and>
   ts_sent tx_demo = ts_host tx_demo @ tx_in_flight (ts_tx tx_demo)"
  using channel_records_intact [OF tx_demo_reachable] tx_demo_reachable
  by (simp add: tx_demo_def del: upt_rec_numeral)

text \<open>
  A record that fits a buffer is refused (a panic) exactly when all 256 buffers are held by the
  device: a missed interrupt alone never causes it, because a sender that finds the stack empty
  reclaims first.
\<close>

theorem channel_write_panics_iff_full:
  assumes "tx_reachable s" "length data \<le> TX_BUF"
  shows "(\<exists>m. kstep_io_write True data (ts_tx s) = Inl m) \<longleftrightarrow> length (tx_in_flight (ts_tx s)) = TX_BUFS"
  using tx_reachable_inv [OF assms(1)] kstep_io_write_full [OF _ assms(2), of "ts_tx s"]
  by (simp add: tx_sys_inv_def tx_in_flight_def)

theorem channel_write_panics_iff_full_witness:
  "(\<exists>m. kstep_io_write True ''x'' (ts_tx tx_demo) = Inl m) \<longleftrightarrow> length (tx_in_flight (ts_tx tx_demo)) = TX_BUFS"
  by (rule channel_write_panics_iff_full [OF tx_demo_reachable]) simp

text \<open>A line that arrives in two buffers and is read byte by byte.\<close>

lemma line_demo: "\<exists>s. line_reachable 128 s \<and> ls_out s = [''a''] \<and> ls_recv s = ''a'' @ [newline]"
proof -
  define r0 where "r0 = \<lparr>rx_ring = replicate RX_RING CHR ''x'', rx_head = 0, rx_tail = 0\<rparr>"
  have i0: "rx_inv r0" "rx_bytes r0 = []" by (simp_all add: r0_def rx_inv_def rx_bytes_def)
  obtain r1 where r1: "rx_put CHR ''a'' r0 = Inr r1" "rx_inv r1" "rx_bytes r1 = ''a''"
    using rx.put_room [of r0 "CHR ''a''"] i0 by auto
  obtain r2 where r2: "rx_put newline r1 = Inr r2" "rx_inv r2" "rx_bytes r2 = ''a'' @ [newline]"
    using rx.put_room [of r1 newline] r1 by auto
  obtain r3 where r3: "rx_take r2 = Some (CHR ''a'', r3)" "rx_inv r3" "rx_bytes r3 = [newline]"
    using rx.take_some [of r2 "CHR ''a''" "[newline]"] r2 by auto
  obtain r4 where r4: "rx_take r3 = Some (newline, r4)"
    using rx.take_some [of r3 newline "[]"] r3 by auto
  let ?s0 = "\<lparr>ls_rx = r0, ls_line = [], ls_out = [], ls_recv = []\<rparr>"
  have s0: "line_reachable 128 ?s0" unfolding r0_def by (rule line_reachable.start) simp
  have "rx_done True [''a'', [newline]] (ls_rx ?s0) = Inr r2"
    using r1(1) r2(1) by (simp add: rx_done_def rx_post_def)
  note s1 = line_reachable.step [OF s0 line_step.arrive [OF this]]
  have "rx_take (ls_rx (?s0\<lparr>ls_rx := r2, ls_recv := ls_recv ?s0 @ concat [''a'', [newline]]\<rparr>)) =
      Some (CHR ''a'', r3)" using r3(1) by simp
  note s2 = line_reachable.step [OF s1 line_step.byte [OF this]]
  show ?thesis
    using line_reachable.step [OF s2 line_step.complete [of _ r4]] r4
    by (intro exI [of _ "\<lparr>ls_rx = r4, ls_line = [], ls_out = [''a''], ls_recv = ''a'' @ [newline]\<rparr>"])
      (simp add: readline_byte_def)
qed

text \<open>
  However the host's bytes are cut into buffers and wherever the interrupt falls between two
  bytes of a read, the lines the controller has been given are the complete lines of the stream so
  far, in order, each cut to the caller's buffer; those not yet given are still in the ring, and once
  the ring is drained every complete line has been given.
\<close>

theorem lines_of_the_stream:
  assumes "line_reachable mx s"
  shows "\<exists>seen. ls_recv s = seen @ rx_bytes (ls_rx s) \<and>
     ls_out s = map (cut mx) (fst (split_lines seen)) \<and>
     ls_line s = cut mx (snd (split_lines seen)) \<and> length (rx_bytes (ls_rx s)) \<le> RX_RING"
  using line_reachable_inv [OF assms] rx.content_bounded [of "ls_rx s"]
  by (auto simp: line_sys_inv_def)

theorem lines_of_the_stream_witness:
  "\<exists>s seen. line_reachable 128 s \<and> ls_out s = [''a''] \<and> ls_recv s = ''a'' @ [newline] \<and>
     ls_recv s = seen @ rx_bytes (ls_rx s) \<and> ls_out s = map (cut 128) (fst (split_lines seen))"
proof -
  obtain s where "line_reachable 128 s" "ls_out s = [''a'']" "ls_recv s = ''a'' @ [newline]"
    using line_demo by blast
  with lines_of_the_stream [of 128 s] show ?thesis by metis
qed

text \<open>
  When the ring holds a complete line, a read returns: the line without its newline, cut to one
  byte less than the caller's buffer, and leaves in the ring exactly what follows the newline.
\<close>

theorem readline_returns_the_line:
  assumes "rx_inv s" "rx_bytes s = l @ newline # rest" "newline \<notin> set l"
  shows "\<exists>s'. kstep_io_readline mx s = (take (mx - 1) l, True, s') \<and> rx_inv s' \<and> rx_bytes s' = rest"
  using readline_loop_line [OF assms, of mx "[]"] by (simp add: kstep_io_readline_def cut_def)

theorem readline_returns_the_line_witness:
  "\<exists>s s'. rx_bytes s = ''t'' @ [newline] \<and> kstep_io_readline 128 s = (take (128 - 1) ''t'', True, s') \<and> rx_bytes s' = []"
proof -
  let ?s = "\<lparr>rx_ring = (replicate RX_RING CHR ''a'')[4095 := CHR ''t'', 0 := newline],
    rx_head = 1, rx_tail = 4294967295\<rparr>"
  have b: "rx_bytes ?s = ''t'' @ newline # []" by (simp add: rx_bytes_def ring_list_def upt_rec)
  have i: "rx_inv ?s" by (simp add: rx_inv_def)
  have "\<exists>s'. kstep_io_readline 128 ?s = (take (128 - 1) ''t'', True, s') \<and> rx_inv s' \<and> rx_bytes s' = []"
    by (rule readline_returns_the_line [OF i b]) simp
  then show ?thesis using b by blast
qed

end
