(* ===== verification/Json.thy ===== *)
theory Json
  imports Channel
begin

text \<open>
  The JSON records of kmod/io.c: the writer over a fixed buffer, the records kSTEP sends, and how
  they travel on the channel. A record is built in a buffer of 504 bytes; every append checks the
  room left, so a record is at most 503 bytes. Values formatted by \<^verbatim>\<open>vsnprintf\<close>
  are passed formatted.
\<close>

section \<open>Numbers as text\<close>

definition digit :: "nat \<Rightarrow> char" where
  "digit n = char_of (48 + n)"

fun dec :: "nat \<Rightarrow> string" where
  "dec n = (if n < 10 then [digit n] else dec (n div 10) @ [digit (n mod 10)])"

declare dec.simps [simp del]

definition sdec :: "int \<Rightarrow> string" where
  "sdec i = (if i < 0 then CHR ''-'' # dec (nat (- i)) else dec (nat i))"

text \<open>What a reader makes of the digits.\<close>

definition undec :: "string \<Rightarrow> nat" where
  "undec s = fold (\<lambda>c n. 10 * n + (of_char c - 48)) s 0"

lemma of_char_digit: "n < 10 \<Longrightarrow> of_char (digit n) = (48 + n :: nat)"
  by (simp add: digit_def of_char_of)

lemma undec_dec [simp]: "undec (dec n) = n"
proof (induction n rule: dec.induct)
  case (1 n)
  then show ?case
    by (subst dec.simps) (auto simp: undec_def of_char_digit)
qed

lemma dec_inject [simp]: "dec m = dec n \<longleftrightarrow> m = n"
  by (metis undec_dec)

lemma length_dec: "0 < k \<Longrightarrow> n < 10 ^ k \<Longrightarrow> length (dec n) \<le> k"
proof (induction n arbitrary: k rule: dec.induct)
  case (1 n)
  show ?case
  proof (cases "n < 10")
    case True
    then show ?thesis using 1 by (subst dec.simps) simp
  next
    case False
    with 1 have k: "1 < k" by (cases "k = 1") auto
    then have "n div 10 < 10 ^ (k - 1)"
      using 1(3) by (cases k) (auto simp: less_mult_imp_div_less mult.commute)
    then show ?thesis using 1(1) [OF False, of "k - 1"] k by (subst dec.simps) auto
  qed
qed

lemma set_dec: "set (dec n) \<subseteq> digit ` {0..<10}"
proof (induction n rule: dec.induct)
  case (1 n)
  then show ?case by (subst dec.simps) auto
qed

lemma digit_neq_newline: "n < 10 \<Longrightarrow> digit n \<noteq> newline"
  using of_char_digit [of n] by auto

lemma dec_no_newline [simp]: "newline \<notin> set (dec n)"
  using set_dec [of n] digit_neq_newline by fastforce

lemma sdec_no_newline [simp]: "newline \<notin> set (sdec i)"
  by (simp add: sdec_def)

text \<open>Hexadecimal digits, as \<^verbatim>\<open>%x\<close> prints them.\<close>

fun hex_digits :: "nat \<Rightarrow> string" where
  "hex_digits n = (if n < 16 then [''0123456789abcdef'' ! n] else hex_digits (n div 16) @ [''0123456789abcdef'' ! (n mod 16)])"

declare hex_digits.simps [simp del]

definition unhex :: "string \<Rightarrow> nat" where
  "unhex s = fold (\<lambda>c n. 16 * n + (if of_char c < (58 :: nat) then of_char c - 48 else of_char c - 87)) s 0"

lemma hex_digit: "n < 16 \<Longrightarrow> (''0123456789abcdef'' ! n = char_of (if n < 10 then 48 + n else 87 + n))"
proof -
  assume "n < 16"
  then have "n \<in> set [0..<16]" by simp
  moreover have "list_all (\<lambda>n. ''0123456789abcdef'' ! n = char_of (if n < 10 then 48 + n else 87 + n)) [0..<16]" by code_simp
  ultimately show ?thesis unfolding list_all_iff by blast
qed

lemma unhex_hex [simp]: "unhex (hex_digits n) = n"
proof (induction n rule: hex_digits.induct)
  case (1 n)
  then show ?case by (subst hex_digits.simps) (auto simp: unhex_def hex_digit of_char_of)
qed

lemma hex_inject [simp]: "hex_digits m = hex_digits n \<longleftrightarrow> m = n"
  by (metis unhex_hex)

lemma set_hex: "set (hex_digits n) \<subseteq> set ''0123456789abcdef''"
proof (induction n rule: hex_digits.induct)
  case (1 n)
  have "''0123456789abcdef'' ! k \<in> set ''0123456789abcdef''" if "k < 16" for k using that by (intro nth_mem) simp
  then show ?case using 1 by (subst hex_digits.simps) auto
qed

lemma hex_nonempty [simp]: "hex_digits n \<noteq> []"
  by (subst hex_digits.simps) simp

lemma length_hex: "0 < k \<Longrightarrow> n < 16 ^ k \<Longrightarrow> length (hex_digits n) \<le> k"
proof (induction n arbitrary: k rule: hex_digits.induct)
  case (1 n)
  show ?case
  proof (cases "n < 16")
    case True
    then show ?thesis using 1 by (subst hex_digits.simps) simp
  next
    case False
    with 1 have k: "1 < k" by (cases "k = 1") auto
    then have "n div 16 < 16 ^ (k - 1)"
      using 1(3) by (cases k) (auto simp: less_mult_imp_div_less mult.commute)
    then show ?thesis using 1(1) [OF False, of "k - 1"] k by (subst hex_digits.simps) auto
  qed
qed

section \<open>The writer\<close>

abbreviation JSON_BUF :: nat where "JSON_BUF \<equiv> 504"

text \<open>\<^verbatim>\<open>struct kstep_json\<close>: the first \<open>len\<close> bytes of its buffer.\<close>

type_synonym kstep_json = string

abbreviation quote :: char where "quote \<equiv> CHR 0x22"

definition kstep_json_append_char :: "char \<Rightarrow> kstep_json \<Rightarrow> kstep_json outcome" where
  "kstep_json_append_char c json =
     (if length json + 1 \<ge> JSON_BUF then Inl ''json buffer overflow'' else Inr (json @ [c]))"

definition kstep_json_append_buf :: "string \<Rightarrow> kstep_json \<Rightarrow> kstep_json outcome" where
  "kstep_json_append_buf buf json =
     (if length json + length buf \<ge> JSON_BUF then Inl ''json buffer overflow'' else Inr (json @ buf))"

definition kstep_json_append_str :: "string \<Rightarrow> kstep_json \<Rightarrow> kstep_json outcome" where
  "kstep_json_append_str str json =
     bind_outcome (kstep_json_append_char quote json) (\<lambda>json.
     bind_outcome (kstep_json_append_buf str json) (\<lambda>json.
     kstep_json_append_char quote json))"

definition kstep_json_field_vfmt :: "string \<Rightarrow> string \<Rightarrow> kstep_json \<Rightarrow> kstep_json outcome" where
  "kstep_json_field_vfmt key val json =
     bind_outcome (kstep_json_append_str key json) (\<lambda>json.
     bind_outcome (kstep_json_append_char CHR '':'' json) (\<lambda>json.
     if length val \<ge> JSON_BUF - length json then Inl ''json formatting failed''
     else kstep_json_append_char CHR '','' (json @ val)))"

definition kstep_json_field_fmt :: "string \<Rightarrow> string \<Rightarrow> kstep_json \<Rightarrow> kstep_json outcome" where
  "kstep_json_field_fmt key val json = kstep_json_field_vfmt key val json"

definition kstep_json_field_str :: "string \<Rightarrow> string \<Rightarrow> kstep_json \<Rightarrow> kstep_json outcome" where
  "kstep_json_field_str key val json =
     bind_outcome (kstep_json_append_str key json) (\<lambda>json.
     bind_outcome (kstep_json_append_char CHR '':'' json) (\<lambda>json.
     bind_outcome (kstep_json_append_str val json) (\<lambda>json.
     kstep_json_append_char CHR '','' json)))"

definition kstep_json_field_u64 :: "string \<Rightarrow> u64 \<Rightarrow> kstep_json \<Rightarrow> kstep_json outcome" where
  "kstep_json_field_u64 key val json = kstep_json_field_fmt key (dec (unat val)) json"

definition kstep_json_field_s64 :: "string \<Rightarrow> u64 \<Rightarrow> kstep_json \<Rightarrow> kstep_json outcome" where
  "kstep_json_field_s64 key val json = kstep_json_field_fmt key (sdec (sint val)) json"

definition kstep_json_field_bool :: "string \<Rightarrow> bool \<Rightarrow> kstep_json \<Rightarrow> kstep_json outcome" where
  "kstep_json_field_bool key val json =
     kstep_json_field_fmt key (if val then ''true'' else ''false'') json"

text \<open>\<open>now\<close> is \<open>kstep_jiffies_get()\<close>.\<close>

definition kstep_json_begin :: "u64 \<Rightarrow> kstep_json outcome" where
  "kstep_json_begin now =
     bind_outcome (kstep_json_append_char CHR ''{'' []) (kstep_json_field_u64 ''timestamp'' now)"

text \<open>\<open>kstep_json_end\<close> up to the write, and with the write on the channel.\<close>

definition kstep_json_close :: "kstep_json \<Rightarrow> kstep_json outcome" where
  "kstep_json_close json =
     bind_outcome (kstep_json_append_char CHR ''}''
       (if json \<noteq> [] \<and> last json = CHR '','' then butlast json else json))
       (kstep_json_append_char newline)"

definition kstep_json_end :: "bool \<Rightarrow> kstep_json \<Rightarrow> tx_state \<Rightarrow> tx_state outcome" where
  "kstep_json_end add_ok json tx =
     bind_outcome (kstep_json_close json) (\<lambda>json. kstep_io_write add_ok json tx)"

section \<open>What a step of the writer does\<close>

text \<open>
  Every step of the writer appends a fixed text, and panics exactly when the buffer would hold more
  than 503 bytes after it. The steps compose, so a whole record is one step.
\<close>

definition appends :: "(kstep_json \<Rightarrow> kstep_json outcome) \<Rightarrow> string \<Rightarrow> bool" where
  "appends f r \<longleftrightarrow> (\<forall>json json'. f json = Inr json' \<longleftrightarrow> length json + length r < JSON_BUF \<and> json' = json @ r)"

named_theorems appends_intros \<open>the text each step of the JSON writer appends\<close>

lemma appends_bind:
  assumes "appends f r" "appends g s"
  shows "appends (\<lambda>json. bind_outcome (f json) g) (r @ s)"
  using assms by (auto simp: appends_def bind_outcome_Inr_iff)

lemma appends_char [appends_intros]: "appends (kstep_json_append_char c) [c]"
  by (auto simp: appends_def kstep_json_append_char_def)

lemma appends_buf [appends_intros]: "appends (kstep_json_append_buf s) s"
  by (auto simp: appends_def kstep_json_append_buf_def)

lemma appends_fold:
  assumes "\<And>x. x \<in> set xs \<Longrightarrow> appends (f x) (r x)"
  shows "appends (\<lambda>json. if length json < JSON_BUF then fold_outcome f xs json else Inl e) (concat (map r xs))"
  using assms
proof (induction xs)
  case (Cons x xs)
  then have a: "appends (f x) (r x)"
    and b: "appends (\<lambda>json. if length json < JSON_BUF then fold_outcome f xs json else Inl e) (concat (map r xs))"
    by simp_all
  show ?case unfolding appends_def
  proof (intro allI)
    fix json json'
    have "fold_outcome f (x # xs) json = Inr json' \<longleftrightarrow>
        length json + length (r x) < JSON_BUF \<and> fold_outcome f xs (json @ r x) = Inr json'"
      using a by (auto simp: appends_def bind_outcome_Inr_iff)
    moreover have "length json + length (r x) < JSON_BUF \<Longrightarrow>
        fold_outcome f xs (json @ r x) = Inr json' \<longleftrightarrow>
        length (json @ r x) + length (concat (map r xs)) < JSON_BUF \<and> json' = (json @ r x) @ concat (map r xs)"
      using b [unfolded appends_def, rule_format, of "json @ r x" json'] by simp
    ultimately show "((if length json < JSON_BUF then fold_outcome f (x # xs) json else Inl e) = Inr json') =
       (length json + length (concat (map r (x # xs))) < JSON_BUF \<and> json' = json @ concat (map r (x # xs)))"
      by auto
  qed
qed (auto simp: appends_def)

definition quoted :: "string \<Rightarrow> string" where
  "quoted s = quote # s @ [quote]"

definition field_text :: "string \<Rightarrow> string \<Rightarrow> string" where
  "field_text key val = quoted key @ '':'' @ val @ '',''"

lemma appends_str [appends_intros]: "appends (kstep_json_append_str s) (quoted s)"
  using appends_bind [OF appends_char [of quote] appends_bind [OF appends_buf [of s] appends_char [of quote]]]
  by (simp add: kstep_json_append_str_def [abs_def] quoted_def)

lemma appends_val:
  "appends (\<lambda>json. if length v \<ge> JSON_BUF - length json then Inl e
     else kstep_json_append_char CHR '','' (json @ v)) (v @ '','')"
  by (auto simp: appends_def kstep_json_append_char_def)

lemma appends_vfmt [appends_intros]: "appends (kstep_json_field_vfmt key v) (field_text key v)"
  using appends_bind [OF appends_str [of key] appends_bind [OF appends_char [of "CHR '':''"] appends_val [of v]]]
  by (simp add: kstep_json_field_vfmt_def [abs_def] field_text_def)

lemma appends_field_str [appends_intros]: "appends (kstep_json_field_str key v) (field_text key (quoted v))"
  using appends_bind [OF appends_str [of key] appends_bind [OF appends_char [of "CHR '':''"]
        appends_bind [OF appends_str [of v] appends_char [of "CHR '',''"]]]]
  by (simp add: kstep_json_field_str_def [abs_def] field_text_def)

lemma appends_field_fmt [appends_intros]: "appends (kstep_json_field_fmt key v) (field_text key v)"
  using appends_vfmt by (simp add: kstep_json_field_fmt_def [abs_def])

lemma appends_field_u64 [appends_intros]: "appends (kstep_json_field_u64 key v) (field_text key (dec (unat v)))"
  using appends_field_fmt by (simp add: kstep_json_field_u64_def [abs_def])

lemma appends_field_s64 [appends_intros]: "appends (kstep_json_field_s64 key v) (field_text key (sdec (sint v)))"
  using appends_field_fmt by (simp add: kstep_json_field_s64_def [abs_def])

lemma appends_field_bool [appends_intros]:
  "appends (kstep_json_field_bool key v) (field_text key (if v then ''true'' else ''false''))"
  using appends_field_fmt by (simp add: kstep_json_field_bool_def [abs_def])

section \<open>A whole record\<close>

fun fields_text :: "(string \<times> string) list \<Rightarrow> string" where
  "fields_text [] = []"
| "fields_text [(k, v)] = quoted k @ '':'' @ v"
| "fields_text ((k, v) # f # fs) = quoted k @ '':'' @ v @ '','' @ fields_text (f # fs)"

definition record_text :: "u64 \<Rightarrow> (string \<times> string) list \<Rightarrow> string" where
  "record_text now fs = ''{'' @ fields_text ((''timestamp'', dec (unat now)) # fs) @ ''}''"

abbreviation commas :: "(string \<times> string) list \<Rightarrow> string" where
  "commas fs \<equiv> concat (map (\<lambda>(k, v). field_text k v) fs)"

lemma commas_fields_text: "fs \<noteq> [] \<Longrightarrow> commas fs = fields_text fs @ '',''"
  by (induction fs rule: fields_text.induct) (simp_all add: field_text_def)

lemma kstep_json_begin_Inr [outcome_simps]:
  "kstep_json_begin now = Inr json \<longleftrightarrow> json = ''{'' @ field_text ''timestamp'' (dec (unat now))"
proof -
  have "unat now < 10 ^ 20" using unsigned_less [of now, where ?'a = nat] by simp
  then have "length (dec (unat now)) \<le> 20" by (intro length_dec) simp_all
  then show ?thesis
    using appends_field_u64 [of "''timestamp''" now]
    by (auto simp: kstep_json_begin_def kstep_json_append_char_def appends_def field_text_def quoted_def)
qed

lemma kstep_json_close_Inr:
  "kstep_json_close (json @ '','') = Inr r \<longleftrightarrow> r = json @ ''}'' @ [newline] \<and> length r < JSON_BUF"
  by (auto simp: kstep_json_close_def kstep_json_append_char_def bind_outcome_Inr_iff)

text \<open>
  A record is the opening, a body that appends some fields, and the closing. It exists exactly
  when it fits, and then it is the fields between braces, comma-separated, and a newline.
\<close>

definition json_record :: "u64 \<Rightarrow> (kstep_json \<Rightarrow> kstep_json outcome) \<Rightarrow> kstep_json outcome" where
  "json_record now body =
     bind_outcome (kstep_json_begin now) (\<lambda>json. bind_outcome (body json) kstep_json_close)"

lemma json_record_Inr:
  assumes "appends body (commas fs)"
  shows "json_record now body = Inr r \<longleftrightarrow> r = record_text now fs @ [newline] \<and> length r < JSON_BUF"
proof -
  let ?fs = "(''timestamp'', dec (unat now)) # fs"
  let ?json = "''{'' @ field_text ''timestamp'' (dec (unat now))"
  have j: "?json @ commas fs = (''{'' @ fields_text ?fs) @ '',''"
    using commas_fields_text [of ?fs] by simp
  have "json_record now body = Inr r \<longleftrightarrow>
      length (?json @ commas fs) < JSON_BUF \<and> kstep_json_close (?json @ commas fs) = Inr r"
    using assms by (auto simp: json_record_def bind_outcome_Inr_iff kstep_json_begin_Inr appends_def)
  also have "\<dots> \<longleftrightarrow> r = record_text now fs @ [newline] \<and> length r < JSON_BUF"
    unfolding j kstep_json_close_Inr by (auto simp: record_text_def)
  finally show ?thesis .
qed

section \<open>The records kSTEP sends\<close>

text \<open>
  Each function builds its record and writes it; \<open>ok\<close> is whether the device took the buffer. The
  values of the machine are arguments: a CPU's current pid, its queue length, a domain's span as the
  kernel prints it and its name.
\<close>

definition send_record :: "u64 \<Rightarrow> bool \<Rightarrow> (kstep_json \<Rightarrow> kstep_json outcome) \<Rightarrow> tx_state \<Rightarrow> tx_state outcome" where
  "send_record now ok body tx =
     bind_outcome (kstep_json_begin now) (\<lambda>json.
     bind_outcome (body json) (\<lambda>json. kstep_json_end ok json tx))"

lemma send_record_eq:
  "send_record now ok body tx = bind_outcome (json_record now body) (\<lambda>r. kstep_io_write ok r tx)"
  by (simp add: send_record_def json_record_def kstep_json_end_def bind_outcome_assoc)

definition kstep_json_print_2kv :: "u64 \<Rightarrow> bool \<Rightarrow> string \<Rightarrow> string \<Rightarrow> string \<Rightarrow> string \<Rightarrow> tx_state \<Rightarrow> tx_state outcome" where
  "kstep_json_print_2kv now ok key1 val1 key2 val2 = send_record now ok (\<lambda>json.
     bind_outcome (kstep_json_field_str key1 val1 json) (kstep_json_field_vfmt key2 val2))"

definition kstep_pass :: "u64 \<Rightarrow> bool \<Rightarrow> string \<Rightarrow> tx_state \<Rightarrow> tx_state outcome" where
  "kstep_pass now ok msg = kstep_json_print_2kv now ok ''status'' ''pass'' ''message'' (quote # msg @ [quote])"

definition kstep_fail :: "u64 \<Rightarrow> bool \<Rightarrow> string \<Rightarrow> tx_state \<Rightarrow> tx_state outcome" where
  "kstep_fail now ok msg = kstep_json_print_2kv now ok ''status'' ''fail'' ''message'' (quote # msg @ [quote])"

definition test_cpus :: "nat \<Rightarrow> nat list" where
  "test_cpus ncpus = [1..<ncpus + 1]"

definition kstep_output_curr_task :: "u64 \<Rightarrow> bool \<Rightarrow> nat \<Rightarrow> (nat \<Rightarrow> u64) \<Rightarrow> tx_state \<Rightarrow> tx_state outcome" where
  "kstep_output_curr_task now ok ncpus curr_pid = fold_outcome (\<lambda>cpu. send_record now ok (\<lambda>json.
     bind_outcome (kstep_json_field_str ''type'' ''curr_task'' json) (\<lambda>json.
     bind_outcome (kstep_json_field_u64 ''cpu'' (of_nat cpu) json)
       (kstep_json_field_u64 ''pid'' (curr_pid cpu))))) (test_cpus ncpus)"

text \<open>The key is formatted into 8 bytes.\<close>

definition cpu_key :: "nat \<Rightarrow> string" where
  "cpu_key cpu = take 7 (''cpu'' @ dec cpu)"

definition kstep_output_nr_running :: "u64 \<Rightarrow> bool \<Rightarrow> nat \<Rightarrow> (nat \<Rightarrow> u32) \<Rightarrow> tx_state \<Rightarrow> tx_state outcome" where
  "kstep_output_nr_running now ok ncpus nr_running = send_record now ok (\<lambda>json.
     bind_outcome (kstep_json_field_str ''type'' ''nr_running'' json)
       (fold_outcome (\<lambda>cpu. kstep_json_field_u64 (cpu_key cpu) (ucast (nr_running cpu))) (test_cpus ncpus)))"

definition kstep_output_migrate :: "u64 \<Rightarrow> bool \<Rightarrow> u32 \<Rightarrow> int \<Rightarrow> int \<Rightarrow> tx_state \<Rightarrow> tx_state outcome" where
  "kstep_output_migrate now ok task src_cpu dst_cpu = send_record now ok (\<lambda>json.
     bind_outcome (kstep_json_field_str ''type'' ''migrate'' json) (\<lambda>json.
     bind_outcome (kstep_json_field_u64 ''task'' (ucast task) json) (\<lambda>json.
     bind_outcome (kstep_json_field_u64 ''src_cpu'' (of_int src_cpu) json)
       (kstep_json_field_u64 ''dst_cpu'' (of_int dst_cpu)))))"

definition kstep_output_balance :: "u64 \<Rightarrow> bool \<Rightarrow> int \<Rightarrow> string \<Rightarrow> string \<Rightarrow> tx_state \<Rightarrow> tx_state outcome" where
  "kstep_output_balance now ok cpu span name = send_record now ok (\<lambda>json.
     bind_outcome (kstep_json_field_str ''type'' ''load_balance'' json) (\<lambda>json.
     bind_outcome (kstep_json_field_u64 ''dst_cpu'' (of_int cpu) json) (\<lambda>json.
     bind_outcome (kstep_json_field_fmt ''span'' (quote # span @ [quote]) json)
       (kstep_json_field_str ''name'' name))))"

text \<open>A rule's finding (checkers/checker.c): the rule's message is formatted into the record.\<close>

definition kstep_warn :: "u64 \<Rightarrow> bool \<Rightarrow> string \<Rightarrow> string \<Rightarrow> tx_state \<Rightarrow> tx_state outcome" where
  "kstep_warn now ok check msg = send_record now ok (\<lambda>json.
     bind_outcome (kstep_json_field_str ''type'' ''warn'' json) (\<lambda>json.
     bind_outcome (kstep_json_field_str ''check'' check json)
       (kstep_json_field_fmt ''message'' (quote # msg @ [quote]))))"

section \<open>What the records promise\<close>

lemma send_record_iff:
  assumes "tx_reachable s" "appends body (commas fs)"
  shows "(\<exists>t. send_record now True body (ts_tx s) = Inr t) \<longleftrightarrow>
    length (record_text now fs) < JSON_BUF - 1 \<and> length (tx_in_flight (ts_tx s)) < TX_BUFS"
proof -
  have i: "tx_inv (ts_tx s)" using tx_reachable_inv [OF assms(1)] by (simp add: tx_sys_inv_def)
  have fl: "length (tx_in_flight (ts_tx s)) \<le> TX_BUFS"
    using tx_inv_length [OF i] by (simp add: tx_in_flight_def)
  have w: "(\<exists>t. kstep_io_write True r (ts_tx s) = Inr t) \<longleftrightarrow> length (tx_in_flight (ts_tx s)) < TX_BUFS"
    if "length r < JSON_BUF" for r
    using kstep_io_write_full [OF i, of r] that fl
    by (cases "kstep_io_write True r (ts_tx s)") (auto simp: tx_in_flight_def)
  have "(\<exists>t. send_record now True body (ts_tx s) = Inr t) \<longleftrightarrow>
      (\<exists>r. json_record now body = Inr r \<and> (\<exists>t. kstep_io_write True r (ts_tx s) = Inr t))"
    by (auto simp: send_record_eq bind_outcome_Inr_iff)
  also have "\<dots> \<longleftrightarrow> length (record_text now fs) < JSON_BUF - 1 \<and> length (tx_in_flight (ts_tx s)) < TX_BUFS"
    using w [of "record_text now fs @ [newline]"] by (auto simp: json_record_Inr [OF assms(2)])
  finally show ?thesis .
qed

lemma appends_fields3:
  assumes "appends f (field_text k v)" "appends g (field_text k' v')" "appends h (field_text k'' v'')"
  shows "appends (\<lambda>j. bind_outcome (f j) (\<lambda>j. bind_outcome (g j) h)) (commas [(k, v), (k', v'), (k'', v'')])"
  using appends_bind [OF assms(1) appends_bind [OF assms(2,3)]] by simp

lemma appends_fields4:
  assumes "appends f (field_text k v)" "appends g (field_text k' v')" "appends h (field_text k'' v'')"
    "appends i (field_text k3 v3)"
  shows "appends (\<lambda>j. bind_outcome (f j) (\<lambda>j. bind_outcome (g j) (\<lambda>j. bind_outcome (h j) i)))
    (commas [(k, v), (k', v'), (k'', v''), (k3, v3)])"
  using appends_bind [OF assms(1) appends_bind [OF assms(2) appends_bind [OF assms(3,4)]]] by simp

lemma length_dec_u64: "length (dec (unat (w :: u64))) \<le> 20"
proof -
  have "unat w < 10 ^ 20" using unsigned_less [of w, where ?'a = nat] by simp
  then show ?thesis by (intro length_dec) simp_all
qed

definition migrate_fields :: "u32 \<Rightarrow> int \<Rightarrow> int \<Rightarrow> (string \<times> string) list" where
  "migrate_fields task src dst = [(''type'', quoted ''migrate''), (''task'', dec (unat (ucast task :: u64))),
     (''src_cpu'', dec (unat (of_int src :: u64))), (''dst_cpu'', dec (unat (of_int dst :: u64)))]"

text \<open>
  A migration is always reported: whatever the task number, the CPUs and the time, its record
  fits the buffer, so from any state the channel can reach the report fails only when the host is
  256 records behind.
\<close>

theorem migrate_record_always_fits:
  assumes "tx_reachable s"
  shows "(\<exists>t. kstep_output_migrate now True task src dst (ts_tx s) = Inr t) \<longleftrightarrow>
    length (tx_in_flight (ts_tx s)) < TX_BUFS"
proof -
  note a = appends_fields4 [OF appends_field_str appends_field_u64 appends_field_u64 appends_field_u64]
  have "length (record_text now (migrate_fields task src dst)) < JSON_BUF - 1"
    using length_dec_u64 [of now] length_dec_u64 [of "ucast task"] length_dec_u64 [of "of_int src"]
      length_dec_u64 [of "of_int dst"]
    by (simp add: record_text_def migrate_fields_def quoted_def)
  then show ?thesis
    using send_record_iff [OF assms a] by (simp add: kstep_output_migrate_def migrate_fields_def)
qed

theorem migrate_record_always_fits_witness:
  "(\<exists>t. kstep_output_migrate 7 True 1 2 3 (ts_tx tx_demo) = Inr t) \<longleftrightarrow>
    length (tx_in_flight (ts_tx tx_demo)) < TX_BUFS"
  by (rule migrate_record_always_fits [OF tx_demo_reachable])

lemma length_concat_le: "(\<And>x. x \<in> set xs \<Longrightarrow> length x \<le> b) \<Longrightarrow> length (concat xs) \<le> b * length xs"
  by (induction xs) (auto simp: add_mono)

definition nr_running_fields :: "nat \<Rightarrow> (nat \<Rightarrow> u32) \<Rightarrow> (string \<times> string) list" where
  "nr_running_fields ncpus nr =
     map (\<lambda>cpu. (cpu_key cpu, dec (unat (ucast (nr cpu) :: u64)))) (test_cpus ncpus)"

lemma length_fields_text: "length (fields_text fs) = length (commas fs) - 1"
  by (cases "fs = []") (simp_all add: commas_fields_text)

lemma nr_running_commas:
  assumes "\<And>cpu. unat (nr cpu) < 10 ^ 5" "ncpus < 32"
  shows "length (commas (nr_running_fields ncpus nr)) \<le> 14 * 31"
proof -
  have d: "length (dec (unat (ucast (nr cpu) :: u64))) \<le> 5" for cpu
    using le_less_trans [OF take_bit_nat_less_eq_self assms(1) [of cpu], of 64]
    by (intro length_dec) (simp_all add: unsigned_ucast_eq)
  have k: "length (cpu_key cpu) \<le> 5" if "cpu < 100" for cpu
    using length_dec [of 2 cpu] that by (simp add: cpu_key_def)
  have "length (field_text (cpu_key cpu) (dec (unat (ucast (nr cpu) :: u64)))) \<le> 14"
    if "cpu \<in> set (test_cpus ncpus)" for cpu
  proof -
    have "cpu < 100" using that assms(2) by (auto simp: test_cpus_def)
    then show ?thesis using k [of cpu] d [of cpu] by (simp add: field_text_def quoted_def)
  qed
  then have "length (commas (nr_running_fields ncpus nr)) \<le> 14 * length (nr_running_fields ncpus nr)"
    using length_concat_le [of "map (\<lambda>(k, v). field_text k v) (nr_running_fields ncpus nr)" 14]
    by (auto simp: nr_running_fields_def)
  also have "\<dots> \<le> 14 * 31" using assms(2) by (simp add: nr_running_fields_def test_cpus_def)
  finally show ?thesis .
qed

lemma appends_bind_fold:
  assumes "appends f r" "\<And>x. x \<in> set xs \<Longrightarrow> appends (g x) (t x)"
  shows "appends (\<lambda>json. bind_outcome (f json) (fold_outcome g xs)) (r @ concat (map t xs))"
proof -
  have "bind_outcome (f json) (fold_outcome g xs) =
      bind_outcome (f json) (\<lambda>json. if length json < JSON_BUF then fold_outcome g xs json else Inl [])" for json
  proof (cases "f json")
    case (Inr json')
    then have "length json' < JSON_BUF" using assms(1) by (simp add: appends_def)
    then show ?thesis by (simp add: Inr)
  qed simp
  then show ?thesis using appends_bind [OF assms(1) appends_fold [OF assms(2), where e = "[]"]] by simp
qed

text \<open>
  The queue lengths of up to 31 test CPUs, each below 100000 and at any time, fit one record:
  the statistics of a session never panic for want of buffer.
\<close>

theorem nr_running_record_fits:
  assumes "tx_reachable s" "ncpus < 32" "\<And>cpu. unat (nr cpu) < 10 ^ 5"
  shows "(\<exists>t. kstep_output_nr_running now True ncpus nr (ts_tx s) = Inr t) \<longleftrightarrow>
    length (tx_in_flight (ts_tx s)) < TX_BUFS"
proof -
  let ?fs = "(''type'', quoted ''nr_running'') # nr_running_fields ncpus nr"
  have a: "appends (\<lambda>json. bind_outcome (kstep_json_field_str ''type'' ''nr_running'' json)
      (fold_outcome (\<lambda>cpu. kstep_json_field_u64 (cpu_key cpu) (ucast (nr cpu))) (test_cpus ncpus)))
      (commas ?fs)"
    using appends_bind_fold [OF appends_field_str [of "''type''" "''nr_running''"] appends_field_u64,
        where xs = "test_cpus ncpus"]
    by (simp add: nr_running_fields_def comp_def)
  have "length (record_text now ?fs) < JSON_BUF - 1"
    using nr_running_commas [of nr, OF assms(3,2)] length_dec_u64 [of now]
    by (simp add: record_text_def length_fields_text field_text_def quoted_def)
  then show ?thesis
    using send_record_iff [OF assms(1) a] by (simp add: kstep_output_nr_running_def)
qed

theorem nr_running_record_fits_witness:
  "(\<exists>t. kstep_output_nr_running 7 True 3 (\<lambda>_. 20000) (ts_tx tx_demo) = Inr t) \<longleftrightarrow>
    length (tx_in_flight (ts_tx tx_demo)) < TX_BUFS"
  by (rule nr_running_record_fits [OF tx_demo_reachable]) simp_all

lemma split_lines_line: "newline \<notin> set l \<Longrightarrow>
    split_lines (l @ newline # cs) = (l # fst (split_lines cs), snd (split_lines cs))"
  by (induction l) (auto simp: split_beta Let_def)

lemma fields_text_no_newline:
  "\<forall>(k, v) \<in> set fs. newline \<notin> set k \<and> newline \<notin> set v \<Longrightarrow> newline \<notin> set (fields_text fs)"
  by (induction fs rule: fields_text.induct) (auto simp: quoted_def)

text \<open>
  Records frame the stream: a record whose fields hold no newline, written anywhere in a
  stream, is one line of what the host splits the stream into, with its fields between braces.
\<close>

theorem record_is_one_line:
  assumes "appends body (commas fs)" "json_record now body = Inr r"
    and "\<forall>(k, v) \<in> set fs. newline \<notin> set k \<and> newline \<notin> set v"
  shows "split_lines (r @ cs) = (record_text now fs # fst (split_lines cs), snd (split_lines cs))"
proof -
  have "newline \<notin> set (record_text now fs)"
    using fields_text_no_newline [of "(''timestamp'', dec (unat now)) # fs"] assms(3)
    by (simp add: record_text_def)
  then show ?thesis
    using assms(2) split_lines_line by (simp add: json_record_Inr [OF assms(1)])
qed

theorem record_is_one_line_witness:
  "split_lines ((record_text 3 [(''ready'', ''true'')] @ [newline]) @ ''x'') =
     ([record_text 3 [(''ready'', ''true'')]], ''x'')"
proof -
  have a: "appends (kstep_json_field_bool ''ready'' True) (commas [(''ready'', ''true'')])"
    using appends_field_bool [of "''ready''" True] by simp
  have "length (record_text 3 [(''ready'', ''true'')]) \<le> 60"
    using length_dec [of 1 3] by (simp add: record_text_def quoted_def)
  then have r: "json_record 3 (kstep_json_field_bool ''ready'' True) =
      Inr (record_text 3 [(''ready'', ''true'')] @ [newline])"
    by (simp add: json_record_Inr [OF a])
  show ?thesis using record_is_one_line [OF a r, of "''x''"] by simp
qed

end
