(* ===== verification/Events.thy ===== *)
theory Events
  imports Prelude
begin

text \<open>
  The event registry (kmod/event.c, kmod/event.h) and the ftrace hooks behind the traced events
  (kmod/trace.c). Callbacks are values of a type \<open>'f\<close> compared for equality, as the code compares
  function pointers; what a callback does is the argument of the emit.
\<close>

section \<open>One event's list\<close>

abbreviation KSTEP_EVENT_SUBS :: nat where "KSTEP_EVENT_SUBS \<equiv> 8"

text \<open>The array's slots, \<open>None\<close> for the null pointer a static array starts with, and the count.\<close>

record 'f kstep_event =
  ev_fn :: "'f option list"
  ev_n :: nat

definition kstep_event_zero :: "'f kstep_event" where
  "kstep_event_zero = \<lparr>ev_fn = replicate KSTEP_EVENT_SUBS None, ev_n = 0\<rparr>"

text \<open>True if it was not already there; a full list warns and refuses.\<close>

definition kstep_event_add :: "'f kstep_event \<Rightarrow> 'f \<Rightarrow> bool \<times> 'f kstep_event" where
  "kstep_event_add ev fn =
     (if \<exists>i < ev_n ev. ev_fn ev ! i = Some fn then (False, ev)
      else if ev_n ev = KSTEP_EVENT_SUBS then (False, ev)
      else (True, ev\<lparr>ev_fn := (ev_fn ev)[ev_n ev := Some fn], ev_n := ev_n ev + 1\<rparr>))"

text \<open>
  The macro \<open>kstep_emit\<close>: the count is loaded once, then the slots below it are called in order.
  \<open>fn\<close> gives a callback's effect on the state, with the event's arguments applied.
\<close>

fun emit_from :: "('f \<Rightarrow> 's \<Rightarrow> 's outcome) \<Rightarrow> 'f option list \<Rightarrow> 's \<Rightarrow> 's outcome" where
  "emit_from fn [] s = Inr s"
| "emit_from fn (None # slots) s = Inl ''null callback''"
| "emit_from fn (Some f # slots) s = bind_outcome (fn f s) (emit_from fn slots)"

definition kstep_emit :: "('f \<Rightarrow> 's \<Rightarrow> 's outcome) \<Rightarrow> 'f kstep_event \<Rightarrow> 's \<Rightarrow> 's outcome" where
  "kstep_emit fn ev s = emit_from fn (take (ev_n ev) (ev_fn ev)) s"

section \<open>The contract of a registry\<close>

text \<open>
  What the code that registers and the code that emits rely on: a list of callbacks without
  duplicates, that only grows at its end up to a capacity.
\<close>

locale registry =
  fixes inv :: "'e \<Rightarrow> bool" and subs :: "'e \<Rightarrow> 'f list" and cap :: nat
    and add :: "'e \<Rightarrow> 'f \<Rightarrow> bool \<times> 'e"
  assumes inv_subs: "inv e \<Longrightarrow> distinct (subs e) \<and> length (subs e) \<le> cap"
    and add_law: "inv e \<Longrightarrow> inv (snd (add e f)) \<and>
      (if f \<in> set (subs e) \<or> length (subs e) = cap
       then fst (add e f) = False \<and> subs (snd (add e f)) = subs e
       else fst (add e f) = True \<and> subs (snd (add e f)) = subs e @ [f])"
begin

definition add_all :: "'e \<Rightarrow> 'f list \<Rightarrow> 'e" where
  "add_all e fs = fold (\<lambda>f e. snd (add e f)) fs e"

definition first_occurrences :: "'f list \<Rightarrow> 'f list" where
  "first_occurrences fs = rev (remdups (rev fs))"

lemma first_occurrences_snoc:
  "first_occurrences (fs @ [f]) = (if f \<in> set fs then first_occurrences fs else first_occurrences fs @ [f])"
  by (simp add: first_occurrences_def)

lemma set_first_occurrences [simp]: "set (first_occurrences fs) = set fs"
  by (simp add: first_occurrences_def)

lemma add_all_snoc: "add_all e (fs @ [f]) = snd (add (add_all e fs) f)"
  by (simp add: add_all_def)

lemma add_all_inv: "inv e \<Longrightarrow> inv (add_all e fs)"
  by (induction fs rule: rev_induct) (auto simp: add_all_snoc add_law, simp add: add_all_def)

lemma subs_add_all:
  assumes "inv e" "subs e = []"
  shows "subs (add_all e fs) = take cap (first_occurrences fs)"
proof (induction fs rule: rev_induct)
  case Nil
  then show ?case using assms by (simp add: add_all_def first_occurrences_def)
next
  case (snoc f fs)
  note i = add_all_inv [OF assms(1), of fs]
  show ?case
  proof (cases "length (first_occurrences fs) < cap")
    case True
    then show ?thesis using add_law [OF i, of f] snoc by (auto simp: add_all_snoc first_occurrences_snoc)
  next
    case False
    then show ?thesis using add_law [OF i, of f] snoc by (auto simp: add_all_snoc first_occurrences_snoc)
  qed
qed

lemma subs_grow: "inv e \<Longrightarrow> \<exists>new. subs (add_all e fs) = subs e @ new"
proof (induction fs rule: rev_induct)
  case Nil
  then show ?case by (simp add: add_all_def)
next
  case (snoc f fs)
  then show ?case using add_law [OF add_all_inv [OF snoc.prems, of fs], of f]
    by (auto simp: add_all_snoc split: if_splits)
qed

end

definition event_subs :: "'f kstep_event \<Rightarrow> 'f list" where
  "event_subs ev = map the (take (ev_n ev) (ev_fn ev))"

definition event_inv :: "'f kstep_event \<Rightarrow> bool" where
  "event_inv ev \<longleftrightarrow> length (ev_fn ev) = KSTEP_EVENT_SUBS \<and> ev_n ev \<le> KSTEP_EVENT_SUBS \<and>
     None \<notin> set (take (ev_n ev) (ev_fn ev)) \<and> distinct (take (ev_n ev) (ev_fn ev))"

lemma map_Some_the: "None \<notin> set xs \<Longrightarrow> map (\<lambda>x. Some (the x)) xs = xs"
  by (induction xs) auto

lemma event_inv_slots: "event_inv ev \<Longrightarrow> take (ev_n ev) (ev_fn ev) = map Some (event_subs ev)"
  by (simp add: event_subs_def event_inv_def comp_def map_Some_the)

lemma event_inv_subs: "event_inv ev \<Longrightarrow> distinct (event_subs ev) \<and> length (event_subs ev) = ev_n ev"
  using event_inv_slots [of ev] by (metis distinct_map event_inv_def length_map length_take min.absorb2)

lemma event_already: "event_inv ev \<Longrightarrow> (\<exists>i < ev_n ev. ev_fn ev ! i = Some f) \<longleftrightarrow> f \<in> set (event_subs ev)"
proof -
  assume i: "event_inv ev"
  have "(\<exists>i < ev_n ev. ev_fn ev ! i = Some f) \<longleftrightarrow> Some f \<in> set (take (ev_n ev) (ev_fn ev))"
    using i by (auto simp: in_set_conv_nth event_inv_def)
  then show ?thesis by (auto simp: event_inv_slots [OF i])
qed

interpretation ev: registry event_inv event_subs KSTEP_EVENT_SUBS kstep_event_add
proof
  fix e :: "'a kstep_event" and f
  assume i: "event_inv e"
  show "distinct (event_subs e) \<and> length (event_subs e) \<le> KSTEP_EVENT_SUBS"
    using event_inv_subs [OF i] i by (simp add: event_inv_def)
  show "event_inv (snd (kstep_event_add e f)) \<and>
      (if f \<in> set (event_subs e) \<or> length (event_subs e) = KSTEP_EVENT_SUBS
       then fst (kstep_event_add e f) = False \<and> event_subs (snd (kstep_event_add e f)) = event_subs e
       else fst (kstep_event_add e f) = True \<and> event_subs (snd (kstep_event_add e f)) = event_subs e @ [f])"
  proof (cases "f \<in> set (event_subs e) \<or> length (event_subs e) = KSTEP_EVENT_SUBS")
    case True
    then show ?thesis
      using i event_inv_subs [OF i] by (auto simp: kstep_event_add_def event_already [OF i])
  next
    case False
    let ?e = "e\<lparr>ev_fn := (ev_fn e)[ev_n e := Some f], ev_n := ev_n e + 1\<rparr>"
    have n: "ev_n e < length (ev_fn e)" using False i event_inv_subs [OF i] by (auto simp: event_inv_def)
    have a: "kstep_event_add e f = (True, ?e)"
      using False event_inv_subs [OF i] by (auto simp: kstep_event_add_def event_already [OF i])
    have t: "take (ev_n ?e) (ev_fn ?e) = map Some (event_subs e) @ [Some f]"
      using n event_inv_slots [OF i] by (simp add: take_Suc_conv_app_nth)
    have "event_inv ?e"
      using t False i event_inv_subs [OF i] n by (auto simp: event_inv_def distinct_map)
    moreover have "event_subs ?e = event_subs e @ [f]" 
      using arg_cong [OF t, of "map the"] by (simp only: event_subs_def [where ev = ?e]) (simp add: comp_def)
    ultimately show ?thesis using a False by simp
  qed
qed

lemma kstep_event_zero [simp]: "event_inv kstep_event_zero" "event_subs kstep_event_zero = []"
  by (simp_all add: kstep_event_zero_def event_inv_def event_subs_def)

lemma emit_from_Some: "emit_from fn (map Some fs) s = fold_outcome fn fs s"
proof (induction fs arbitrary: s)
  case (Cons f fs)
  then show ?case by (cases "fn f s") auto
qed simp

lemma kstep_emit_eq: "event_inv ev \<Longrightarrow> kstep_emit fn ev s = fold_outcome fn (event_subs ev) s"
  by (simp add: kstep_emit_def event_inv_slots emit_from_Some)

text \<open>
  After any sequence of registrations on an event, raising it calls the first eight distinct
  callbacks registered, once each and in the order they first registered: registering twice does
  nothing, and no call ever goes through an empty slot.
\<close>

theorem emit_calls_registered:
  "kstep_emit fn (fold (\<lambda>f e. snd (kstep_event_add e f)) fs kstep_event_zero) s =
     fold_outcome fn (take KSTEP_EVENT_SUBS (rev (remdups (rev fs)))) s"
proof -
  let ?e = "ev.add_all kstep_event_zero fs"
  have "kstep_emit fn ?e s = fold_outcome fn (event_subs ?e) s"
    by (rule kstep_emit_eq [OF ev.add_all_inv]) simp
  then show ?thesis
    using ev.subs_add_all [of kstep_event_zero fs]
    by (simp add: ev.add_all_def ev.first_occurrences_def)
qed

text \<open>
  A tracer on another CPU that loaded an event's count before some registrations and reads the
  slots after them calls exactly the callbacks it counted: a slot below the count never changes.
\<close>

theorem emit_under_registration:
  assumes "event_inv ev"
  shows "take (ev_n ev) (ev_fn (fold (\<lambda>f e. snd (kstep_event_add e f)) fs ev)) = take (ev_n ev) (ev_fn ev)"
proof -
  let ?e = "ev.add_all ev fs"
  obtain new where n: "event_subs ?e = event_subs ev @ new" using ev.subs_grow [OF assms] by blast
  have s: "take (ev_n ?e) (ev_fn ?e) = map Some (event_subs ev) @ map Some new"
    using event_inv_slots [OF ev.add_all_inv [OF assms], of fs] n by simp
  have l: "length (event_subs ev) = ev_n ev" using event_inv_subs [OF assms] by simp
  then have le: "ev_n ev \<le> ev_n ?e"
    using event_inv_subs [OF ev.add_all_inv [OF assms], of fs] n by auto
  then have "take (ev_n ev) (ev_fn ?e) = take (ev_n ev) (take (ev_n ?e) (ev_fn ?e))"
    by (simp add: min_absorb1)
  also have "\<dots> = take (ev_n ev) (ev_fn ev)" using s l event_inv_slots [OF assms] by simp
  finally show ?thesis by (simp add: ev.add_all_def)
qed

theorem emit_under_registration_witness:
  "take 1 (ev_fn (fold (\<lambda>f e. snd (kstep_event_add e f)) [CHR ''b'', CHR ''a'']
     \<lparr>ev_fn = (replicate 8 None)[0 := Some CHR ''a''], ev_n = 1\<rparr>)) = [Some CHR ''a'']"
proof -
  let ?ev = "\<lparr>ev_fn = (replicate 8 None)[0 := Some CHR ''a''], ev_n = 1\<rparr>"
  have "event_inv ?ev" by (simp add: event_inv_def numeral_eq_Suc)
  from emit_under_registration [OF this, of "[CHR ''b'', CHR ''a'']"] show ?thesis
    by (simp add: numeral_eq_Suc)
qed

end
