(* ===== verification/Trace.thy ===== *)
theory Trace
  imports Events
begin

text \<open>
  The traced events (kmod/trace.c): the table of ftrace hooks, what arming one does, how the
  dispatcher tells the hooks apart, and the handlers that turn a traced call into an event. The
  kernel's symbol lookup and ftrace are arguments (\<open>ktrace\<close>).
\<close>

section \<open>The hook table\<close>

datatype hook_fn = On_sched_balance_enter | On_sched_balance_selected | On_select_task_rq
  | On_set_task_cpu | On_sched_group_alloc

record kstep_hook =
  hk_name :: string
  hk_func :: hook_fn
  hk_ip :: u64

text \<open>
  \<open>kt_lookup\<close> is \<open>kstep_ksym_lookup\<close> (0 where there is no such symbol), \<open>kt_size\<close> the size
  \<open>kallsyms_lookup_size_offset\<close> finds (\<open>None\<close> where it fails), \<open>kt_location\<close> the traced
  location in a range of addresses (0 where there is none), \<open>kt_filter\<close> the error of
  \<open>ftrace_set_filter_ip\<close>, \<open>kt_register\<close> that of registering the ops.
\<close>

record ktrace =
  kt_lookup :: "string \<Rightarrow> u64"
  kt_size :: "u64 \<Rightarrow> u64 option"
  kt_location :: "u64 \<Rightarrow> u64 \<Rightarrow> u64"
  kt_filter :: "u64 \<Rightarrow> int"
  kt_register :: int

record 'f trace_state =
  tr_hooks :: "kstep_hook list"
  tr_filter :: "u64 list"
  tr_select :: "'f kstep_event"
  tr_balance :: "'f kstep_event"
  tr_migrate :: "'f kstep_event"

definition trace_zero :: "'f trace_state" where
  "trace_zero = \<lparr>tr_hooks = [], tr_filter = [], tr_select = kstep_event_zero,
     tr_balance = kstep_event_zero, tr_migrate = kstep_event_zero\<rparr>"

abbreviation KSTEP_HOOKS :: nat where "KSTEP_HOOKS \<equiv> 8"

fun kstep_dispatch :: "u64 \<Rightarrow> kstep_hook list \<Rightarrow> hook_fn option" where
  "kstep_dispatch ip [] = None"
| "kstep_dispatch ip (h # hs) = (if hk_ip h = ip then Some (hk_func h) else kstep_dispatch ip hs)"

definition hook_ip :: "ktrace \<Rightarrow> string \<Rightarrow> u64" where
  "hook_ip K name = (let addr = kt_lookup K name;
     size = (if addr \<noteq> 0 then case kt_size K addr of None \<Rightarrow> 0 | Some n \<Rightarrow> n else 0) in
     if size \<noteq> 0 then kt_location K addr (addr + size - 1) else 0)"

text \<open>
  The entry is published first and the filter set after, so the state between the two is a state a
  callback can run in; the second component of \<open>kstep_hook_steps\<close> lists the states in order.
\<close>

definition kstep_hook_steps :: "ktrace \<Rightarrow> string \<Rightarrow> hook_fn \<Rightarrow> 'f trace_state \<Rightarrow> 'f trace_state outcome \<times> 'f trace_state list" where
  "kstep_hook_steps K name func t =
     (if \<exists>h \<in> set (tr_hooks t). hk_name h = name then (Inr t, [])
      else if length (tr_hooks t) = KSTEP_HOOKS then (Inr t, [])
      else let ip = hook_ip K name in
        if ip = 0 then (Inl ''Cannot trace %s'', [])
        else let t1 = t\<lparr>tr_hooks := tr_hooks t @ [\<lparr>hk_name = name, hk_func = func, hk_ip = ip\<rparr>]\<rparr>;
                 t2 = t1\<lparr>tr_filter := tr_filter t1 @ [ip]\<rparr> in
          if kt_filter K ip \<noteq> 0 then (Inl ''Failed to set filter for %s'', [t1])
          else (Inr t2, [t1, t2]))"

definition kstep_hook :: "ktrace \<Rightarrow> string \<Rightarrow> hook_fn \<Rightarrow> 'f trace_state \<Rightarrow> 'f trace_state outcome" where
  "kstep_hook K name func t = fst (kstep_hook_steps K name func t)"

definition trace_sym :: "ktrace \<Rightarrow> string \<Rightarrow> string \<Rightarrow> string" where
  "trace_sym K name old = (if kt_lookup K name \<noteq> 0 then name else old)"

definition kstep_on_select_task_rq :: "ktrace \<Rightarrow> 'f \<Rightarrow> 'f trace_state \<Rightarrow> 'f trace_state outcome" where
  "kstep_on_select_task_rq K fn t = (let (new, e) = kstep_event_add (tr_select t) fn; t1 = t\<lparr>tr_select := e\<rparr> in
     if new then kstep_hook K ''select_task_rq_fair'' On_select_task_rq t1 else Inr t1)"

definition kstep_on_balance_selected :: "ktrace \<Rightarrow> 'f \<Rightarrow> 'f trace_state \<Rightarrow> 'f trace_state outcome" where
  "kstep_on_balance_selected K fn t = (let (new, e) = kstep_event_add (tr_balance t) fn; t1 = t\<lparr>tr_balance := e\<rparr> in
     if new then
       bind_outcome (kstep_hook K (trace_sym K ''sched_balance_rq'' ''load_balance'') On_sched_balance_enter t1)
         (kstep_hook K (trace_sym K ''sched_balance_find_src_group'' ''find_busiest_group'') On_sched_balance_selected)
     else Inr t1)"

definition kstep_on_task_migrate :: "ktrace \<Rightarrow> 'f \<Rightarrow> 'f trace_state \<Rightarrow> 'f trace_state outcome" where
  "kstep_on_task_migrate K fn t = (let (new, e) = kstep_event_add (tr_migrate t) fn; t1 = t\<lparr>tr_migrate := e\<rparr> in
     if new then kstep_hook K ''set_task_cpu'' On_set_task_cpu t1 else Inr t1)"

definition kstep_trace_init :: "ktrace \<Rightarrow> 'f trace_state \<Rightarrow> 'f trace_state outcome" where
  "kstep_trace_init K t = bind_outcome (kstep_hook K ''init_tg_cfs_entry'' On_sched_group_alloc t) (\<lambda>t.
     if kt_register K \<noteq> 0 then Inl ''Failed to register the ftrace hooks'' else Inr t)"

text \<open>A session's registrations, in any order and any number.\<close>

datatype 'f trace_op = Watch_select 'f | Watch_balance 'f | Watch_migrate 'f

fun trace_do :: "ktrace \<Rightarrow> 'f trace_op \<Rightarrow> 'f trace_state \<Rightarrow> 'f trace_state outcome" where
  "trace_do K (Watch_select f) t = kstep_on_select_task_rq K f t"
| "trace_do K (Watch_balance f) t = kstep_on_balance_selected K f t"
| "trace_do K (Watch_migrate f) t = kstep_on_task_migrate K f t"

section \<open>What is traced follows from who is watching\<close>

text \<open>The five hooks a session can arm: a kernel function and its handler.\<close>

definition hook_init :: "string \<times> hook_fn" where
  "hook_init = (''init_tg_cfs_entry'', On_sched_group_alloc)"

definition hook_select :: "string \<times> hook_fn" where
  "hook_select = (''select_task_rq_fair'', On_select_task_rq)"

definition hook_enter :: "ktrace \<Rightarrow> string \<times> hook_fn" where
  "hook_enter K = (trace_sym K ''sched_balance_rq'' ''load_balance'', On_sched_balance_enter)"

definition hook_selected :: "ktrace \<Rightarrow> string \<times> hook_fn" where
  "hook_selected K =
     (trace_sym K ''sched_balance_find_src_group'' ''find_busiest_group'', On_sched_balance_selected)"

definition hook_migrate :: "string \<times> hook_fn" where
  "hook_migrate = (''set_task_cpu'', On_set_task_cpu)"

lemmas hook_names = hook_init_def hook_select_def hook_enter_def hook_selected_def hook_migrate_def

definition wanted_hooks :: "ktrace \<Rightarrow> 'f trace_state \<Rightarrow> (string \<times> hook_fn) set" where
  "wanted_hooks K t = {hook_init} \<union>
     (if event_subs (tr_select t) = [] then {} else {hook_select}) \<union>
     (if event_subs (tr_balance t) = [] then {} else
        {hook_enter K,
         hook_selected K}) \<union>
     (if event_subs (tr_migrate t) = [] then {} else {hook_migrate})"

definition hook_pairs :: "kstep_hook list \<Rightarrow> (string \<times> hook_fn) set" where
  "hook_pairs hs = (\<lambda>h. (hk_name h, hk_func h)) ` set hs"

definition all_hooks :: "ktrace \<Rightarrow> (string \<times> hook_fn) set" where
  "all_hooks K = {hook_init, hook_select,
     hook_enter K,
     hook_selected K,
     hook_migrate}"

definition table_ok :: "ktrace \<Rightarrow> 'f trace_state \<Rightarrow> bool" where
  "table_ok K t \<longleftrightarrow> distinct (map hk_name (tr_hooks t)) \<and> hook_pairs (tr_hooks t) \<subseteq> all_hooks K \<and>
     (\<forall>h \<in> set (tr_hooks t). hk_ip h = hook_ip K (hk_name h) \<and> hk_ip h \<noteq> 0) \<and>
     tr_filter t = map hk_ip (tr_hooks t)"

definition trace_inv :: "ktrace \<Rightarrow> 'f trace_state \<Rightarrow> bool" where
  "trace_inv K t \<longleftrightarrow> event_inv (tr_select t) \<and> event_inv (tr_balance t) \<and> event_inv (tr_migrate t) \<and>
     table_ok K t \<and> hook_pairs (tr_hooks t) = wanted_hooks K t"

lemma all_hooks_inj: "(n, f) \<in> all_hooks K \<Longrightarrow> (n, g) \<in> all_hooks K \<Longrightarrow> f = g"
  by (auto simp: all_hooks_def hook_names trace_sym_def split: if_splits)

lemma all_hooks_fst: "fst ` hook_pairs hs = hk_name ` set hs"
  by (force simp: hook_pairs_def)

lemma table_ok_length:
  assumes "table_ok K t"
  shows "length (tr_hooks t) \<le> 5"
proof -
  have "length (tr_hooks t) = card (hk_name ` set (tr_hooks t))"
    using assms by (metis distinct_card length_map list.set_map table_ok_def)
  also have "\<dots> \<le> card (fst ` all_hooks K)"
    unfolding all_hooks_fst [symmetric] using assms
    by (intro card_mono) (auto simp: table_ok_def all_hooks_def)
  also have "\<dots> \<le> 5"
    by (rule order_trans [OF card_image_le]) (simp_all add: all_hooks_def card_insert_if)
  finally show ?thesis .
qed

lemma kstep_hook_Inr:
  assumes "kstep_hook K n f t = Inr t'" "table_ok K t" "(n, f) \<in> all_hooks K"
  shows "table_ok K t' \<and> hook_pairs (tr_hooks t') = insert (n, f) (hook_pairs (tr_hooks t)) \<and>
    tr_select t' = tr_select t \<and> tr_balance t' = tr_balance t \<and> tr_migrate t' = tr_migrate t"
proof (cases "\<exists>h \<in> set (tr_hooks t). hk_name h = n")
  case True
  then obtain h where h: "h \<in> set (tr_hooks t)" "hk_name h = n" by blast
  then have "(n, hk_func h) \<in> hook_pairs (tr_hooks t)" by (auto simp: hook_pairs_def)
  moreover from this have "hk_func h = f"
    using assms(2,3) by (intro all_hooks_inj [of n _ K]) (auto simp: table_ok_def)
  ultimately show ?thesis
    using assms True by (auto simp: kstep_hook_def kstep_hook_steps_def)
next
  case False
  then have t': "t' = t\<lparr>tr_hooks := tr_hooks t @ [\<lparr>hk_name = n, hk_func = f, hk_ip = hook_ip K n\<rparr>],
      tr_filter := tr_filter t @ [hook_ip K n]\<rparr>" "hook_ip K n \<noteq> 0"
    using assms(1) table_ok_length [OF assms(2)]
    by (auto simp: kstep_hook_def kstep_hook_steps_def Let_def split: if_splits)
  then show ?thesis using assms(2,3) False by (auto simp: table_ok_def hook_pairs_def)
qed

lemma all_hooks_mem:
  "hook_init \<in> all_hooks K" "hook_select \<in> all_hooks K" "hook_enter K \<in> all_hooks K"
  "hook_selected K \<in> all_hooks K" "hook_migrate \<in> all_hooks K"
  by (simp_all add: all_hooks_def)

lemma kstep_hook_pair:
  assumes "kstep_hook K n f t = Inr t'" "h = (n, f)" "table_ok K t" "h \<in> all_hooks K"
  shows "table_ok K t'" "hook_pairs (tr_hooks t') = insert h (hook_pairs (tr_hooks t))"
    "tr_select t' = tr_select t" "tr_balance t' = tr_balance t" "tr_migrate t' = tr_migrate t"
  using kstep_hook_Inr [OF assms(1,3)] assms(2,4) by simp_all

lemma kstep_event_add_cases:
  assumes "event_inv e" "kstep_event_add e f = (new, e')"
  shows "event_inv e' \<and> event_subs e' \<noteq> [] \<and> (\<not> new \<longrightarrow> event_subs e \<noteq> [])"
  using ev.add_law [OF assms(1), of f] assms(2) by (auto split: if_splits)

lemma table_ok_events [simp]:
  "table_ok K (t\<lparr>tr_select := e\<rparr>) = table_ok K t" "table_ok K (t\<lparr>tr_balance := e\<rparr>) = table_ok K t"
  "table_ok K (t\<lparr>tr_migrate := e\<rparr>) = table_ok K t"
  by (simp_all add: table_ok_def)

lemma watch_select_inv:
  assumes "kstep_on_select_task_rq K f t = Inr t'" "trace_inv K t"
  shows "trace_inv K t'"
proof -
  obtain new e where a: "kstep_event_add (tr_select t) f = (new, e)" by fastforce
  have i: "event_inv (tr_select t)" "table_ok K t" using assms(2) by (simp_all add: trace_inv_def)
  note e = kstep_event_add_cases [OF i(1) a]
  show ?thesis
  proof (cases new)
    case True
    then have "kstep_hook K ''select_task_rq_fair'' On_select_task_rq (t\<lparr>tr_select := e\<rparr>) = Inr t'"
      using assms(1) by (simp add: kstep_on_select_task_rq_def a)
    note h = kstep_hook_pair [OF this hook_select_def _ all_hooks_mem(2)]
    show ?thesis using assms(2) e i h by (simp add: trace_inv_def wanted_hooks_def) blast
  next
    case False
    then show ?thesis using assms e by (auto simp: kstep_on_select_task_rq_def a trace_inv_def wanted_hooks_def)
  qed
qed

lemma watch_migrate_inv:
  assumes "kstep_on_task_migrate K f t = Inr t'" "trace_inv K t"
  shows "trace_inv K t'"
proof -
  obtain new e where a: "kstep_event_add (tr_migrate t) f = (new, e)" by fastforce
  have i: "event_inv (tr_migrate t)" "table_ok K t" using assms(2) by (simp_all add: trace_inv_def)
  note e = kstep_event_add_cases [OF i(1) a]
  show ?thesis
  proof (cases new)
    case True
    then have "kstep_hook K ''set_task_cpu'' On_set_task_cpu (t\<lparr>tr_migrate := e\<rparr>) = Inr t'"
      using assms(1) by (simp add: kstep_on_task_migrate_def a)
    note h = kstep_hook_pair [OF this hook_migrate_def _ all_hooks_mem(5)]
    show ?thesis using assms(2) e i h by (simp add: trace_inv_def wanted_hooks_def) blast
  next
    case False
    then show ?thesis using assms e by (auto simp: kstep_on_task_migrate_def a trace_inv_def wanted_hooks_def)
  qed
qed

lemma watch_balance_inv:
  assumes "kstep_on_balance_selected K f t = Inr t'" "trace_inv K t"
  shows "trace_inv K t'"
proof -
  obtain new e where a: "kstep_event_add (tr_balance t) f = (new, e)" by fastforce
  have i: "event_inv (tr_balance t)" "table_ok K t" using assms(2) by (simp_all add: trace_inv_def)
  note e = kstep_event_add_cases [OF i(1) a]
  show ?thesis
  proof (cases new)
    case True
    then obtain u where u: "kstep_hook K (trace_sym K ''sched_balance_rq'' ''load_balance'')
          On_sched_balance_enter (t\<lparr>tr_balance := e\<rparr>) = Inr u"
        "kstep_hook K (trace_sym K ''sched_balance_find_src_group'' ''find_busiest_group'')
          On_sched_balance_selected u = Inr t'"
      using assms(1) by (auto simp: kstep_on_balance_selected_def a bind_outcome_Inr_iff)
    note h1 = kstep_hook_pair [OF u(1) hook_enter_def _ all_hooks_mem(3)]
    then have "table_ok K u" using i by simp
    note h2 = kstep_hook_pair [OF u(2) hook_selected_def this all_hooks_mem(4)]
    show ?thesis using assms(2) e i h1 h2 by (simp add: trace_inv_def wanted_hooks_def) blast
  next
    case False
    then show ?thesis using assms e by (auto simp: kstep_on_balance_selected_def a trace_inv_def wanted_hooks_def)
  qed
qed

lemma trace_do_inv: "trace_do K x t = Inr t' \<Longrightarrow> trace_inv K t \<Longrightarrow> trace_inv K t'"
  by (cases x) (auto intro: watch_select_inv watch_balance_inv watch_migrate_inv)

lemma trace_init_inv:
  assumes "kstep_trace_init K trace_zero = Inr t"
  shows "trace_inv K t"
proof -
  have u: "kstep_hook K ''init_tg_cfs_entry'' On_sched_group_alloc trace_zero = Inr t"
    using assms by (auto simp: kstep_trace_init_def bind_outcome_Inr_iff split: if_splits)
  have z: "table_ok K trace_zero" by (simp add: trace_zero_def table_ok_def hook_pairs_def)
  note h = kstep_hook_pair [OF u hook_init_def z all_hooks_mem(1)]
  then show ?thesis by (simp add: trace_inv_def wanted_hooks_def trace_zero_def hook_pairs_def)
qed

lemma trace_session_inv:
  assumes "bind_outcome (kstep_trace_init K trace_zero) (fold_outcome (trace_do K) ops) = Inr t"
  shows "trace_inv K t"
proof -
  obtain u where "kstep_trace_init K trace_zero = Inr u" "fold_outcome (trace_do K) ops u = Inr t"
    using assms by (auto simp: bind_outcome_Inr_iff)
  then show ?thesis
    using fold_outcome_invariant [of "trace_do K" ops u t "trace_inv K"] trace_init_inv trace_do_inv by blast
qed

section \<open>The handlers\<close>

text \<open>
  Each CPU remembers the balance call it last entered; \<open>'d\<close> is the type of a sched domain. A
  handler runs on CPU \<open>me\<close> (\<open>smp_processor_id()\<close>) at the mocked time \<open>now\<close>, and yields
  the event it raises, if any.
\<close>

record 'd lb_state =
  lb_dst_cpu :: "nat \<Rightarrow> int"
  lb_sd :: "nat \<Rightarrow> 'd option"

datatype ('t, 'd) traced =
    Ev_balance_selected int "'d option"
  | Ev_select_task_rq 't int int
  | Ev_task_migrate 't int int

definition lb_zero :: "'d lb_state" where
  "lb_zero = \<lparr>lb_dst_cpu = (\<lambda>_. 0), lb_sd = (\<lambda>_. None)\<rparr>"

definition on_sched_balance_enter :: "u64 \<Rightarrow> nat \<Rightarrow> int \<Rightarrow> 'd \<Rightarrow> 'd lb_state \<Rightarrow> 'd lb_state" where
  "on_sched_balance_enter now me this_cpu sd s =
     (if this_cpu = 0 \<or> now = 0 then s
      else s\<lparr>lb_dst_cpu := (lb_dst_cpu s)(me := this_cpu), lb_sd := (lb_sd s)(me := Some sd)\<rparr>)"

definition on_sched_balance_selected :: "u64 \<Rightarrow> nat \<Rightarrow> 'd lb_state \<Rightarrow> ('t, 'd) traced option" where
  "on_sched_balance_selected now me s =
     (if lb_dst_cpu s me = 0 \<or> now = 0 then None
      else Some (Ev_balance_selected (lb_dst_cpu s me) (lb_sd s me)))"

definition on_select_task_rq :: "'t \<Rightarrow> int \<Rightarrow> int \<Rightarrow> ('t, 'd) traced option" where
  "on_select_task_rq p prev_cpu wake_flags = Some (Ev_select_task_rq p prev_cpu wake_flags)"

definition on_set_task_cpu :: "u64 \<Rightarrow> ('t \<Rightarrow> int) \<Rightarrow> 't \<Rightarrow> int \<Rightarrow> ('t, 'd) traced option" where
  "on_set_task_cpu now task_cpu p new_cpu =
     (if now = 0 \<or> task_cpu p = new_cpu then None else Some (Ev_task_migrate p (task_cpu p) new_cpu))"

text \<open>The balancer's traced calls over a session: which CPU runs each, when, and with what.\<close>

datatype 'd lb_call = Lb_enter u64 nat int 'd | Lb_selected u64 nat

fun lb_run :: "'d lb_call list \<Rightarrow> 'd lb_state \<Rightarrow> ('t, 'd) traced list" where
  "lb_run [] s = []"
| "lb_run (Lb_enter now me this_cpu sd # xs) s = lb_run xs (on_sched_balance_enter now me this_cpu sd s)"
| "lb_run (Lb_selected now me # xs) s =
     (case on_sched_balance_selected now me s of None \<Rightarrow> lb_run xs s | Some e \<Rightarrow> e # lb_run xs s)"

lemma lb_run_sound:
  assumes "(Ev_balance_selected cpu sd :: ('t, 'd) traced) \<in> set (lb_run xs s)"
    and "\<And>me. lb_dst_cpu s me \<noteq> 0 \<Longrightarrow>
      \<exists>now d. now \<noteq> 0 \<and> lb_sd s me = Some d \<and> Lb_enter now me (lb_dst_cpu s me) d \<in> E"
    and "set xs \<subseteq> E"
  shows "cpu \<noteq> 0 \<and> (\<exists>now me d. now \<noteq> 0 \<and> sd = Some d \<and> Lb_enter now me cpu d \<in> E)"
  using assms
proof (induction xs arbitrary: s)
  case (Cons x xs)
  note IH = Cons.IH and prem = Cons.prems
  show ?case
  proof (cases x)
    case (Lb_enter now me this_cpu d)
    let ?s = "on_sched_balance_enter now me this_cpu d s"
    have "\<exists>n d'. n \<noteq> 0 \<and> lb_sd ?s m = Some d' \<and> Lb_enter n m (lb_dst_cpu ?s m) d' \<in> E"
      if "lb_dst_cpu ?s m \<noteq> 0" for m
      using that prem(2) [of m] prem(3) Lb_enter by (auto simp: on_sched_balance_enter_def split: if_splits)
    then show ?thesis using IH [of ?s] prem(1,3) Lb_enter by simp
  next
    case (Lb_selected now me)
    show ?thesis
    proof (cases "lb_dst_cpu s me = 0 \<or> now = 0")
      case True
      then show ?thesis using IH [of s] prem Lb_selected by (auto simp: on_sched_balance_selected_def)
    next
      case False
      then consider "cpu = lb_dst_cpu s me" "sd = lb_sd s me" 
        | "(Ev_balance_selected cpu sd :: ('t, 'd) traced) \<in> set (lb_run xs s)"
        using prem(1) Lb_selected by (auto simp: on_sched_balance_selected_def)
      then show ?thesis
      proof cases
        case 1
        then show ?thesis using prem(2) [of me] False by metis
      next
        case 2
        show ?thesis by (rule IH [OF 2 prem(2)]) (use prem(3) in auto)
      qed
    qed
  qed
qed simp

section \<open>What tracing promises\<close>

text \<open>
  C21. After any registrations, what is traced follows from who is watching: the hooks armed are
  the one the session always needs and those behind the events with a callback, each with its own
  handler. The table never fills, and ftrace reports exactly the locations in it.
\<close>

theorem traced_iff_watched:
  assumes "bind_outcome (kstep_trace_init K trace_zero) (fold_outcome (trace_do K) ops) = Inr t"
  shows "hook_pairs (tr_hooks t) = wanted_hooks K t \<and> length (tr_hooks t) \<le> 5 \<and>
    tr_filter t = map hk_ip (tr_hooks t)"
proof -
  have i: "trace_inv K t" by (rule trace_session_inv [OF assms])
  then have "table_ok K t" by (simp add: trace_inv_def)
  then show ?thesis using i table_ok_length [of K t] by (simp add: trace_inv_def table_ok_def [of K t])
qed

definition demo_ktrace :: ktrace where
  "demo_ktrace = \<lparr>kt_lookup = (\<lambda>n. of_nat (sum_list (map of_char n))), kt_size = (\<lambda>_. Some 64),
     kt_location = (\<lambda>a b. a + 4), kt_filter = (\<lambda>_. 0), kt_register = 0\<rparr>"

lemma demo_trace:
  "\<exists>t. bind_outcome (kstep_trace_init demo_ktrace trace_zero)
      (fold_outcome (trace_do demo_ktrace) [Watch_migrate (1::nat)]) = Inr t"
  by (simp add: kstep_trace_init_def kstep_hook_def kstep_hook_steps_def hook_ip_def demo_ktrace_def
      trace_zero_def kstep_on_task_migrate_def kstep_event_add_def kstep_event_zero_def Let_def)

theorem traced_iff_watched_witness:
  "\<exists>t. bind_outcome (kstep_trace_init demo_ktrace trace_zero)
      (fold_outcome (trace_do demo_ktrace) [Watch_migrate (1::nat)]) = Inr t \<and>
    hook_pairs (tr_hooks t) = wanted_hooks demo_ktrace t \<and> tr_filter t = map hk_ip (tr_hooks t)"
  using demo_trace traced_iff_watched by blast

lemma kstep_dispatch_None: "kstep_dispatch ip hs = None \<longleftrightarrow> ip \<notin> hk_ip ` set hs"
  by (induction hs) auto

lemma kstep_dispatch_Some:
  "h \<in> set hs \<Longrightarrow> inj_on hk_ip (set hs) \<Longrightarrow> kstep_dispatch (hk_ip h) hs = Some (hk_func h)"
  by (induction hs) (auto simp: inj_on_def)



text \<open>
  Where the kernel's functions have distinct traced locations, the dispatcher runs for each
  armed function the handler written for it.
\<close>

theorem dispatch_runs_its_handler:
  assumes "bind_outcome (kstep_trace_init K trace_zero) (fold_outcome (trace_do K) ops) = Inr t"
    and "inj_on (hook_ip K) (fst ` all_hooks K)" and "(name, func) \<in> wanted_hooks K t"
  shows "kstep_dispatch (hook_ip K name) (tr_hooks t) = Some func"
proof -
  have i: "trace_inv K t" by (rule trace_session_inv [OF assms(1)])
  have hp: "hook_pairs (tr_hooks t) = wanted_hooks K t" "hook_pairs (tr_hooks t) \<subseteq> all_hooks K"
    and d: "distinct (map hk_name (tr_hooks t))"
    and ip: "\<And>h. h \<in> set (tr_hooks t) \<Longrightarrow> hk_ip h = hook_ip K (hk_name h)"
    using i by (auto simp: trace_inv_def table_ok_def)
  obtain h where h: "h \<in> set (tr_hooks t)" "hk_name h = name" "hk_func h = func"
    using assms(3) unfolding hp(1) [symmetric] by (auto simp: hook_pairs_def)
  have "hk_name ` set (tr_hooks t) \<subseteq> fst ` all_hooks K"
    using hp(2) unfolding all_hooks_fst [symmetric] by (rule image_mono)
  moreover have "inj_on hk_name (set (tr_hooks t))" using d by (simp add: distinct_map)
  ultimately have "inj_on (hook_ip K \<circ> hk_name) (set (tr_hooks t))"
    using assms(2) by (meson comp_inj_on inj_on_subset)
  then have "inj_on hk_ip (set (tr_hooks t))" by (simp add: ip cong: inj_on_cong)
  from kstep_dispatch_Some [OF h(1) this] h ip show ?thesis by simp
qed

theorem dispatch_runs_its_handler_witness:
  "\<exists>t. bind_outcome (kstep_trace_init demo_ktrace trace_zero)
      (fold_outcome (trace_do demo_ktrace) [Watch_migrate (1::nat)]) = Inr t \<and>
    kstep_dispatch (hook_ip demo_ktrace ''init_tg_cfs_entry'') (tr_hooks t) = Some On_sched_group_alloc"
proof -
  obtain t where t: "bind_outcome (kstep_trace_init demo_ktrace trace_zero)
      (fold_outcome (trace_do demo_ktrace) [Watch_migrate (1::nat)]) = Inr t" using demo_trace by blast
  have inj: "inj_on (hook_ip demo_ktrace) (fst ` all_hooks demo_ktrace)"
    by (simp add: all_hooks_def hook_names trace_sym_def hook_ip_def demo_ktrace_def Let_def)
  have w: "(''init_tg_cfs_entry'', On_sched_group_alloc) \<in> wanted_hooks demo_ktrace t"
    by (simp add: wanted_hooks_def hook_init_def)
  from dispatch_runs_its_handler [OF t inj w] t show ?thesis by blast
qed

text \<open>
  A balance report is never about CPU 0, never from before the mocked clock runs, and names a
  CPU and a domain that a traced balance call of the session was really made with.
\<close>

theorem balance_report_sound:
  assumes "Ev_balance_selected cpu sd \<in> set (lb_run calls lb_zero)"
  shows "cpu \<noteq> 0 \<and> (\<exists>now me d. now \<noteq> 0 \<and> sd = Some d \<and> Lb_enter now me cpu d \<in> set calls)"
  by (rule lb_run_sound [OF assms]) (simp_all add: lb_zero_def)

theorem balance_report_sound_witness:
  "\<exists>now me d. now \<noteq> 0 \<and> Some CHR ''d'' = Some d \<and>
    Lb_enter now me 2 d \<in> set [Lb_enter 5 2 2 CHR ''d'', Lb_selected 5 2]"
proof -
  have "(Ev_balance_selected 2 (Some CHR ''d'') :: (nat, char) traced) \<in>
      set (lb_run [Lb_enter 5 2 2 CHR ''d'', Lb_selected 5 2] lb_zero)"
    by (simp add: on_sched_balance_enter_def on_sched_balance_selected_def lb_zero_def)
  from balance_report_sound [OF this] show ?thesis by simp
qed

end
