(* ===== verification/Tick.thy ===== *)
theory Tick
  imports Task_Ctrl
begin

text \<open>
  The mocked clocks (kmod/tick_clock.c, kmod/tick_jiffies.c), settling, and the tick itself
  (kmod/tick.c). The kernel under test is an arbitrary machine \<open>'m\<close> with the operations the tick
  calls (\<open>kern\<close>); it moves by itself while the controller spins. A computation of the controller
  may not return (\<open>None\<close>), panic (\<open>Some (Inl _)\<close>) or go on (\<open>Some (Inr _)\<close>).
\<close>

section \<open>The mocked clocks\<close>

record clock =
  ck_sched :: u64
  ck_kstep_jiffies :: u64
  ck_offset :: u64
  ck_jiffies :: u64

definition kstep_sched_clock_get :: "clock \<Rightarrow> u64" where
  "kstep_sched_clock_get ck = ck_sched ck"

text \<open>\<open>interval\<close> is the driver's \<open>tick_interval_ns\<close>, 0 for one tick of the kernel's.\<close>

definition kstep_sched_clock_tick :: "u64 \<Rightarrow> u64 \<Rightarrow> clock \<Rightarrow> clock" where
  "kstep_sched_clock_tick tick_nsec interval ck =
     ck\<lparr>ck_sched := ck_sched ck + (if interval \<noteq> 0 then interval else tick_nsec)\<rparr>"

definition kstep_jiffies_get :: "clock \<Rightarrow> u64" where
  "kstep_jiffies_get ck = ck_kstep_jiffies ck"

definition kstep_jiffies_set :: "u64 \<Rightarrow> clock \<Rightarrow> clock" where
  "kstep_jiffies_set v ck = ck\<lparr>ck_kstep_jiffies := v, ck_jiffies := v + ck_offset ck\<rparr>"

text \<open>\<open>epoch\<close> is \<open>nsecs_to_jiffies(TICK_NSEC)\<close>, \<open>initial\<close> is \<open>INITIAL_JIFFIES\<close>.\<close>

definition kstep_jiffies_init :: "u64 \<Rightarrow> u64 \<Rightarrow> clock \<Rightarrow> clock" where
  "kstep_jiffies_init epoch initial ck = kstep_jiffies_set 0 (ck\<lparr>ck_offset := epoch + initial\<rparr>)"

definition kstep_jiffies_tick :: "clock \<Rightarrow> clock outcome" where
  "kstep_jiffies_tick ck =
     (if ck_jiffies ck \<noteq> ck_kstep_jiffies ck + ck_offset ck then Inl ''%lu != %llu''
      else Inr (kstep_jiffies_set (ck_kstep_jiffies ck + 1) ck))"

definition clock_inv :: "clock \<Rightarrow> bool" where
  "clock_inv ck \<longleftrightarrow> ck_jiffies ck = ck_kstep_jiffies ck + ck_offset ck"

definition clock_tick :: "u64 \<Rightarrow> u64 \<Rightarrow> clock \<Rightarrow> clock outcome" where
  "clock_tick tick_nsec interval ck = kstep_jiffies_tick (kstep_sched_clock_tick tick_nsec interval ck)"

lemma clock_tick_eq:
  assumes "clock_inv ck"
  shows "clock_tick nsec interval ck = Inr (ck\<lparr>ck_sched := ck_sched ck + (if interval \<noteq> 0 then interval else nsec),
    ck_kstep_jiffies := ck_kstep_jiffies ck + 1, ck_jiffies := ck_jiffies ck + 1\<rparr>)"
  using assms
  by (simp add: clock_tick_def kstep_jiffies_tick_def kstep_sched_clock_tick_def kstep_jiffies_set_def
      clock_inv_def)

lemma clock_tick_inv: "clock_inv ck \<Longrightarrow> clock_tick nsec interval ck = Inr ck' \<Longrightarrow> clock_inv ck'"
  by (auto simp: clock_tick_eq clock_inv_def)

section \<open>Computations that may wait forever\<close>

type_synonym 'a run = "'a outcome option"

definition bind_run :: "'a run \<Rightarrow> ('a \<Rightarrow> 'b run) \<Rightarrow> 'b run" where
  "bind_run r f = (case r of None \<Rightarrow> None | Some (Inl e) \<Rightarrow> Some (Inl e) | Some (Inr x) \<Rightarrow> f x)"

lemma bind_run_simps [simp]: "bind_run None f = None" "bind_run (Some (Inl e)) f = Some (Inl e)"
  "bind_run (Some (Inr x)) f = f x"
  by (simp_all add: bind_run_def)

lemma bind_run_returns: "bind_run r f = Some (Inr y) \<longleftrightarrow> (\<exists>x. r = Some (Inr x) \<and> f x = Some (Inr y))"
  by (auto simp: bind_run_def split: option.splits sum.splits)

lemma bind_run_not_None: "r \<noteq> None \<Longrightarrow> (\<And>x. f x \<noteq> None) \<Longrightarrow> bind_run r f \<noteq> None"
  by (auto simp: bind_run_def split: option.splits sum.splits)

section \<open>The machine under test\<close>

text \<open>What \<open>kstep_cpu_settled\<close> reads of a CPU's runqueue and its current task.\<close>

record rq_view =
  rv_curr :: tptr
  rv_pid :: nat
  rv_idle :: tptr
  rv_nr_running :: nat
  rv_ttwu_pending :: bool
  rv_need_resched :: bool
  rv_need_resched_lazy :: bool
  rv_sigpending :: bool

datatype tick_event = Tick_begin | Tick_end | Softirq_begin nat | Softirq_end nat | Settle

text \<open>A bandwidth period timer: the group and which class's.\<close>

datatype bw_timer = Cfs_timer nat | Rt_timer nat

record bandwidth =
  bw_cfs_active :: bool
  bw_cfs_period :: u64
  bw_rt_active :: bool
  bw_rt_period :: u64

text \<open>
  The kernel's side of a tick: its scheduler tick and softirq on a CPU, the CPU's pending softirqs,
  the bandwidth groups and timers, what the CPUs do while the controller spins, the records of the
  tasks, and the callbacks registered for the events kSTEP raises.
\<close>

record 'm kern =
  kn_sched_tick :: "nat \<Rightarrow> 'm \<Rightarrow> 'm"
  kn_softirq :: "nat \<Rightarrow> 'm \<Rightarrow> 'm"
  kn_pending :: "'m \<Rightarrow> nat \<Rightarrow> u32"
  kn_set_pending :: "nat \<Rightarrow> u32 \<Rightarrow> 'm \<Rightarrow> 'm"
  kn_groups :: "'m \<Rightarrow> nat list"
  kn_bandwidth :: "'m \<Rightarrow> nat \<Rightarrow> bandwidth"
  kn_cancel :: "bw_timer \<Rightarrow> 'm \<Rightarrow> 'm"
  kn_period_fn :: "bw_timer \<Rightarrow> 'm \<Rightarrow> 'm"
  kn_relax :: "'m \<Rightarrow> 'm"
  kn_rq :: "'m \<Rightarrow> nat \<Rightarrow> rq_view"
  kn_tasks :: "'m \<Rightarrow> kstep_tasks"
  kn_emit :: "tick_event \<Rightarrow> 'm \<Rightarrow> 'm"

text \<open>The log is not in the code: it names what the controller does, in order.\<close>

datatype tick_act = A_settled | A_emit tick_event | A_clock | A_jiffies | A_sched_tick nat
  | A_softirq nat | A_fire bw_timer

record 'm tsys =
  t_m :: 'm
  t_clock :: clock
  t_log :: "tick_act list"

definition t_act :: "tick_act \<Rightarrow> ('m \<Rightarrow> 'm) \<Rightarrow> 'm tsys \<Rightarrow> 'm tsys" where
  "t_act a f s = s\<lparr>t_m := f (t_m s), t_log := t_log s @ [a]\<rparr>"

definition t_emit :: "'m kern \<Rightarrow> tick_event \<Rightarrow> 'm tsys \<Rightarrow> 'm tsys" where
  "t_emit K e s = t_act (A_emit e) (kn_emit K e) s"

section \<open>Settling\<close>

definition kstep_cpu_settled :: "'m kern \<Rightarrow> 'm \<Rightarrow> nat \<Rightarrow> bool" where
  "kstep_cpu_settled K m cpu = (let rq = kn_rq K m cpu in
     if rv_ttwu_pending rq \<or> rv_need_resched rq then False
     else if rv_need_resched_lazy rq then False
     else if rv_curr rq = rv_idle rq then rv_nr_running rq = 0
     else kstep_task_settled (kn_tasks K m) (rv_curr rq) (rv_pid rq) (rv_sigpending rq))"

text \<open>\<open>while (!kstep_cpu_settled(cpu)) cpu_relax();\<close> with the machine moving at each turn.\<close>

partial_function (option) wait_cpu :: "'m kern \<Rightarrow> nat \<Rightarrow> 'm \<Rightarrow> 'm option" where
  "wait_cpu K cpu m = (if kstep_cpu_settled K m cpu then Some m else wait_cpu K cpu (kn_relax K m))"

fun wait_cpus :: "'m kern \<Rightarrow> nat list \<Rightarrow> 'm \<Rightarrow> 'm option" where
  "wait_cpus K [] m = Some m"
| "wait_cpus K (cpu # cpus) m = Option.bind (wait_cpu K cpu m) (wait_cpus K cpus)"

definition for_each_test_cpu :: "nat \<Rightarrow> nat list" where
  "for_each_test_cpu ncpus = [1..<Suc ncpus]"

definition kstep_settle :: "'m kern \<Rightarrow> nat \<Rightarrow> 'm tsys \<Rightarrow> 'm tsys run" where
  "kstep_settle K ncpus s = (case wait_cpus K (for_each_test_cpu ncpus) (t_m s) of None \<Rightarrow> None
     | Some m \<Rightarrow> Some (Inr (t_emit K Settle (s\<lparr>t_m := m, t_log := t_log s @ [A_settled]\<rparr>))))"

section \<open>The tick\<close>

abbreviation SCHED_SOFTIRQ_BIT :: u32 where "SCHED_SOFTIRQ_BIT \<equiv> 0x80"

unbundle bit_operations_syntax

definition kstep_do_sched_tick :: "'m kern \<Rightarrow> nat \<Rightarrow> 'm tsys \<Rightarrow> 'm tsys" where
  "kstep_do_sched_tick K cpu s = (let s = t_act (A_sched_tick cpu) (kn_sched_tick K cpu) s;
     pend = kn_pending K (t_m s) cpu in
     if pend AND SCHED_SOFTIRQ_BIT \<noteq> 0 then
       let s = s\<lparr>t_m := kn_set_pending K cpu (pend AND NOT SCHED_SOFTIRQ_BIT) (t_m s)\<rparr>;
           s = t_emit K (Softirq_begin cpu) s;
           s = t_act (A_softirq cpu) (kn_softirq K cpu) s in
       t_emit K (Softirq_end cpu) s
     else s)"

definition timer_due :: "u64 \<Rightarrow> u64 \<Rightarrow> u64 \<Rightarrow> bool" where
  "timer_due tick_nsec period now =
     (let period_ticks = period div tick_nsec in period_ticks = 0 \<or> now mod period_ticks = 0)"

definition kstep_period_timer_tick :: "'m kern \<Rightarrow> u64 \<Rightarrow> bw_timer \<Rightarrow> u64 \<Rightarrow> 'm tsys \<Rightarrow> 'm tsys" where
  "kstep_period_timer_tick K tick_nsec timer period s =
     (let s = s\<lparr>t_m := kn_cancel K timer (t_m s)\<rparr> in
      if timer_due tick_nsec period (kstep_jiffies_get (t_clock s))
      then t_act (A_fire timer) (kn_period_fn K timer) s else s)"

text \<open>\<open>rt\<close> is whether the kernel has \<open>CONFIG_RT_GROUP_SCHED\<close>.\<close>

definition kstep_bandwidth_group :: "'m kern \<Rightarrow> bool \<Rightarrow> u64 \<Rightarrow> nat \<Rightarrow> 'm tsys \<Rightarrow> 'm tsys" where
  "kstep_bandwidth_group K rt tick_nsec tg s =
     (let b = kn_bandwidth K (t_m s) tg;
          s = (if bw_cfs_active b then kstep_period_timer_tick K tick_nsec (Cfs_timer tg) (bw_cfs_period b) s else s);
          b = kn_bandwidth K (t_m s) tg in
      if rt \<and> bw_rt_active b then kstep_period_timer_tick K tick_nsec (Rt_timer tg) (bw_rt_period b) s else s)"

definition kstep_bandwidth_tick :: "'m kern \<Rightarrow> bool \<Rightarrow> u64 \<Rightarrow> 'm tsys \<Rightarrow> 'm tsys" where
  "kstep_bandwidth_tick K rt tick_nsec s =
     fold (kstep_bandwidth_group K rt tick_nsec) (kn_groups K (t_m s)) s"

text \<open>The parameters of a session: the test CPUs, the kernel's tick, the driver's interval.\<close>

record tick_conf =
  tc_ncpus :: nat
  tc_nsec :: u64
  tc_interval :: u64
  tc_rt :: bool

definition kstep_tick :: "'m kern \<Rightarrow> tick_conf \<Rightarrow> 'm tsys \<Rightarrow> 'm tsys run" where
  "kstep_tick K c s =
     bind_run (kstep_settle K (tc_ncpus c) s) (\<lambda>s.
     let s = t_emit K Tick_begin s;
         s = s\<lparr>t_clock := kstep_sched_clock_tick (tc_nsec c) (tc_interval c) (t_clock s), t_log := t_log s @ [A_clock]\<rparr> in
     bind_run (Some (kstep_jiffies_tick (t_clock s))) (\<lambda>ck.
     let s = s\<lparr>t_clock := ck, t_log := t_log s @ [A_jiffies]\<rparr>;
         s = fold (kstep_do_sched_tick K) (for_each_test_cpu (tc_ncpus c)) s in
     bind_run (kstep_settle K (tc_ncpus c) s) (\<lambda>s.
     let s = kstep_bandwidth_tick K (tc_rt c) (tc_nsec c) s in
     Some (Inr (t_emit K Tick_end s)))))"

fun kstep_tick_repeat :: "'m kern \<Rightarrow> tick_conf \<Rightarrow> nat \<Rightarrow> 'm tsys \<Rightarrow> 'm tsys run" where
  "kstep_tick_repeat K c 0 s = Some (Inr s)"
| "kstep_tick_repeat K c (Suc n) s = bind_run (kstep_tick K c s) (kstep_tick_repeat K c n)"

text \<open>\<open>fn\<close> is the driver's condition, \<open>None\<close> for a null pointer.\<close>

partial_function (option) kstep_tick_until ::
  "'m kern \<Rightarrow> tick_conf \<Rightarrow> ('m tsys \<Rightarrow> 'r option) \<Rightarrow> 'm tsys \<Rightarrow> ('r \<times> 'm tsys) run" where
  "kstep_tick_until K c fn s = (case fn s of Some r \<Rightarrow> Some (Inr (r, s))
     | None \<Rightarrow> (case kstep_tick K c s of None \<Rightarrow> None | Some (Inl e) \<Rightarrow> Some (Inl e)
         | Some (Inr s') \<Rightarrow> kstep_tick_until K c fn s'))"

section \<open>Waiting for a CPU\<close>

lemma wait_cpu_Some:
  assumes "wait_cpu K cpu m = Some m'"
  shows "kstep_cpu_settled K m' cpu \<and> (\<exists>k. m' = (kn_relax K ^^ k) m)"
proof -
  have "kstep_cpu_settled K m' cpu \<and> (\<exists>k. m' = (kn_relax K ^^ k) m)"
  proof (rule wait_cpu.raw_induct [OF _ assms])
    fix w :: "'a kern \<Rightarrow> nat \<Rightarrow> 'a \<Rightarrow> 'a option" and K cpu m m'
    assume IH: "\<And>K cpu m m'. w K cpu m = Some m' \<Longrightarrow> kstep_cpu_settled K m' cpu \<and> (\<exists>k. m' = (kn_relax K ^^ k) m)"
      and r: "(if kstep_cpu_settled K m cpu then Some m else w K cpu (kn_relax K m)) = Some m'"
    show "kstep_cpu_settled K m' cpu \<and> (\<exists>k. m' = (kn_relax K ^^ k) m)"
    proof (cases "kstep_cpu_settled K m cpu")
      case True
      then show ?thesis using r by (intro conjI exI [of _ 0]) simp_all
    next
      case False
      with r IH obtain k where "kstep_cpu_settled K m' cpu" "m' = (kn_relax K ^^ k) (kn_relax K m)" by fastforce
      then show ?thesis by (intro conjI exI [of _ "Suc k"]) (simp_all add: funpow_swap1)
    qed
  qed
  then show ?thesis .
qed

lemma wait_cpu_returns:
  "kstep_cpu_settled K ((kn_relax K ^^ k) m) cpu \<Longrightarrow> \<exists>m'. wait_cpu K cpu m = Some m'"
proof (induction k arbitrary: m)
  case 0
  then show ?case by (subst wait_cpu.simps) simp
next
  case (Suc k)
  then show ?case by (subst wait_cpu.simps) (simp add: funpow_swap1)
qed

text \<open>A CPU found settled stays so while the others are waited for.\<close>

definition settled_stable :: "'m kern \<Rightarrow> nat list \<Rightarrow> bool" where
  "settled_stable K cpus \<longleftrightarrow> (\<forall>m. \<forall>cpu \<in> set cpus. kstep_cpu_settled K m cpu \<longrightarrow> kstep_cpu_settled K (kn_relax K m) cpu)"

lemma settled_stable_funpow:
  "settled_stable K cpus \<Longrightarrow> cpu \<in> set cpus \<Longrightarrow> kstep_cpu_settled K m cpu \<Longrightarrow>
    kstep_cpu_settled K ((kn_relax K ^^ k) m) cpu"
  by (induction k) (auto simp: settled_stable_def)

lemma wait_cpus_Some:
  assumes "wait_cpus K cpus m = Some m'" "settled_stable K all" "set cpus \<subseteq> set all"
    "\<And>c. c \<in> set done \<Longrightarrow> c \<in> set all \<and> kstep_cpu_settled K m c"
  shows "\<forall>c \<in> set done \<union> set cpus. kstep_cpu_settled K m' c"
  using assms
proof (induction cpus arbitrary: m "done")
  case (Cons cpu cpus)
  then obtain m1 where m1: "wait_cpu K cpu m = Some m1" "wait_cpus K cpus m1 = Some m'"
    by (auto simp: Option.bind_eq_Some_conv)
  obtain k where k: "m1 = (kn_relax K ^^ k) m" "kstep_cpu_settled K m1 cpu"
    using wait_cpu_Some [OF m1(1)] by blast
  have "\<And>c. c \<in> set (cpu # done) \<Longrightarrow> c \<in> set all \<and> kstep_cpu_settled K m1 c"
    using Cons.prems settled_stable_funpow [OF Cons.prems(2), of _ m k] k by auto
  from Cons.IH [OF m1(2) Cons.prems(2) _ this, of "cpu # done"] Cons.prems(3) show ?case by auto
qed simp

lemma wait_cpus_returns:
  assumes "settled_stable K all" "set cpus \<subseteq> set all"
    "\<And>c. c \<in> set cpus \<Longrightarrow> \<exists>k. kstep_cpu_settled K ((kn_relax K ^^ k) m) c"
  shows "\<exists>m'. wait_cpus K cpus m = Some m'"
  using assms
proof (induction cpus arbitrary: m)
  case (Cons cpu cpus)
  obtain m1 where m1: "wait_cpu K cpu m = Some m1"
    using Cons.prems(3) [of cpu] wait_cpu_returns [of K _ m cpu] by auto
  obtain j where j: "m1 = (kn_relax K ^^ j) m" using wait_cpu_Some [OF m1] by blast
  have "\<exists>k. kstep_cpu_settled K ((kn_relax K ^^ k) m1) c" if c: "c \<in> set cpus" for c
  proof -
    obtain k where "kstep_cpu_settled K ((kn_relax K ^^ k) m) c" using Cons.prems(3) c by auto
    from settled_stable_funpow [OF Cons.prems(1) _ this, of j] c Cons.prems(2)
    have "kstep_cpu_settled K ((kn_relax K ^^ k) m1) c"
      by (auto simp: j funpow_add [symmetric, THEN fun_cong, simplified comp_def] add.commute)
    then show ?thesis ..
  qed
  with Cons.IH [of m1] Cons.prems(1,2) m1 show ?case by auto
qed simp

section \<open>What a tick does to the clocks and the log\<close>

lemma t_act_fields [simp]: "t_clock (t_act a f s) = t_clock s" "t_log (t_act a f s) = t_log s @ [a]"
  by (simp_all add: t_act_def)

lemma t_emit_fields [simp]: "t_clock (t_emit K e s) = t_clock s" "t_log (t_emit K e s) = t_log s @ [A_emit e]"
  by (simp_all add: t_emit_def)

lemma kstep_settle_Inr:
  assumes "kstep_settle K n s = Some (Inr s')"
  shows "t_clock s' = t_clock s \<and> t_log s' = t_log s @ [A_settled, A_emit Settle]"
  using assms by (auto simp: kstep_settle_def split: option.splits)

lemma kstep_settle_not_Inl [simp]: "kstep_settle K n s \<noteq> Some (Inl e)"
  by (auto simp: kstep_settle_def split: option.splits)

definition cpu_acts :: "nat \<Rightarrow> bool \<Rightarrow> tick_act list" where
  "cpu_acts cpu pend = A_sched_tick cpu #
     (if pend then [A_emit (Softirq_begin cpu), A_softirq cpu, A_emit (Softirq_end cpu)] else [])"

lemma kstep_do_sched_tick_fields:
  "t_clock (kstep_do_sched_tick K cpu s) = t_clock s"
  "t_log (kstep_do_sched_tick K cpu s) =
     t_log s @ cpu_acts cpu (kn_pending K (kn_sched_tick K cpu (t_m s)) cpu AND SCHED_SOFTIRQ_BIT \<noteq> 0)"
  by (simp_all add: kstep_do_sched_tick_def cpu_acts_def Let_def t_act_def)

lemma sched_ticks_fields:
  "t_clock (fold (kstep_do_sched_tick K) cpus s) = t_clock s \<and>
   (\<exists>pends. length pends = length cpus \<and>
     t_log (fold (kstep_do_sched_tick K) cpus s) = t_log s @ concat (map2 cpu_acts cpus pends))"
proof (induction cpus arbitrary: s)
  case (Cons cpu cpus)
  let ?s = "kstep_do_sched_tick K cpu s"
  obtain pends where "t_clock (fold (kstep_do_sched_tick K) cpus ?s) = t_clock ?s"
    "length pends = length cpus"
    "t_log (fold (kstep_do_sched_tick K) cpus ?s) = t_log ?s @ concat (map2 cpu_acts cpus pends)"
    using Cons [of ?s] by blast
  then show ?case
    by (simp add: kstep_do_sched_tick_fields)
      (intro exI [of _ "_ # pends"], simp)
qed simp

lemma kstep_period_timer_tick_fields:
  "t_clock (kstep_period_timer_tick K nsec tm p s) = t_clock s"
  "\<exists>fires. set fires \<subseteq> range A_fire \<and> t_log (kstep_period_timer_tick K nsec tm p s) = t_log s @ fires"
  by (auto simp: kstep_period_timer_tick_def Let_def)

lemma kstep_bandwidth_group_fields:
  "t_clock (kstep_bandwidth_group K rt nsec tg s) = t_clock s"
  "\<exists>fires. set fires \<subseteq> range A_fire \<and> t_log (kstep_bandwidth_group K rt nsec tg s) = t_log s @ fires"
proof -
  define b where "b = kn_bandwidth K (t_m s) tg"
  define s1 where "s1 = (if bw_cfs_active b then kstep_period_timer_tick K nsec (Cfs_timer tg) (bw_cfs_period b) s else s)"
  define b1 where "b1 = kn_bandwidth K (t_m s1) tg"
  have g: "kstep_bandwidth_group K rt nsec tg s =
      (if rt \<and> bw_rt_active b1 then kstep_period_timer_tick K nsec (Rt_timer tg) (bw_rt_period b1) s1 else s1)"
    by (simp add: kstep_bandwidth_group_def Let_def b_def s1_def b1_def)
  show "t_clock (kstep_bandwidth_group K rt nsec tg s) = t_clock s"
    by (simp add: g s1_def kstep_period_timer_tick_fields)
  obtain f1 where f1: "set f1 \<subseteq> range A_fire" "t_log s1 = t_log s @ f1"
    using kstep_period_timer_tick_fields(2) [of K nsec "Cfs_timer tg" "bw_cfs_period b" s]
    by (cases "bw_cfs_active b") (auto simp: s1_def)
  have "\<exists>f2. set f2 \<subseteq> range A_fire \<and> t_log (kstep_bandwidth_group K rt nsec tg s) = t_log s1 @ f2"
    using kstep_period_timer_tick_fields(2) [of K nsec "Rt_timer tg" "bw_rt_period b1" s1]
    unfolding g by (cases "rt \<and> bw_rt_active b1") simp_all
  then obtain f2 where "set f2 \<subseteq> range A_fire" "t_log (kstep_bandwidth_group K rt nsec tg s) = t_log s1 @ f2"
    by blast
  with f1 show "\<exists>fires. set fires \<subseteq> range A_fire \<and> t_log (kstep_bandwidth_group K rt nsec tg s) = t_log s @ fires"
    by (intro exI [of _ "f1 @ f2"]) auto
qed

lemma kstep_bandwidth_tick_fields:
  "t_clock (kstep_bandwidth_tick K rt nsec s) = t_clock s \<and>
   (\<exists>fires. set fires \<subseteq> range A_fire \<and> t_log (kstep_bandwidth_tick K rt nsec s) = t_log s @ fires)"
proof -
  have "t_clock (fold (kstep_bandwidth_group K rt nsec) gs s) = t_clock s \<and>
     (\<exists>fires. set fires \<subseteq> range A_fire \<and> t_log (fold (kstep_bandwidth_group K rt nsec) gs s) = t_log s @ fires)" for gs
  proof (induction gs arbitrary: s)
    case (Cons g gs)
    let ?s = "kstep_bandwidth_group K rt nsec g s"
    obtain f1 where f1: "set f1 \<subseteq> range A_fire" "t_log ?s = t_log s @ f1"
      using kstep_bandwidth_group_fields(2) by blast
    obtain f2 where "set f2 \<subseteq> range A_fire" "t_log (fold (kstep_bandwidth_group K rt nsec) gs ?s) = t_log ?s @ f2"
      using Cons [of ?s] by blast
    with f1 show ?case using Cons [of ?s] kstep_bandwidth_group_fields(1) [of K rt nsec g s]
      by (auto intro!: exI [of _ "f1 @ f2"])
  qed simp
  then show ?thesis by (simp add: kstep_bandwidth_tick_def)
qed

definition tick_log :: "nat \<Rightarrow> bool list \<Rightarrow> tick_act list \<Rightarrow> tick_act list" where
  "tick_log ncpus pends fires =
     [A_settled, A_emit Settle, A_emit Tick_begin, A_clock, A_jiffies] @
     concat (map2 cpu_acts (for_each_test_cpu ncpus) pends) @
     [A_settled, A_emit Settle] @ fires @ [A_emit Tick_end]"

lemma kstep_tick_Inr:
  assumes "kstep_tick K c s = Some (Inr s')"
  shows "clock_tick (tc_nsec c) (tc_interval c) (t_clock s) = Inr (t_clock s') \<and>
    (\<exists>pends fires. length pends = tc_ncpus c \<and> set fires \<subseteq> range A_fire \<and>
       t_log s' = t_log s @ tick_log (tc_ncpus c) pends fires)"
proof -
  let ?n = "tc_ncpus c"
  obtain s1 where s1: "kstep_settle K ?n s = Some (Inr s1)"
    using assms by (auto simp: kstep_tick_def bind_run_returns)
  define s2 where "s2 = t_emit K Tick_begin s1"
  define s3 where "s3 = s2\<lparr>t_clock := kstep_sched_clock_tick (tc_nsec c) (tc_interval c) (t_clock s2),
    t_log := t_log s2 @ [A_clock]\<rparr>"
  obtain ck where ck: "kstep_jiffies_tick (t_clock s3) = Inr ck"
    using assms s1 by (auto simp: kstep_tick_def bind_run_returns Let_def s2_def s3_def)
  define s4 where "s4 = s3\<lparr>t_clock := ck, t_log := t_log s3 @ [A_jiffies]\<rparr>"
  define s5 where "s5 = fold (kstep_do_sched_tick K) (for_each_test_cpu ?n) s4"
  obtain s6 where s6: "kstep_settle K ?n s5 = Some (Inr s6)"
    and s': "s' = t_emit K Tick_end (kstep_bandwidth_tick K (tc_rt c) (tc_nsec c) s6)"
    using assms s1 ck unfolding s5_def s4_def s3_def s2_def
    by (auto simp: kstep_tick_def bind_run_returns Let_def)
  obtain pends where p: "length pends = length (for_each_test_cpu ?n)"
      "t_log s5 = t_log s4 @ concat (map2 cpu_acts (for_each_test_cpu ?n) pends)" "t_clock s5 = ck"
    using sched_ticks_fields [of K "for_each_test_cpu ?n" s4] by (auto simp: s5_def s4_def)
  obtain fires where f: "set fires \<subseteq> range A_fire"
      "t_log (kstep_bandwidth_tick K (tc_rt c) (tc_nsec c) s6) = t_log s6 @ fires"
    using kstep_bandwidth_tick_fields [of K "tc_rt c" "tc_nsec c" s6] by blast
  have "t_clock s' = ck"
    using kstep_bandwidth_tick_fields [of K "tc_rt c" "tc_nsec c" s6] kstep_settle_Inr [OF s6] p(3)
    by (simp add: s')
  then have "clock_tick (tc_nsec c) (tc_interval c) (t_clock s) = Inr (t_clock s')"
    using ck kstep_settle_Inr [OF s1] by (simp add: clock_tick_def s3_def s2_def)
  moreover have "t_log s' = t_log s @ tick_log ?n pends fires"
    using p(2) f(2) kstep_settle_Inr [OF s1] kstep_settle_Inr [OF s6]
    by (simp add: s' s4_def s3_def s2_def tick_log_def)
  moreover have "length pends = ?n" using p(1) by (simp add: for_each_test_cpu_def)
  ultimately show ?thesis using f(1) by blast
qed

lemma kstep_tick_no_panic: "clock_inv (t_clock s) \<Longrightarrow> kstep_tick K c s \<noteq> Some (Inl e)"
proof
  assume i: "clock_inv (t_clock s)" and p: "kstep_tick K c s = Some (Inl e)"
  obtain s1 where s1: "kstep_settle K (tc_ncpus c) s = Some (Inr s1)"
    using p by (cases "kstep_settle K (tc_ncpus c) s")
      (auto simp: kstep_tick_def bind_run_def split: sum.splits)
  have "clock_inv (t_clock s1)" using kstep_settle_Inr [OF s1] i by simp
  then have "kstep_jiffies_tick (kstep_sched_clock_tick (tc_nsec c) (tc_interval c) (t_clock s1)) =
      Inr (kstep_jiffies_set (ck_kstep_jiffies (t_clock s1) + 1)
        (kstep_sched_clock_tick (tc_nsec c) (tc_interval c) (t_clock s1)))"
    by (simp add: kstep_jiffies_tick_def kstep_sched_clock_tick_def clock_inv_def)
  with p s1 show False
    by (auto simp: kstep_tick_def Let_def bind_run_def split: option.splits sum.splits)
qed

lemma kstep_tick_clock_inv:
  "clock_inv (t_clock s) \<Longrightarrow> kstep_tick K c s = Some (Inr s') \<Longrightarrow> clock_inv (t_clock s')"
  using kstep_tick_Inr clock_tick_inv by blast

section \<open>What ticking promises\<close>

text \<open>
  C16. Settled means every CPU: where a CPU found settled stays so until the controller acts again,
  and each test CPU does settle, \<open>kstep_settle\<close> returns, and the callbacks of its event run in a
  state where every test CPU at once has no pending wakeup or reschedule and is idle with an empty
  queue or halted in a settled task.
\<close>

theorem settle_waits_for_all:
  assumes "settled_stable K (for_each_test_cpu ncpus)"
    and "\<And>cpu. cpu \<in> set (for_each_test_cpu ncpus) \<Longrightarrow> \<exists>k. kstep_cpu_settled K ((kn_relax K ^^ k) (t_m s)) cpu"
  shows "\<exists>s' m. kstep_settle K ncpus s = Some (Inr s') \<and> t_m s' = kn_emit K Settle m \<and>
    (\<forall>cpu \<in> set (for_each_test_cpu ncpus). kstep_cpu_settled K m cpu)"
proof -
  obtain m where m: "wait_cpus K (for_each_test_cpu ncpus) (t_m s) = Some m"
    using wait_cpus_returns [OF assms(1) order_refl assms(2)] by blast
  then have "\<forall>cpu \<in> set (for_each_test_cpu ncpus). kstep_cpu_settled K m cpu"
    using wait_cpus_Some [OF m assms(1) order_refl, of "[]"] by simp
  with m show ?thesis by (auto simp: kstep_settle_def t_emit_def t_act_def)
qed

definition idle_view :: rq_view where
  "idle_view = \<lparr>rv_curr = 0, rv_pid = 0, rv_idle = 0, rv_nr_running = 0, rv_ttwu_pending = False,
     rv_need_resched = False, rv_need_resched_lazy = False, rv_sigpending = False\<rparr>"

text \<open>A machine of which only the runqueues matter; its state counts the controller's spins.\<close>

definition demo_kern :: "(nat \<Rightarrow> nat \<Rightarrow> rq_view) \<Rightarrow> nat kern" where
  "demo_kern rq = \<lparr>kn_sched_tick = (\<lambda>_ m. m), kn_softirq = (\<lambda>_ m. m), kn_pending = (\<lambda>_ _. 0),
     kn_set_pending = (\<lambda>_ _ m. m), kn_groups = (\<lambda>_. []),
     kn_bandwidth = (\<lambda>_ _. \<lparr>bw_cfs_active = False, bw_cfs_period = 0, bw_rt_active = False, bw_rt_period = 0\<rparr>),
     kn_cancel = (\<lambda>_ m. m), kn_period_fn = (\<lambda>_ m. m), kn_relax = Suc, kn_rq = rq,
     kn_tasks = (\<lambda>_. Map.empty), kn_emit = (\<lambda>_ m. m)\<rparr>"

definition demo_tsys :: "nat tsys" where
  "demo_tsys = \<lparr>t_m = 0, t_clock = \<lparr>ck_sched = 4000000, ck_kstep_jiffies = 0, ck_offset = 1, ck_jiffies = 1\<rparr>,
     t_log = []\<rparr>"

text \<open>The CPUs of the witness: each has a reschedule pending until the third spin.\<close>

definition slow_cpus :: "nat \<Rightarrow> nat \<Rightarrow> rq_view" where
  "slow_cpus m cpu = idle_view\<lparr>rv_need_resched := m < 3\<rparr>"

lemma slow_cpus_settled: "kstep_cpu_settled (demo_kern slow_cpus) m cpu \<longleftrightarrow> 3 \<le> m"
  by (auto simp: kstep_cpu_settled_def demo_kern_def slow_cpus_def idle_view_def Let_def)

lemma demo_kern_relax [simp]: "kn_relax (demo_kern rq) = Suc"
  by (simp add: demo_kern_def)

lemma demo_kern_emit [simp]: "kn_emit (demo_kern rq) e m = m"
  by (simp add: demo_kern_def)

lemma slow_cpus_stable: "settled_stable (demo_kern slow_cpus) cpus"
  by (simp add: settled_stable_def slow_cpus_settled)

lemma slow_cpus_eventually: "\<exists>k. kstep_cpu_settled (demo_kern slow_cpus) ((kn_relax (demo_kern slow_cpus) ^^ k) m) cpu"
  by (intro exI [of _ 3]) (simp add: slow_cpus_settled)

theorem settle_waits_for_all_witness:
  "\<exists>s' m. kstep_settle (demo_kern slow_cpus) 2 demo_tsys = Some (Inr s') \<and>
    t_m s' = kn_emit (demo_kern slow_cpus) Settle m \<and> kstep_cpu_settled (demo_kern slow_cpus) m 1"
  using settle_waits_for_all [OF slow_cpus_stable slow_cpus_eventually, of 2 demo_tsys]
  by (force simp: for_each_test_cpu_def)

text \<open>CPU 1 idle until a task on CPU 2 wakes its reader, CPU 2 busy until then.\<close>

definition pipe_cpus :: "nat \<Rightarrow> nat \<Rightarrow> rq_view" where
  "pipe_cpus m cpu =
     (if cpu = 1 then idle_view\<lparr>rv_ttwu_pending := (m = 1), rv_nr_running := (if m = 0 then 0 else 1)\<rparr>
      else idle_view\<lparr>rv_need_resched := (m = 0)\<rparr>)"

text \<open>
  The stability is needed: \<open>kstep_settle\<close> looks at each CPU once, in order. When the task
  still acting on CPU 2 wakes a reader on CPU 1 after CPU 1 was passed as idle, the settle returns
  with a wakeup pending on CPU 1.
\<close>

theorem settle_can_miss_a_wakeup:
  "\<exists>s'. kstep_settle (demo_kern pipe_cpus) 2 demo_tsys = Some (Inr s') \<and>
     rv_ttwu_pending (kn_rq (demo_kern pipe_cpus) (t_m s') 1) \<and>
     \<not> kstep_cpu_settled (demo_kern pipe_cpus) (t_m s') 1"
proof -
  have c1: "kstep_cpu_settled (demo_kern pipe_cpus) m 1 \<longleftrightarrow> m = 0"
    and c2: "kstep_cpu_settled (demo_kern pipe_cpus) m 2 \<longleftrightarrow> m \<noteq> 0" for m
    by (auto simp: kstep_cpu_settled_def demo_kern_def pipe_cpus_def idle_view_def Let_def)
  have "wait_cpu (demo_kern pipe_cpus) 1 0 = Some 0" 
    by (subst wait_cpu.simps) (simp add: c1 del: One_nat_def)
  moreover have "wait_cpu (demo_kern pipe_cpus) 2 0 = Some 1"
    by (subst wait_cpu.simps, simp add: c2) (subst wait_cpu.simps, simp add: c2)
  moreover have "for_each_test_cpu 2 = [1, 2]" by (simp add: for_each_test_cpu_def upt_rec)
  ultimately have "wait_cpus (demo_kern pipe_cpus) (for_each_test_cpu 2) 0 = Some 1" by simp
  then show ?thesis
    by (simp add: kstep_settle_def demo_tsys_def t_emit_def t_act_def c1 del: One_nat_def)
      (simp add: demo_kern_def pipe_cpus_def)
qed

text \<open>A machine that, left alone, settles, and stays settled.\<close>

definition settles :: "'m kern \<Rightarrow> nat \<Rightarrow> bool" where
  "settles K ncpus \<longleftrightarrow> settled_stable K (for_each_test_cpu ncpus) \<and>
     (\<forall>m. \<forall>cpu \<in> set (for_each_test_cpu ncpus). \<exists>k. kstep_cpu_settled K ((kn_relax K ^^ k) m) cpu)"

lemma settles_settle: "settles K ncpus \<Longrightarrow> \<exists>s'. kstep_settle K ncpus s = Some (Inr s')"
proof -
  assume a: "settles K ncpus"
  then obtain m where "wait_cpus K (for_each_test_cpu ncpus) (t_m s) = Some m"
    using wait_cpus_returns [of K "for_each_test_cpu ncpus" "for_each_test_cpu ncpus" "t_m s"]
    by (auto simp: settles_def)
  then show ?thesis by (simp add: kstep_settle_def)
qed

lemma settles_tick:
  assumes "settles K (tc_ncpus c)" "clock_inv (t_clock s)"
  shows "\<exists>s'. kstep_tick K c s = Some (Inr s')"
proof -
  have ns: "kstep_settle K (tc_ncpus c) s \<noteq> None" for s
    using settles_settle [OF assms(1), of s] by auto
  have "kstep_tick K c s \<noteq> None"
    unfolding kstep_tick_def Let_def by (intro bind_run_not_None ns allI) simp_all
  then show ?thesis using kstep_tick_no_panic [OF assms(2), of K c]
    by (metis not_None_eq sum.exhaust)
qed

lemma count_cpu_acts: "count_list (cpu_acts cpu b) (A_sched_tick c) = (if c = cpu then 1 else 0)"
  by (simp add: cpu_acts_def)

lemma count_cpus_acts:
  "length pends = length cpus \<Longrightarrow> distinct cpus \<Longrightarrow>
    count_list (concat (map2 cpu_acts cpus pends)) (A_sched_tick c) = (if c \<in> set cpus then 1 else 0)"
proof (induction pends cpus rule: list_induct2)
  case (Cons b bs cpu cpus)
  then show ?case by (auto simp: count_list_append count_cpu_acts)
qed simp

lemma count_fires: "set fires \<subseteq> range A_fire \<Longrightarrow> count_list fires (A_sched_tick c) = 0"
  by (auto simp: count_list_0_iff)

lemma count_tick_log:
  assumes "length pends = ncpus" "set fires \<subseteq> range A_fire"
  shows "count_list (tick_log ncpus pends fires) (A_sched_tick c) = (if c \<in> set (for_each_test_cpu ncpus) then 1 else 0)"
proof -
  have "length pends = length (for_each_test_cpu ncpus)" "distinct (for_each_test_cpu ncpus)"
    using assms(1) by (simp_all add: for_each_test_cpu_def)
  from count_cpus_acts [OF this] count_fires [OF assms(2)] show ?thesis
    by (simp add: tick_log_def count_list_append)
qed

lemma tick_repeat_result:
  assumes "settles K (tc_ncpus c)" "clock_inv (t_clock s)"
  shows "\<exists>s'. kstep_tick_repeat K c n s = Some (Inr s') \<and> clock_inv (t_clock s') \<and>
    ck_kstep_jiffies (t_clock s') = ck_kstep_jiffies (t_clock s) + of_nat n \<and>
    ck_sched (t_clock s') = ck_sched (t_clock s) +
      of_nat n * (if tc_interval c \<noteq> 0 then tc_interval c else tc_nsec c) \<and>
    (\<forall>cpu. count_list (t_log s') (A_sched_tick cpu) = count_list (t_log s) (A_sched_tick cpu) +
      (if cpu \<in> set (for_each_test_cpu (tc_ncpus c)) then n else 0))"
  using assms(2)
proof (induction n arbitrary: s)
  case (Suc n)
  obtain s1 where s1: "kstep_tick K c s = Some (Inr s1)" using settles_tick [OF assms(1) Suc.prems] by blast
  have i: "clock_inv (t_clock s1)" by (rule kstep_tick_clock_inv [OF Suc.prems s1])
  have "t_clock s1 = (t_clock s)\<lparr>ck_sched := ck_sched (t_clock s) +
      (if tc_interval c \<noteq> 0 then tc_interval c else tc_nsec c),
      ck_kstep_jiffies := ck_kstep_jiffies (t_clock s) + 1, ck_jiffies := ck_jiffies (t_clock s) + 1\<rparr>"
    using kstep_tick_Inr [OF s1] by (simp add: clock_tick_eq [OF Suc.prems])
  then have ck: "ck_kstep_jiffies (t_clock s1) = ck_kstep_jiffies (t_clock s) + 1"
    "ck_sched (t_clock s1) = ck_sched (t_clock s) + (if tc_interval c \<noteq> 0 then tc_interval c else tc_nsec c)"
    by simp_all
  have ct: "count_list (t_log s1) (A_sched_tick cpu) = count_list (t_log s) (A_sched_tick cpu) +
      (if cpu \<in> set (for_each_test_cpu (tc_ncpus c)) then 1 else 0)" for cpu
    using kstep_tick_Inr [OF s1] by (auto simp: count_list_append count_tick_log)
  from Suc.IH [OF i] s1 ck ct show ?case by (auto simp: algebra_simps)
qed simp

text \<open>
  C2. Ticking keeps time: on a machine that settles, any number of ticks returns without a panic,
  and after \<open>n\<close> of them the mocked jiffies have advanced by \<open>n\<close>, the scheduler clock by
  \<open>n\<close> intervals (the driver's, or the kernel's tick), the kernel's jiffies still agree, and the
  scheduler tick has run \<open>n\<close> times on every test CPU and never on another.
\<close>

theorem ticks_keep_time:
  assumes "settles K (tc_ncpus c)" "ck_jiffies (t_clock s) = ck_kstep_jiffies (t_clock s) + ck_offset (t_clock s)"
    and "t_log s = []"
  shows "\<exists>s'. kstep_tick_repeat K c n s = Some (Inr s') \<and>
    ck_jiffies (t_clock s') = ck_kstep_jiffies (t_clock s') + ck_offset (t_clock s') \<and>
    ck_kstep_jiffies (t_clock s') = ck_kstep_jiffies (t_clock s) + of_nat n \<and>
    ck_sched (t_clock s') = ck_sched (t_clock s) +
      of_nat n * (if tc_interval c \<noteq> 0 then tc_interval c else tc_nsec c) \<and>
    (\<forall>cpu. count_list (t_log s') (A_sched_tick cpu) = (if 1 \<le> cpu \<and> cpu \<le> tc_ncpus c then n else 0))"
  using tick_repeat_result [OF assms(1), of s n] assms(2,3)
  by (auto simp: clock_inv_def for_each_test_cpu_def)

definition demo_conf :: tick_conf where
  "demo_conf = \<lparr>tc_ncpus = 2, tc_nsec = 4000000, tc_interval = 0, tc_rt = False\<rparr>"

lemma slow_settles: "settles (demo_kern slow_cpus) n"
  by (simp add: settles_def slow_cpus_stable slow_cpus_eventually del: demo_kern_relax)

theorem ticks_keep_time_witness:
  "\<exists>s'. kstep_tick_repeat (demo_kern slow_cpus) demo_conf 5 demo_tsys = Some (Inr s') \<and>
    ck_kstep_jiffies (t_clock s') = 5 \<and> ck_sched (t_clock s') = 24000000 \<and>
    count_list (t_log s') (A_sched_tick 2) = 5 \<and> count_list (t_log s') (A_sched_tick 0) = 0"
proof -
  have "ck_jiffies (t_clock demo_tsys) = ck_kstep_jiffies (t_clock demo_tsys) + ck_offset (t_clock demo_tsys)"
    "t_log demo_tsys = []" by (simp_all add: demo_tsys_def)
  from ticks_keep_time [OF slow_settles this, where c = demo_conf and n = 5]
  show ?thesis by (auto simp: demo_conf_def demo_tsys_def)
qed



text \<open>
  A bandwidth period timer of \<open>p\<close> whole ticks fires exactly once in every \<open>p\<close>
  consecutive ticks of the mocked clock (before its 64 bits wrap), whatever tick it starts on.
\<close>

theorem period_timer_fires_once_per_period:
  assumes "unat period div unat nsec = p" "0 < p" "nsec \<noteq> 0" "unat now + p < 2 ^ 64"
  shows "card {i \<in> {1..p}. timer_due nsec period (now + of_nat i)} = 1"
proof -
  have ticks: "unat (period div nsec) = p" using assms(1) by (simp add: unat_div_distrib)
  have due: "timer_due nsec period (now + of_nat i) \<longleftrightarrow> p dvd unat now + i" if "i \<in> {1..p}" for i
  proof -
    have "unat (now + of_nat i) = unat now + i"
      using that assms(4) by (subst unat_word_ariths) (simp add: unat_of_nat mod_less)
    then have "unat ((now + of_nat i) mod (period div nsec)) = (unat now + i) mod p"
      by (simp add: unat_mod_distrib ticks)
    moreover have "period div nsec \<noteq> 0" using ticks assms(2) by auto
    ultimately show ?thesis
      by (metis timer_due_def mod_eq_0_iff_dvd unat_eq_zero)
  qed
  have "{i \<in> {1..p}. timer_due nsec period (now + of_nat i)} = {i \<in> {1..p}. p dvd unat now + i}"
    using due by blast
  also have "\<dots> = {p - unat now mod p}"
  proof
    have "p dvd unat now + (p - unat now mod p)"
    proof -
      have "unat now + (p - unat now mod p) = p * (unat now div p) + p"
        using mult_div_mod_eq [of p "unat now"] mod_less_divisor [OF assms(2), of "unat now"] by linarith
      then show ?thesis by simp
    qed
    then show "{p - unat now mod p} \<subseteq> {i \<in> {1..p}. p dvd unat now + i}"
      using assms(2) by (auto simp: Suc_le_eq)
    show "{i \<in> {1..p}. p dvd unat now + i} \<subseteq> {p - unat now mod p}"
    proof
      fix i assume "i \<in> {i \<in> {1..p}. p dvd unat now + i}"
      then have "p dvd unat now mod p + i" "1 \<le> i" "i \<le> p" by (simp_all add: dvd_eq_mod_eq_0 mod_simps)
      moreover have "unat now mod p < p" using assms(2) by simp
      moreover obtain k where k: "unat now mod p + i = p * k"
        using \<open>p dvd unat now mod p + i\<close> by (rule dvdE)
      ultimately have "0 < p * k" "p * k < p * 2" by linarith+
      then have "k = 1" by auto
      then show "i \<in> {p - unat now mod p}" using k by simp
    qed
  qed
  finally show ?thesis by simp
qed

theorem period_timer_fires_once_per_period_witness:
  "card {i \<in> {1..25}. timer_due 4000000 100000000 (7 + of_nat i)} = 1"
  by (rule period_timer_fires_once_per_period) simp_all

lemma tick_until_Some:
  fixes K :: "'a kern" and fn :: "'a tsys \<Rightarrow> 'b option"
  assumes "kstep_tick_until K c fn s = Some (Inr (r, s'))"
  shows "\<exists>n. kstep_tick_repeat K c n s = Some (Inr s') \<and> fn s' = Some r \<and>
    (\<forall>k < n. \<exists>u. kstep_tick_repeat K c k s = Some (Inr u) \<and> fn u = None)"
proof -
  obtain v where v: "v = Inr (r, s')" "kstep_tick_until K c fn s = Some v" using assms by blast
  have "\<forall>r s'. v = Inr (r, s') \<longrightarrow> (\<exists>n. kstep_tick_repeat K c n s = Some (Inr s') \<and> fn s' = Some r \<and>
      (\<forall>k < n. \<exists>u. kstep_tick_repeat K c k s = Some (Inr u) \<and> fn u = None))"
  proof (rule kstep_tick_until.raw_induct [OF _ v(2)])
    fix w :: "'a kern \<Rightarrow> tick_conf \<Rightarrow> ('a tsys \<Rightarrow> 'b option) \<Rightarrow> 'a tsys \<Rightarrow> ('b \<times> 'a tsys) run" and K c fn s v
    assume IH: "\<And>K c fn s v. w K c fn s = Some v \<Longrightarrow> \<forall>r s'. v = Inr (r, s') \<longrightarrow> (\<exists>n. kstep_tick_repeat K c n s = Some (Inr s') \<and> fn s' = Some r \<and>
      (\<forall>k < n. \<exists>u. kstep_tick_repeat K c k s = Some (Inr u) \<and> fn u = None))"
      and r: "(case fn s of Some r \<Rightarrow> Some (Inr (r, s))
         | None \<Rightarrow> (case kstep_tick K c s of None \<Rightarrow> None | Some (Inl e) \<Rightarrow> Some (Inl e)
         | Some (Inr s') \<Rightarrow> w K c fn s')) = Some v"
    show "\<forall>r s'. v = Inr (r, s') \<longrightarrow> (\<exists>n. kstep_tick_repeat K c n s = Some (Inr s') \<and> fn s' = Some r \<and>
      (\<forall>k < n. \<exists>u. kstep_tick_repeat K c k s = Some (Inr u) \<and> fn u = None))"
    proof (intro allI impI)
      fix r s' assume v: "v = Inr (r, s')"
      show "\<exists>n. kstep_tick_repeat K c n s = Some (Inr s') \<and> fn s' = Some r \<and>
        (\<forall>k < n. \<exists>u. kstep_tick_repeat K c k s = Some (Inr u) \<and> fn u = None)"
      proof (cases "fn s")
        case None
        then obtain s1 where s1: "kstep_tick K c s = Some (Inr s1)" "w K c fn s1 = Some (Inr (r, s'))"
          using r v by (auto split: option.splits sum.splits)
        then obtain n where n: "kstep_tick_repeat K c n s1 = Some (Inr s')" "fn s' = Some r"
          "\<forall>k < n. \<exists>u. kstep_tick_repeat K c k s1 = Some (Inr u) \<and> fn u = None" using IH by blast
        have "\<exists>u. kstep_tick_repeat K c k s = Some (Inr u) \<and> fn u = None" if "k < Suc n" for k
          using that n(3) s1(1) None by (cases k) auto
        then show ?thesis using n s1(1) by (intro exI [of _ "Suc n"]) simp
      next
        case (Some a)
        then show ?thesis using r v by (intro exI [of _ 0]) simp
      qed
    qed
  qed
  with v(1) show ?thesis by blast
qed

lemma tick_until_returns:
  "kstep_tick_repeat K c n s = Some (Inr s') \<Longrightarrow> fn s' = Some r \<Longrightarrow>
    (\<And>k. k < n \<Longrightarrow> \<exists>u. kstep_tick_repeat K c k s = Some (Inr u) \<and> fn u = None) \<Longrightarrow>
    kstep_tick_until K c fn s = Some (Inr (r, s'))"
proof (induction n arbitrary: s)
  case 0
  then show ?case by (subst kstep_tick_until.simps) simp
next
  case (Suc n)
  then obtain s1 where s1: "kstep_tick K c s = Some (Inr s1)" "kstep_tick_repeat K c n s1 = Some (Inr s')"
    by (auto simp: bind_run_returns)
  have "fn s = None" using Suc.prems(3) [of 0] by simp
  moreover have "\<exists>u. kstep_tick_repeat K c k s1 = Some (Inr u) \<and> fn u = None" if "k < n" for k
    using Suc.prems(3) [of "Suc k"] that s1(1) by simp
  ultimately show ?case using Suc.IH [OF s1(2) Suc.prems(2)] s1(1)
    by (subst kstep_tick_until.simps) simp
qed

text \<open>
  \<open>kstep_tick_until\<close> returns exactly when some number of ticks makes its condition true, and
  then it has stopped at the first such tick and returns what the condition gave there.
\<close>

theorem tick_until_first:
  "kstep_tick_until K c fn s = Some (Inr (r, s')) \<longleftrightarrow>
     (\<exists>n. kstep_tick_repeat K c n s = Some (Inr s') \<and> fn s' = Some r \<and>
       (\<forall>k < n. \<exists>u. kstep_tick_repeat K c k s = Some (Inr u) \<and> fn u = None))"
  (is "?A \<longleftrightarrow> ?B")
proof
  assume ?A
  from tick_until_Some [OF this] show ?B .
next
  assume ?B
  then obtain n where "kstep_tick_repeat K c n s = Some (Inr s')" "fn s' = Some r"
    "\<And>k. k < n \<Longrightarrow> \<exists>u. kstep_tick_repeat K c k s = Some (Inr u) \<and> fn u = None" by blast
  then show ?A by (rule tick_until_returns)
qed

theorem tick_until_first_witness:
  "\<exists>s'. kstep_tick_until (demo_kern slow_cpus) demo_conf
     (\<lambda>s. if ck_kstep_jiffies (t_clock s) = 1 then Some True else None) demo_tsys = Some (Inr (True, s'))"
proof -
  let ?fn = "\<lambda>s. if ck_kstep_jiffies (t_clock s) = 1 then Some True else None"
  have i: "clock_inv (t_clock demo_tsys)" "ck_kstep_jiffies (t_clock demo_tsys) = 0"
    by (simp_all add: clock_inv_def demo_tsys_def)
  obtain s' where "kstep_tick_repeat (demo_kern slow_cpus) demo_conf 1 demo_tsys = Some (Inr s')"
    "ck_kstep_jiffies (t_clock s') = 1"
    using tick_repeat_result [OF slow_settles i(1), of demo_conf 1] i(2) by (auto simp del: kstep_tick_repeat.simps)
  moreover have "\<forall>k < 1. \<exists>u. kstep_tick_repeat (demo_kern slow_cpus) demo_conf k demo_tsys = Some (Inr u) \<and> ?fn u = None"
    using i(2) by simp
  ultimately show ?thesis
    using tick_until_first [of "demo_kern slow_cpus" demo_conf ?fn demo_tsys True s'] by force
qed

end
