(* ===== verification/Cstr.thy ===== *)
theory Cstr
  imports Prelude
begin

text \<open>
  The C string functions the command parser (kmod/cli.c) and the topology parser (kmod/cpu.c) use,
  on strings without the terminating 0, and the two kernel parsers they call, which are parameters:
  \<open>kstrtoint\<close> (base 10; \<open>None\<close> for its error) and \<open>cpulist_parse\<close> (the CPUs of a list such
  as \<open>1-2,4\<close>; \<open>None\<close> for its error).
\<close>

record klib =
  kstrtoint :: "string \<Rightarrow> int option"
  cpulist_parse :: "string \<Rightarrow> nat set option"

text \<open>What the kernel documents of \<open>kstrtoint\<close>: a result fits an int.\<close>

definition klib_ok :: "klib \<Rightarrow> bool" where
  "klib_ok L \<longleftrightarrow> (\<forall>s n. kstrtoint L s = Some n \<longrightarrow> - (2 ^ 31) \<le> n \<and> n < 2 ^ 31)"

text \<open>A C string ends at its first 0.\<close>

definition cstr :: "string \<Rightarrow> string" where
  "cstr s = takeWhile (\<lambda>c. c \<noteq> CHR 0x00) s"

definition isspace :: "char \<Rightarrow> bool" where
  "isspace c \<longleftrightarrow> c \<in> {CHR '' '', CHR 0x09, CHR 0x0A, CHR 0x0B, CHR 0x0C, CHR 0x0D, CHR 0xA0}"

text \<open>\<open>strim\<close>: without its leading and trailing white space.\<close>

definition strim :: "string \<Rightarrow> string" where
  "strim s = dropWhile isspace (rev (dropWhile isspace (rev s)))"

text \<open>
  \<open>strsep\<close> on a non-null cursor: the token up to the first delimiter, and the cursor after it
  (\<open>None\<close>, the null pointer, when there was no delimiter).
\<close>

definition strsep :: "char set \<Rightarrow> string \<Rightarrow> string \<times> string option" where
  "strsep d s = (takeWhile (\<lambda>c. c \<notin> d) s,
     case dropWhile (\<lambda>c. c \<notin> d) s of [] \<Rightarrow> None | _ # r \<Rightarrow> Some r)"

lemma strsep_shorter: "strsep d s = (t, Some r) \<Longrightarrow> length r < length s"
proof -
  assume a: "strsep d s = (t, Some r)"
  then obtain c where "dropWhile (\<lambda>c. c \<notin> d) s = c # r"
    by (auto simp: strsep_def split: list.splits)
  then show ?thesis using length_dropWhile_le [of "\<lambda>c. c \<notin> d" s] by simp
qed

text \<open>The loop \<open>while ((token = strsep(&cursor, d)))\<close>: every token, in order.\<close>

function strsep_all :: "char set \<Rightarrow> string \<Rightarrow> string list" where
  "strsep_all d s = (case strsep d s of (t, None) \<Rightarrow> [t] | (t, Some r) \<Rightarrow> t # strsep_all d r)"
  by pat_completeness auto
termination
  by (relation "measure (\<lambda>(_, s). length s)") (auto dest: strsep_shorter [OF sym] strsep_shorter)

declare strsep_all.simps [simp del]

text \<open>\<open>strchr\<close>: the text before the first \<open>c\<close> and the text after it.\<close>

definition strchr_split :: "char \<Rightarrow> string \<Rightarrow> (string \<times> string) option" where
  "strchr_split c s = (case dropWhile (\<lambda>x. x \<noteq> c) s of [] \<Rightarrow> None
     | _ # r \<Rightarrow> Some (takeWhile (\<lambda>x. x \<noteq> c) s, r))"

definition strstarts :: "string \<Rightarrow> string \<Rightarrow> bool" where
  "strstarts s prefix = (take (length prefix) s = prefix)"

fun strstr :: "string \<Rightarrow> string \<Rightarrow> bool" where
  "strstr [] pat = (pat = [])"
| "strstr (c # s) pat = (strstarts (c # s) pat \<or> strstr s pat)"

text \<open>\<open>strscpy\<close> and \<open>snprintf\<close> into \<open>n\<close> bytes keep \<open>n - 1\<close> of the text.\<close>

definition strscpy :: "nat \<Rightarrow> string \<Rightarrow> string" where
  "strscpy n s = take (n - 1) s"

lemma strim_ends: "strim s \<noteq> [] \<Longrightarrow> \<not> isspace (hd (strim s)) \<and> \<not> isspace (last (strim s))"
proof -
  assume ne: "strim s \<noteq> []"
  let ?u = "rev (dropWhile isspace (rev s))"
  have h: "\<not> isspace (hd (strim s))" using ne unfolding strim_def by (rule hd_dropWhile)
  have "last (strim s) = last ?u"
    using ne unfolding strim_def by (metis last_append takeWhile_dropWhile_id)
  moreover have "dropWhile isspace (rev s) \<noteq> []"
  proof
    assume "dropWhile isspace (rev s) = []"
    then show False using ne by (simp only: strim_def) simp
  qed
  ultimately show ?thesis using h hd_dropWhile [of isspace "rev s"] by (simp add: last_rev)
qed

lemma strsep_token: "strsep d s = (t, r) \<Longrightarrow> set t \<inter> d = {}"
  by (auto simp: strsep_def dest: set_takeWhileD)

lemma strsep_join: "strsep d s = (t, Some r) \<Longrightarrow> \<exists>c \<in> d. s = t @ c # r"
proof -
  assume a: "strsep d s = (t, Some r)"
  then obtain c where c: "dropWhile (\<lambda>c. c \<notin> d) s = c # r" "t = takeWhile (\<lambda>c. c \<notin> d) s"
    by (auto simp: strsep_def split: list.splits)
  then have "c \<in> d" using hd_dropWhile [of "\<lambda>c. c \<notin> d" s] by simp
  then show ?thesis using c takeWhile_dropWhile_id [of "\<lambda>c. c \<notin> d" s] by metis
qed

text \<open>The tokens by recursion on the text, for evaluation.\<close>

lemma strsep_all_Nil [simp]: "strsep_all d [] = [[]]"
  by (subst strsep_all.simps) (simp add: strsep_def)

lemma strsep_all_Cons [simp]:
  "strsep_all d (c # s) = (if c \<in> d then [] # strsep_all d s
     else (c # hd (strsep_all d s)) # tl (strsep_all d s))"
proof -
  have "strsep_all d s = takeWhile (\<lambda>c. c \<notin> d) s #
      (case dropWhile (\<lambda>c. c \<notin> d) s of [] \<Rightarrow> [] | _ # r \<Rightarrow> strsep_all d r)" for s
    by (subst strsep_all.simps, cases "dropWhile (\<lambda>c. c \<notin> d) s") 
      (simp_all add: strsep_def del: dropWhile_eq_Nil_conv)
  from this [of s] this [of "c # s"] show ?thesis
    by (cases "dropWhile (\<lambda>c. c \<notin> d) s") (simp_all del: dropWhile_eq_Nil_conv)
qed

text \<open>An instance of the two parsers, for numbers and for lists of single-digit CPUs.\<close>

definition demo_digit :: "char \<Rightarrow> bool" where
  "demo_digit c \<longleftrightarrow> 48 \<le> (of_char c :: nat) \<and> (of_char c :: nat) \<le> 57"

definition demo_klib :: klib where
  "demo_klib = \<lparr>kstrtoint = (\<lambda>s. if s \<noteq> [] \<and> length s < 10 \<and> list_all demo_digit s
       then Some (fold (\<lambda>c n. 10 * n + (of_char c - 48)) s 0) else None),
     cpulist_parse = (\<lambda>s. if s \<noteq> [] \<and> list_all (\<lambda>c. demo_digit c \<or> c = CHR '','') s
       then Some (set (map (\<lambda>c. of_char c - 48) (filter demo_digit s))) else None)\<rparr>"

lemma demo_fold_bound:
  "list_all demo_digit s \<Longrightarrow> 0 \<le> (n :: int) \<Longrightarrow> n < 10 ^ k \<Longrightarrow>
    0 \<le> fold (\<lambda>c n. 10 * n + (of_char c - 48)) s n \<and> fold (\<lambda>c n. 10 * n + (of_char c - 48)) s n < 10 ^ (k + length s)"
proof (induction s arbitrary: n k)
  case (Cons c s)
  have "(48 :: nat) \<le> of_char c" "of_char c \<le> (57 :: nat)" using Cons.prems(1) by (simp_all add: demo_digit_def)
  then have d: "(48 :: int) \<le> of_char c" "of_char c \<le> (57 :: int)"
    by (metis of_nat_le_iff of_nat_numeral of_nat_of_char)+
  have "0 \<le> 10 * n + (of_char c - 48)" "10 * n + (of_char c - 48) < 10 ^ Suc k"
    using Cons.prems(2,3) d by (simp_all)
  from Cons.IH [OF _ this] Cons.prems(1) show ?case by simp
qed simp

lemma demo_klib_ok: "klib_ok demo_klib"
  unfolding klib_ok_def
proof (intro allI impI)
  fix s n assume "kstrtoint demo_klib s = Some n"
  then have s: "list_all demo_digit s" "length s \<le> 9" and n: "n = fold (\<lambda>c n. 10 * n + (of_char c - 48)) s 0"
    by (auto simp: demo_klib_def split: if_splits)
  have "0 \<le> n \<and> n < 10 ^ length s" using demo_fold_bound [OF s(1), of 0 0] by (simp add: n)
  moreover have "(10 :: int) ^ length s \<le> 10 ^ 9" using s(2) by (intro power_increasing) simp_all
  ultimately show "- (2 ^ 31) \<le> n \<and> n < 2 ^ 31" by simp
qed

end
