(* ===== verification/Topo.thy ===== *)
theory Topo
  imports Cstr
begin

text \<open>
  The topology specification (kmod/cpu.c): which CPUs are test CPUs, how they group at each level,
  their capacities. A specification is text, parsed and applied in one go. CPU masks are sets of CPU
  numbers. The kernel's topology table starts with masks of its own and is pointed at kSTEP's.
\<close>

section \<open>State\<close>

datatype topo_level = KSTEP_TOPO_SMT | KSTEP_TOPO_CLS | KSTEP_TOPO_MC | KSTEP_TOPO_PKG | KSTEP_TOPO_NODE

text \<open>A level's mask function: the machine's own, or kSTEP's for a level.\<close>

datatype mask_fn = Machine_masks "nat \<Rightarrow> nat set" | Kstep_masks topo_level

text \<open>How the kernel keeps a CPU's capacity: three variants of \<open>set_cap\<close>.\<close>

datatype cap_config = Cap_generic | Cap_hybrid | Cap_fixed

record slice_tunable =
  sl_name :: string
  sl_sysctl :: u32
  sl_normalized :: u32

record topo =
  tp_ncpus :: nat
  tp_masks :: "topo_level \<Rightarrow> nat \<Rightarrow> nat set"
  tp_table :: "(string \<times> mask_fn) list"
  tp_caps :: "nat \<Rightarrow> int"
  tp_siblings :: "nat \<Rightarrow> nat set"
  tp_rebuilds :: nat
  tp_slices :: "slice_tunable list"
  tp_looked_up :: bool

record machine =
  mc_online :: nat
  mc_cap :: cap_config

abbreviation KSTEP_NR_CPUS :: nat where "KSTEP_NR_CPUS \<equiv> 32"
abbreviation SCHED_CAPACITY_SCALE :: int where "SCHED_CAPACITY_SCALE \<equiv> 1024"
abbreviation CPU_SPEC_LEN :: nat where "CPU_SPEC_LEN \<equiv> 512"

definition topo_mask :: "topo \<Rightarrow> mask_fn \<Rightarrow> nat \<Rightarrow> nat set" where
  "topo_mask t f cpu = (case f of Machine_masks m \<Rightarrow> m cpu | Kstep_masks l \<Rightarrow> tp_masks t l cpu)"

definition topo_level_names :: "(string \<times> topo_level) list" where
  "topo_level_names = [(''SMT'', KSTEP_TOPO_SMT), (''CLS'', KSTEP_TOPO_CLS), (''MC'', KSTEP_TOPO_MC),
     (''PKG'', KSTEP_TOPO_PKG), (''NODE'', KSTEP_TOPO_NODE)]"

definition get_topo_level :: "string \<Rightarrow> topo_level option" where
  "get_topo_level name = (case map_of topo_level_names name of Some l \<Rightarrow> Some l
     | None \<Rightarrow> if name = ''DIE'' then Some KSTEP_TOPO_PKG else None)"

definition test_set :: "topo \<Rightarrow> nat set" where
  "test_set t = {1..tp_ncpus t}"

section \<open>The machine's own topology\<close>

text \<open>One level: each online CPU's mask, then the table's entry pointed at kSTEP's masks.\<close>

definition topo_init_level :: "nat \<Rightarrow> string \<times> mask_fn \<Rightarrow> topo \<Rightarrow> topo outcome" where
  "topo_init_level online lv t = (case get_topo_level (fst lv) of
     None \<Rightarrow> Inl ''Unknown topology level %s''
   | Some level \<Rightarrow>
       let m = (\<lambda>cpu. if cpu < online
                      then (if cpu \<notin> test_set t then {cpu} else topo_mask t (snd lv) cpu \<inter> test_set t)
                      else tp_masks t level cpu) in
       Inr (t\<lparr>tp_masks := (tp_masks t)(level := m),
               tp_table := tp_table t @ [(fst lv, Kstep_masks level)]\<rparr>))"

text \<open>The loop over the table, which it rewrites entry by entry.\<close>

definition topo_init :: "nat \<Rightarrow> topo \<Rightarrow> topo outcome" where
  "topo_init online t = fold_outcome (topo_init_level online) (tp_table t) (t\<lparr>tp_table := []\<rparr>)"

section \<open>Parsing\<close>

definition kstep_parse_cpus :: "klib \<Rightarrow> nat \<Rightarrow> string option \<Rightarrow> nat set option" where
  "kstep_parse_cpus L ncpus list = (case list of None \<Rightarrow> None
   | Some l \<Rightarrow> (case cpulist_parse L l of None \<Rightarrow> None
     | Some cpus \<Rightarrow> if cpus \<noteq> {} \<and> 0 \<notin> cpus \<and> (\<forall>c \<in> cpus. c \<le> ncpus) then Some cpus else None))"

definition topo_parse_group :: "klib \<Rightarrow> nat \<Rightarrow> string \<Rightarrow> nat set \<Rightarrow> string + (nat set \<times> nat set)" where
  "topo_parse_group L ncpus list seen = (case kstep_parse_cpus L ncpus (Some list) of
     None \<Rightarrow> Inl ''bad cpulist: test CPUs 1..CPUS only''
   | Some grp \<Rightarrow> if grp \<inter> seen \<noteq> {} then Inl ''a CPU is named twice under one key''
       else Inr (grp, seen \<union> grp))"

text \<open>
  The groups of one key: \<open>f\<close> is the masks of the level or the capacities being filled. An error
  leaves what the groups before it wrote.
\<close>

definition cap_group :: "klib \<Rightarrow> string \<Rightarrow> string + (string \<times> int)" where
  "cap_group L list = (case strchr_split CHR '':'' list of None \<Rightarrow> Inl ''CAP groups are cpulist:scale''
   | Some (l, val) \<Rightarrow> (case kstrtoint L val of None \<Rightarrow> Inl ''capacity is not in 1..1024''
     | Some scale \<Rightarrow> if scale < 1 \<or> scale > SCHED_CAPACITY_SCALE then Inl ''capacity is not in 1..1024''
         else Inr (l, scale)))"

fun topo_caps :: "klib \<Rightarrow> nat \<Rightarrow> string list \<Rightarrow> nat set \<Rightarrow> (nat \<Rightarrow> int) \<Rightarrow> string option \<times> (nat \<Rightarrow> int)" where
  "topo_caps L ncpus [] seen caps = (None, caps)"
| "topo_caps L ncpus (l0 # rest) seen caps = (case cap_group L l0 of Inl e \<Rightarrow> (Some e, caps)
   | Inr (l, scale) \<Rightarrow> (case topo_parse_group L ncpus l seen of Inl e \<Rightarrow> (Some e, caps)
     | Inr (grp, seen') \<Rightarrow>
         topo_caps L ncpus rest seen' (\<lambda>cpu. if cpu \<in> grp then scale else caps cpu)))"

fun topo_groups :: "klib \<Rightarrow> nat \<Rightarrow> string list \<Rightarrow> nat set \<Rightarrow> (nat \<Rightarrow> nat set) \<Rightarrow> string option \<times> (nat \<Rightarrow> nat set)" where
  "topo_groups L ncpus [] seen m = (None, m)"
| "topo_groups L ncpus (l0 # rest) seen m = (case topo_parse_group L ncpus l0 seen of
     Inl e \<Rightarrow> (Some e, m)
   | Inr (grp, seen') \<Rightarrow> topo_groups L ncpus rest seen' (\<lambda>cpu. if cpu \<in> grp then grp else m cpu))"

definition topo_set_key :: "klib \<Rightarrow> string \<Rightarrow> string \<Rightarrow> topo \<times> (nat \<Rightarrow> int) \<Rightarrow> string option \<times> topo \<times> (nat \<Rightarrow> int)" where
  "topo_set_key L key groups tc = (let (t, caps) = tc; rest = strsep_all {CHR ''|''} groups in
     if key = ''CPUS'' then (None, t, caps)
     else if key = ''CAP'' then
       (let (e, caps') = topo_caps L (tp_ncpus t) rest {} caps in (e, t, caps'))
     else case get_topo_level key of None \<Rightarrow> (Some ''unknown key (a level, CAP or CPUS)'', t, caps)
       | Some level \<Rightarrow>
           let alone = (\<lambda>cpu. if cpu \<in> test_set t then {cpu} else tp_masks t level cpu);
               (e, m) = topo_groups L (tp_ncpus t) rest {} alone in
           (e, t\<lparr>tp_masks := (tp_masks t)(level := m)\<rparr>, caps))"

text \<open>The number of test CPUs a specification asks for; \<open>None\<close> for -1.\<close>

fun topo_cpus_loop :: "klib \<Rightarrow> nat \<Rightarrow> string list \<Rightarrow> nat \<Rightarrow> nat option" where
  "topo_cpus_loop L online [] n = Some n"
| "topo_cpus_loop L online (entry # entries) n =
     (if \<not> strstarts entry ''CPUS='' then topo_cpus_loop L online entries n
      else case kstrtoint L (drop 5 entry) of None \<Rightarrow> None
        | Some k \<Rightarrow> if k < 1 \<or> k > int online - 1 then None
                    else topo_cpus_loop L online entries (nat k))"

definition topo_cpus :: "klib \<Rightarrow> nat \<Rightarrow> string \<Rightarrow> nat option" where
  "topo_cpus L online spec =
     topo_cpus_loop L online (strsep_all {CHR '';''} (strscpy CPU_SPEC_LEN spec)) (online - 1)"

section \<open>The fair class's tunables\<close>

fun ilog2 :: "nat \<Rightarrow> nat" where
  "ilog2 n = (if n < 2 then 0 else Suc (ilog2 (n div 2)))"

declare ilog2.simps [simp del]

definition slice_factor :: "nat \<Rightarrow> u32" where
  "slice_factor cpus = of_nat (1 + ilog2 (min cpus 8))"

definition set_slice_scaling :: "nat \<Rightarrow> topo \<Rightarrow> topo outcome" where
  "set_slice_scaling online t = fold_outcome (\<lambda>s t.
     if \<not> tp_looked_up t \<and> sl_sysctl s \<noteq> sl_normalized s * slice_factor online
     then Inl ''sysctl_%s %u is not normalized %u * factor(%d): this kernel scales it differently''
     else Inr (t\<lparr>tp_slices := tp_slices t @ [s\<lparr>sl_sysctl := sl_normalized s * slice_factor (tp_ncpus t + 1)\<rparr>]\<rparr>))
     (tp_slices t) (t\<lparr>tp_slices := []\<rparr>)"

definition set_slice_scaling_done :: "nat \<Rightarrow> topo \<Rightarrow> topo outcome" where
  "set_slice_scaling_done online t =
     bind_outcome (set_slice_scaling online t) (\<lambda>t. Inr (t\<lparr>tp_looked_up := True\<rparr>))"

section \<open>Applying a specification\<close>

definition set_cap :: "machine \<Rightarrow> nat \<Rightarrow> int \<Rightarrow> topo \<Rightarrow> topo outcome" where
  "set_cap M cpu scale t = (case mc_cap M of
     Cap_fixed \<Rightarrow> if scale \<noteq> SCHED_CAPACITY_SCALE then Inl ''Setting CPU capacity is not supported for this kernel''
                  else Inr t
   | _ \<Rightarrow> Inr (t\<lparr>tp_caps := (tp_caps t)(cpu := scale)\<rparr>))"

fun topo_entries :: "klib \<Rightarrow> string list \<Rightarrow> topo \<times> (nat \<Rightarrow> int) \<Rightarrow> string option \<times> topo \<times> (nat \<Rightarrow> int)" where
  "topo_entries L [] tc = (None, tc)"
| "topo_entries L (entry # entries) tc =
     (if entry = [] then topo_entries L entries tc
      else case strsep {CHR ''=''} entry of
          (key, Some groups) \<Rightarrow>
            if groups = [] then (Some ''expected KEY=group|group'', tc)
            else (case topo_set_key L key groups tc of (Some e, tc') \<Rightarrow> (Some e, tc')
                  | (None, tc') \<Rightarrow> topo_entries L entries tc')
        | (_, None) \<Rightarrow> (Some ''expected KEY=group|group'', tc))"

text \<open>
  The capacities, the arch's sibling masks (which must say the same as SMT), the rebuild, and the
  tunables: what the kernel reads, changed only once the whole specification parsed.
\<close>

definition topo_apply :: "machine \<Rightarrow> topo \<Rightarrow> (nat \<Rightarrow> int) \<Rightarrow> topo outcome" where
  "topo_apply M t caps =
     bind_outcome (fold_outcome (\<lambda>cpu. set_cap M cpu (caps cpu)) [1..<Suc (tp_ncpus t)] t) (\<lambda>t.
     set_slice_scaling_done (mc_online M)
       (t\<lparr>tp_siblings := (\<lambda>cpu. if cpu < mc_online M then tp_masks t KSTEP_TOPO_SMT cpu else tp_siblings t cpu),
          tp_rebuilds := tp_rebuilds t + 1\<rparr>))"

text \<open>The error text (\<open>None\<close> for success) and the state, which an error leaves partly written.\<close>

definition kstep_topo_set :: "klib \<Rightarrow> machine \<Rightarrow> string \<Rightarrow> topo \<Rightarrow> (string option \<times> topo) outcome" where
  "kstep_topo_set L M spec t = (case topo_cpus L (mc_online M) spec of
     None \<Rightarrow> Inr (Some ''CPUS is not in 1..N-1'', t)
   | Some n \<Rightarrow>
       bind_outcome (topo_init (mc_online M) (t\<lparr>tp_ncpus := n\<rparr>)) (\<lambda>t.
       case topo_entries L (strsep_all {CHR '';''} (strscpy CPU_SPEC_LEN spec)) (t, \<lambda>_. SCHED_CAPACITY_SCALE) of
         (Some e, t', _) \<Rightarrow> Inr (Some e, t')
       | (None, t', caps) \<Rightarrow> bind_outcome (topo_apply M t' caps) (\<lambda>t. Inr (None, t))))"

definition kstep_cpu_init :: "klib \<Rightarrow> machine \<Rightarrow> topo \<Rightarrow> topo outcome" where
  "kstep_cpu_init L M t =
     (if mc_online M > KSTEP_NR_CPUS then Inl ''Number of online CPUs (%d) exceeds KSTEP_NR_CPUS (%d)''
      else bind_outcome (kstep_topo_set L M [] (t\<lparr>tp_ncpus := mc_online M - 1\<rparr>)) (\<lambda>(_, t). Inr t))"

section \<open>Masks that partition the CPUs\<close>

definition partitions :: "nat set \<Rightarrow> (nat \<Rightarrow> nat set) \<Rightarrow> bool" where
  "partitions S m \<longleftrightarrow> (\<forall>a \<in> S. a \<in> m a \<and> m a \<subseteq> S \<and> (\<forall>b \<in> m a. m b = m a))"

definition alone_outside :: "nat set \<Rightarrow> nat set \<Rightarrow> (nat \<Rightarrow> nat set) \<Rightarrow> bool" where
  "alone_outside S T m \<longleftrightarrow> (\<forall>a \<in> S - T. m a = {a})"

lemma partitionsI:
  assumes "\<And>a. a \<in> S \<Longrightarrow> a \<in> m a" "\<And>a. a \<in> S \<Longrightarrow> m a \<subseteq> S"
    "\<And>a b. a \<in> S \<Longrightarrow> b \<in> m a \<Longrightarrow> m b = m a"
  shows "partitions S m"
  unfolding partitions_def using assms by blast

lemma partitionsD:
  assumes "partitions S m" "a \<in> S"
  shows "a \<in> m a" "m a \<subseteq> S" "b \<in> m a \<Longrightarrow> m b = m a"
  using assms unfolding partitions_def by blast+

lemma partitions_cong:
  assumes "partitions S m" "\<And>a. a \<in> S \<Longrightarrow> m' a = m a"
  shows "partitions S m'"
proof (rule partitionsI)
  fix a b assume a: "a \<in> S" and b: "b \<in> m' a"
  then have "b \<in> m a" using assms(2) by simp
  then have "b \<in> S" "m b = m a" using partitionsD(2,3) [OF assms(1) a] by blast+
  then show "m' b = m' a" using assms(2) a by simp
qed (use assms(2) partitionsD(1,2) [OF assms(1)] in simp_all)

lemma partitions_restrict:
  assumes "partitions S m" "T \<subseteq> S"
  shows "partitions S (\<lambda>a. if a \<notin> T then {a} else m a \<inter> T)"
proof (rule partitionsI)
  fix a b assume a: "a \<in> S" and b: "b \<in> (if a \<notin> T then {a} else m a \<inter> T)"
  show "(if b \<notin> T then {b} else m b \<inter> T) = (if a \<notin> T then {a} else m a \<inter> T)"
    using b partitionsD(3) [OF assms(1) a, of b] by (cases "a \<in> T") simp_all
next
  fix a assume a: "a \<in> S"
  show "a \<in> (if a \<notin> T then {a} else m a \<inter> T)" using partitionsD(1) [OF assms(1) a] by simp
  show "(if a \<notin> T then {a} else m a \<inter> T) \<subseteq> S" using assms(2) a by auto
qed

lemma partitions_isolate:
  assumes "partitions S m" "alone_outside S T m"
  shows "partitions S (\<lambda>a. if a \<in> T then {a} else m a)"
proof (rule partitionsI)
  fix a b assume a: "a \<in> S" and b: "b \<in> (if a \<in> T then {a} else m a)"
  then have "b = a" using assms(2) by (cases "a \<in> T") (simp_all add: alone_outside_def)
  then show "(if b \<in> T then {b} else m b) = (if a \<in> T then {a} else m a)" by simp
qed (use assms(2) in \<open>auto simp: alone_outside_def\<close>)

lemma partitions_group:
  assumes "partitions S m" "g \<subseteq> S" "g \<inter> seen = {}" "\<forall>a \<in> S - seen. m a = {a}" "\<forall>a \<in> seen. m a \<subseteq> seen"
  shows "partitions S (\<lambda>a. if a \<in> g then g else m a)"
proof (rule partitionsI)
  fix a b assume a: "a \<in> S" and b: "b \<in> (if a \<in> g then g else m a)"
  show "(if b \<in> g then g else m b) = (if a \<in> g then g else m a)"
  proof (cases "a \<in> g")
    case False
    then have b: "b \<in> m a" using b by simp
    then have "b \<in> seen \<or> b = a" using a assms(4,5) by blast
    then have "b \<notin> g" using False assms(3) by blast
    then show ?thesis using False partitionsD(3) [OF assms(1) a b] by simp
  qed (use b in simp)
next
  fix a assume a: "a \<in> S"
  show "a \<in> (if a \<in> g then g else m a)" using partitionsD(1) [OF assms(1) a] by simp
  show "(if a \<in> g then g else m a) \<subseteq> S" using assms(2) partitionsD(2) [OF assms(1) a] by simp
qed

lemma partitions_inside:
  assumes "partitions S m" "alone_outside S T m" "T \<subseteq> S" "a \<in> T"
  shows "m a \<subseteq> T"
proof
  fix b assume b: "b \<in> m a"
  have a: "a \<in> S" "b \<in> S" "a \<in> m a" "m b = m a" using assms b by (auto simp: partitions_def)
  show "b \<in> T"
  proof (rule ccontr)
    assume "b \<notin> T"
    then have "m b = {b}" using assms(2) a by (simp add: alone_outside_def)
    then show False using a assms(4) \<open>b \<notin> T\<close> by auto
  qed
qed

lemma kstep_parse_cpus_Some:
  "kstep_parse_cpus L ncpus l = Some g \<Longrightarrow> g \<noteq> {} \<and> g \<subseteq> {1..ncpus}"
  by (auto simp: kstep_parse_cpus_def Suc_le_eq intro: gr0I split: option.splits if_splits)

lemma topo_parse_group_Inr:
  "topo_parse_group L ncpus l seen = Inr (g, seen') \<Longrightarrow> g \<noteq> {} \<and> g \<subseteq> {1..ncpus} \<and> g \<inter> seen = {} \<and> seen' = seen \<union> g"
  using kstep_parse_cpus_Some [of L ncpus "Some l"]
  by (auto simp: topo_parse_group_def split: option.splits if_splits)

text \<open>The groups written so far, with every CPU not yet named alone, are a partition.\<close>

lemma topo_groups_partitions:
  assumes "topo_groups L ncpus ls seen m = (e, m')" "partitions S m" "alone_outside S {1..ncpus} m"
    "{1..ncpus} \<subseteq> S" "seen \<subseteq> {1..ncpus}" "\<forall>a \<in> S - seen. m a = {a}" "\<forall>a \<in> seen. m a \<subseteq> seen"
  shows "partitions S m' \<and> alone_outside S {1..ncpus} m' \<and> (\<forall>a. a \<notin> {1..ncpus} \<longrightarrow> m' a = m a)"
  using assms
proof (induction ls arbitrary: seen m)
  case (Cons l ls)
  show ?case
  proof (cases "topo_parse_group L ncpus l seen")
    case (Inl err)
    then show ?thesis using Cons.prems by auto
  next
    case (Inr p)
    obtain g seen' where p: "p = (g, seen')" by (cases p)
    then have g: "g \<subseteq> {1..ncpus}" "g \<inter> seen = {}" "seen' = seen \<union> g"
      using topo_parse_group_Inr [of L ncpus l seen g seen'] Inr by auto
    let ?m = "\<lambda>a. if a \<in> g then g else m a"
    have r: "topo_groups L ncpus ls seen' ?m = (e, m')" using Cons.prems(1) Inr p by simp
    have "partitions S ?m"
      by (rule partitions_group [OF Cons.prems(2) _ g(2) Cons.prems(6,7)]) (use g(1) Cons.prems(4) in blast)
    moreover have "alone_outside S {1..ncpus} ?m" using Cons.prems(3) g by (auto simp: alone_outside_def)
    moreover have "\<forall>a \<in> S - seen'. ?m a = {a}" using Cons.prems(6) g by auto
    moreover have "\<forall>a \<in> seen'. ?m a \<subseteq> seen'" using Cons.prems(7) g by auto
    ultimately have "partitions S m' \<and> alone_outside S {1..ncpus} m' \<and> (\<forall>a. a \<notin> {1..ncpus} \<longrightarrow> m' a = ?m a)"
      using Cons.IH [OF r] Cons.prems(4,5) g by auto
    then show ?thesis using g by auto
  qed
qed auto

section \<open>The invariant of the topology\<close>

definition topo_wf :: "nat \<Rightarrow> topo \<Rightarrow> bool" where
  "topo_wf online t \<longleftrightarrow> 0 < online \<and> (\<forall>(n, f) \<in> set (tp_table t). partitions {0..<online} (topo_mask t f))"

definition level_isolated :: "nat \<Rightarrow> topo \<Rightarrow> topo_level \<Rightarrow> bool" where
  "level_isolated online t l \<longleftrightarrow> partitions {0..<online} (tp_masks t l) \<and>
     alone_outside {0..<online} (test_set t) (tp_masks t l)"

definition topo_isolated :: "nat \<Rightarrow> topo \<Rightarrow> bool" where
  "topo_isolated online t \<longleftrightarrow> tp_ncpus t < online \<and>
     (\<forall>(n, f) \<in> set (tp_table t). \<exists>l. get_topo_level n = Some l \<and> f = Kstep_masks l \<and> level_isolated online t l)"

text \<open>What the kernel reads besides the masks, and the number of test CPUs.\<close>

definition kernel_view :: "topo \<Rightarrow> (nat \<Rightarrow> int) \<times> (nat \<Rightarrow> nat set) \<times> nat \<times> slice_tunable list \<times> bool" where
  "kernel_view t = (tp_caps t, tp_siblings t, tp_rebuilds t, tp_slices t, tp_looked_up t)"

lemma topo_mask_simps [simp]:
  "topo_mask t (Machine_masks m) = m" "topo_mask t (Kstep_masks l) = tp_masks t l"
  "topo_mask (t\<lparr>tp_table := es\<rparr>) = topo_mask t"
  by (auto simp: topo_mask_def fun_eq_iff split: mask_fn.splits)

lemma topo_isolated_wf: "topo_isolated online t \<Longrightarrow> topo_wf online t"
proof -
  assume a: "topo_isolated online t"
  have "partitions {0..<online} (topo_mask t f)" if "(n, f) \<in> set (tp_table t)" for n f
  proof -
    obtain l where "f = Kstep_masks l" "level_isolated online t l"
      using a \<open>(n, f) \<in> set (tp_table t)\<close> unfolding topo_isolated_def by blast
    then show ?thesis by (simp add: level_isolated_def)
  qed
  then show ?thesis using a by (auto simp: topo_isolated_def topo_wf_def)
qed

lemma topo_init_level_Inr:
  assumes "topo_init_level online (n, f) t = Inr t'" "topo_isolated online t"
    "partitions {0..<online} (topo_mask t f)"
  shows "topo_isolated online t' \<and> kernel_view t' = kernel_view t \<and> tp_ncpus t' = tp_ncpus t \<and>
    map fst (tp_table t') = map fst (tp_table t) @ [n] \<and>
    (\<forall>g. partitions {0..<online} (topo_mask t g) \<longrightarrow> partitions {0..<online} (topo_mask t' g))"
proof -
  obtain l where l: "get_topo_level n = Some l"
    using assms(1) by (auto simp: topo_init_level_def split: option.splits)
  define m where "m = (\<lambda>cpu. if cpu < online
      then (if cpu \<notin> test_set t then {cpu} else topo_mask t f cpu \<inter> test_set t) else tp_masks t l cpu)"
  have t': "t' = t\<lparr>tp_masks := (tp_masks t)(l := m), tp_table := tp_table t @ [(n, Kstep_masks l)]\<rparr>"
    using assms(1) l unfolding topo_init_level_def Let_def m_def fst_conv snd_conv by simp
  have "test_set t \<subseteq> {0..<online}" using assms(2) by (auto simp: topo_isolated_def test_set_def)
  from partitions_restrict [OF assms(3) this] have pm: "partitions {0..<online} m"
    by (rule partitions_cong) (simp add: m_def)
  have am: "alone_outside {0..<online} (test_set t) m" by (simp add: alone_outside_def m_def)
  have iso: "level_isolated online t' l'" if "level_isolated online t l' \<or> l' = l" for l'
    using that pm am by (cases "l' = l") (auto simp: level_isolated_def t' test_set_def)
  have "topo_isolated online t'"
    using assms(2) l iso by (auto simp: topo_isolated_def t')
  moreover have "partitions {0..<online} (topo_mask t' g)" if "partitions {0..<online} (topo_mask t g)" for g
    using that pm by (cases g) (auto simp: t')
  ultimately show ?thesis by (simp add: t' kernel_view_def)
qed

lemma topo_init_fold:
  assumes "fold_outcome (topo_init_level online) es t = Inr t'" "topo_isolated online t"
    "\<forall>(n, f) \<in> set es. partitions {0..<online} (topo_mask t f)"
  shows "topo_isolated online t' \<and> kernel_view t' = kernel_view t \<and> tp_ncpus t' = tp_ncpus t \<and>
    map fst (tp_table t') = map fst (tp_table t) @ map fst es"
  using assms
proof (induction es arbitrary: t)
  case (Cons e es)
  obtain n f where e: "e = (n, f)" by (cases e)
  obtain u where u: "topo_init_level online (n, f) t = Inr u" "fold_outcome (topo_init_level online) es u = Inr t'"
    using Cons.prems(1) e by (auto simp: bind_outcome_Inr_iff)
  have "partitions {0..<online} (topo_mask t f)" using Cons.prems(3) e by simp
  note h = topo_init_level_Inr [OF u(1) Cons.prems(2) this]
  then have "\<forall>(n, f) \<in> set es. partitions {0..<online} (topo_mask u f)" using Cons.prems(3) by auto
  with Cons.IH [OF u(2)] h show ?case by (simp add: e)
qed simp

lemma topo_init_Inr:
  assumes "topo_init online t = Inr t'" "topo_wf online t" "tp_ncpus t < online"
  shows "topo_isolated online t' \<and> kernel_view t' = kernel_view t \<and> tp_ncpus t' = tp_ncpus t \<and>
    map fst (tp_table t') = map fst (tp_table t)"
proof -
  let ?t = "t\<lparr>tp_table := []\<rparr>"
  have "topo_isolated online ?t" using assms(3) by (simp add: topo_isolated_def)
  moreover have "\<forall>(n, f) \<in> set (tp_table t). partitions {0..<online} (topo_mask ?t f)"
    using assms(2) by (simp add: topo_wf_def)
  ultimately show ?thesis
    using topo_init_fold [of online "tp_table t" ?t t'] assms(1) by (simp add: topo_init_def kernel_view_def)
qed

lemma topo_set_key_inv:
  assumes "topo_set_key L key groups (t, caps) = (e, t', caps')" "topo_isolated online t"
  shows "topo_isolated online t' \<and> kernel_view t' = kernel_view t \<and> tp_ncpus t' = tp_ncpus t \<and>
    map fst (tp_table t') = map fst (tp_table t)"
proof (cases "key = ''CPUS'' \<or> key = ''CAP'' \<or> get_topo_level key = None")
  case True
  then have "t' = t" using assms(1) by (auto simp: topo_set_key_def Let_def split: prod.splits if_splits)
  then show ?thesis using assms(2) by simp
next
  case False
  then obtain l where l: "get_topo_level key = Some l" by auto
  let ?alone = "\<lambda>cpu. if cpu \<in> test_set t then {cpu} else tp_masks t l cpu"
  obtain m where m: "topo_groups L (tp_ncpus t) (strsep_all {CHR ''|''} groups) {} ?alone = (e, m)"
    and t': "t' = t\<lparr>tp_masks := (tp_masks t)(l := m)\<rparr>"
    using assms(1) False l by (auto simp: topo_set_key_def Let_def split: prod.splits)
  have sub: "{1..tp_ncpus t} \<subseteq> {0..<online}" using assms(2) by (auto simp: topo_isolated_def)
  have "level_isolated online t' l'" if i: "level_isolated online t l'" for l'
  proof (cases "l' = l")
    case True
    have p: "partitions {0..<online} (tp_masks t l)" "alone_outside {0..<online} (test_set t) (tp_masks t l)"
      using i True by (simp_all add: level_isolated_def)
    note pa = partitions_isolate [OF p]
    have "alone_outside {0..<online} {1..tp_ncpus t} ?alone" "\<forall>a \<in> {0..<online} - {}. ?alone a = {a}"
      using p(2) by (auto simp: alone_outside_def test_set_def)
    from topo_groups_partitions [OF m pa this(1) sub _ this(2)] True show ?thesis
      by (simp add: level_isolated_def t' test_set_def)
  qed (use i in \<open>simp add: level_isolated_def t' test_set_def\<close>)
  then have "topo_isolated online t'" using assms(2) by (fastforce simp: topo_isolated_def t')
  then show ?thesis by (simp add: t' kernel_view_def)
qed

lemma topo_entries_inv:
  assumes "topo_entries L es (t, caps) = (e, t', caps')" "topo_isolated online t"
  shows "topo_isolated online t' \<and> kernel_view t' = kernel_view t \<and> tp_ncpus t' = tp_ncpus t \<and>
    map fst (tp_table t') = map fst (tp_table t)"
  using assms
proof (induction es arbitrary: t caps)
  case (Cons en es)
  show ?case
  proof (cases "\<exists>key groups. en \<noteq> [] \<and> groups \<noteq> [] \<and> strsep {CHR ''=''} en = (key, Some groups)")
    case True
    then obtain key groups where k: "en \<noteq> []" "groups \<noteq> []" "strsep {CHR ''=''} en = (key, Some groups)" by blast
    obtain e1 t1 c1 where s: "topo_set_key L key groups (t, caps) = (e1, t1, c1)" by (cases "topo_set_key L key groups (t, caps)") auto
    note h = topo_set_key_inv [OF s Cons.prems(2)]
    show ?thesis using Cons.prems(1) Cons.IH [of t1 c1] h k s by (cases e1) auto
  next
    case False
    then show ?thesis using Cons.prems Cons.IH [of t caps]
      by (cases "strsep {CHR ''=''} en") (auto split: if_splits option.splits)
  qed
qed simp

section \<open>Applying: what changes and what does not\<close>

definition topo_shape :: "topo \<Rightarrow> nat \<times> (topo_level \<Rightarrow> nat \<Rightarrow> nat set) \<times> (string \<times> mask_fn) list" where
  "topo_shape t = (tp_ncpus t, tp_masks t, tp_table t)"

lemma topo_isolated_shape: "topo_shape t' = topo_shape t \<Longrightarrow> topo_isolated online t' = topo_isolated online t"
  by (simp add: topo_shape_def topo_isolated_def level_isolated_def test_set_def)

lemma set_cap_Inr:
  "set_cap M cpu scale t = Inr t' \<Longrightarrow> topo_shape t' = topo_shape t \<and> tp_slices t' = tp_slices t \<and>
    tp_looked_up t' = tp_looked_up t \<and> tp_caps t' = (if mc_cap M = Cap_fixed then tp_caps t else (tp_caps t)(cpu := scale))"
  by (auto simp: set_cap_def topo_shape_def split: cap_config.splits if_splits)

lemma set_caps_Inr:
  "fold_outcome (\<lambda>cpu. set_cap M cpu (caps cpu)) cpus t = Inr t' \<Longrightarrow>
    topo_shape t' = topo_shape t \<and> tp_slices t' = tp_slices t \<and> tp_looked_up t' = tp_looked_up t \<and>
    tp_caps t' = (\<lambda>cpu. if mc_cap M \<noteq> Cap_fixed \<and> cpu \<in> set cpus then caps cpu else tp_caps t cpu)"
proof (induction cpus arbitrary: t)
  case (Cons cpu cpus)
  then obtain u where u: "set_cap M cpu (caps cpu) t = Inr u"
    "fold_outcome (\<lambda>cpu. set_cap M cpu (caps cpu)) cpus u = Inr t'" by (auto simp: bind_outcome_Inr_iff)
  from Cons.IH [OF u(2)] set_cap_Inr [OF u(1)] show ?case by (auto simp: fun_eq_iff)
qed auto

definition rescaled :: "topo \<Rightarrow> slice_tunable \<Rightarrow> slice_tunable" where
  "rescaled t s = s\<lparr>sl_sysctl := sl_normalized s * slice_factor (tp_ncpus t + 1)\<rparr>"

lemma set_slice_scaling_Inr:
  assumes "set_slice_scaling_done online t = Inr t'"
  shows "topo_shape t' = topo_shape t \<and> tp_caps t' = tp_caps t \<and> tp_siblings t' = tp_siblings t \<and>
    tp_rebuilds t' = tp_rebuilds t \<and> tp_slices t' = map (rescaled t) (tp_slices t) \<and> tp_looked_up t'"
proof -
  let ?f = "\<lambda>s t. if \<not> tp_looked_up t \<and> sl_sysctl s \<noteq> sl_normalized s * slice_factor online
     then Inl ''sysctl_%s %u is not normalized %u * factor(%d): this kernel scales it differently''
     else Inr (t\<lparr>tp_slices := tp_slices t @ [s\<lparr>sl_sysctl := sl_normalized s * slice_factor (tp_ncpus t + 1)\<rparr>]\<rparr>)"
  have "u' = u\<lparr>tp_slices := tp_slices u @ map (rescaled u) ss\<rparr>" if "fold_outcome ?f ss u = Inr u'" for ss u u'
    using that
  proof (induction ss arbitrary: u)
    case (Cons s ss)
    then have "fold_outcome ?f ss (u\<lparr>tp_slices := tp_slices u @ [rescaled u s]\<rparr>) = Inr u'"
      by (auto simp: rescaled_def split: if_splits)
    from Cons.IH [OF this] show ?case by (simp add: rescaled_def)
  qed simp
  from this [of "tp_slices t" "t\<lparr>tp_slices := []\<rparr>"] assms show ?thesis
    by (auto simp: set_slice_scaling_done_def set_slice_scaling_def bind_outcome_Inr_iff topo_shape_def rescaled_def)
qed

lemma topo_apply_Inr:
  assumes "topo_apply M t caps = Inr t'"
  shows "topo_shape t' = topo_shape t \<and> tp_rebuilds t' \<noteq> 0 \<and> tp_looked_up t' \<and>
    tp_caps t' = (\<lambda>cpu. if mc_cap M \<noteq> Cap_fixed \<and> cpu \<in> test_set t then caps cpu else tp_caps t cpu) \<and>
    (\<forall>cpu < mc_online M. tp_siblings t' cpu = tp_masks t KSTEP_TOPO_SMT cpu) \<and>
    tp_slices t' = map (rescaled t) (tp_slices t)"
proof -
  obtain u where u: "fold_outcome (\<lambda>cpu. set_cap M cpu (caps cpu)) [1..<Suc (tp_ncpus t)] t = Inr u"
    and v: "set_slice_scaling_done (mc_online M)
       (u\<lparr>tp_siblings := (\<lambda>cpu. if cpu < mc_online M then tp_masks u KSTEP_TOPO_SMT cpu else tp_siblings u cpu),
          tp_rebuilds := tp_rebuilds u + 1\<rparr>) = Inr t'"
    using assms by (auto simp: topo_apply_def bind_outcome_Inr_iff simp del: upt_Suc)
  have "set [1..<Suc (tp_ncpus t)] = test_set t" by (auto simp: test_set_def)
  then show ?thesis using set_caps_Inr [OF u] set_slice_scaling_Inr [OF v]
    by (auto simp: topo_shape_def rescaled_def fun_eq_iff)
qed

lemma topo_cpus_bound:
  assumes "topo_cpus L online spec = Some n" "0 < online"
  shows "n < online"
proof -
  have "topo_cpus_loop L online es k = Some n \<Longrightarrow> k < online \<Longrightarrow> n < online" for es k
    by (induction es arbitrary: k) (auto split: if_splits option.splits)
  then show ?thesis using assms by (auto simp: topo_cpus_def)
qed

text \<open>Everything a call does, by whether and where it failed.\<close>

lemma kstep_topo_set_cases:
  assumes "kstep_topo_set L M spec t = Inr (e, t')" "topo_wf (mc_online M) t"
  obtains (cpus) "e = Some ''CPUS is not in 1..N-1''" "t' = t"
  | (entries) n where "topo_cpus L (mc_online M) spec = Some n" "e \<noteq> None"
      "topo_isolated (mc_online M) t'" "kernel_view t' = kernel_view t" "tp_ncpus t' = n"
      "map fst (tp_table t') = map fst (tp_table t)"
  | (applied) n u u0 caps where "topo_cpus L (mc_online M) spec = Some n" "e = None"
      "topo_isolated (mc_online M) u" "kernel_view u = kernel_view t" "tp_ncpus u = n"
      "map fst (tp_table u) = map fst (tp_table t)" "topo_apply M u caps = Inr t'"
      "topo_entries L (strsep_all {CHR '';''} (strscpy CPU_SPEC_LEN spec)) (u0, \<lambda>_. SCHED_CAPACITY_SCALE) = (None, u, caps)"
      "tp_ncpus u0 = n"
proof (cases "topo_cpus L (mc_online M) spec")
  case None
  then show ?thesis using assms(1) cpus by (simp add: kstep_topo_set_def)
next
  case (Some n)
  let ?es = "strsep_all {CHR '';''} (strscpy CPU_SPEC_LEN spec)"
  obtain u0 where u0: "topo_init (mc_online M) (t\<lparr>tp_ncpus := n\<rparr>) = Inr u0"
    using assms(1) Some by (auto simp: kstep_topo_set_def bind_outcome_Inr_iff)
  have n: "n < mc_online M" using topo_cpus_bound [OF Some] assms(2) by (simp add: topo_wf_def)
  have "topo_mask (t\<lparr>tp_ncpus := n\<rparr>) = topo_mask t"
    by (auto simp: topo_mask_def fun_eq_iff split: mask_fn.splits)
  then have "topo_wf (mc_online M) (t\<lparr>tp_ncpus := n\<rparr>)" using assms(2) by (simp add: topo_wf_def)
  then have i: "topo_isolated (mc_online M) u0" "kernel_view u0 = kernel_view t" "tp_ncpus u0 = n"
      "map fst (tp_table u0) = map fst (tp_table t)"
    using topo_init_Inr [OF u0] n by (simp_all add: kernel_view_def)
  obtain e1 u caps where r: "topo_entries L ?es (u0, \<lambda>_. SCHED_CAPACITY_SCALE) = (e1, u, caps)"
    by (cases "topo_entries L ?es (u0, \<lambda>_. SCHED_CAPACITY_SCALE)") auto
  note h = topo_entries_inv [OF r i(1)]
  show ?thesis
  proof (cases e1)
    case None
    then have "e = None" "topo_apply M u caps = Inr t'"
      using assms(1) Some u0 r by (auto simp: kstep_topo_set_def bind_outcome_Inr_iff)
    then show ?thesis using applied [OF Some, of u caps u0] h i r None by simp
  next
    case (Some x)
    then have "e \<noteq> None" "t' = u"
      using assms(1) \<open>topo_cpus L (mc_online M) spec = Some n\<close> u0 r by (auto simp: kstep_topo_set_def)
    then show ?thesis using entries [OF \<open>topo_cpus L (mc_online M) spec = Some n\<close>] h i by simp
  qed
qed

lemma level_isolated_masks:
  assumes "level_isolated online t l" "tp_ncpus t < online"
  shows "(\<forall>cpu < online. cpu \<notin> {1..tp_ncpus t} \<longrightarrow> tp_masks t l cpu = {cpu}) \<and>
    (\<forall>a \<in> {1..tp_ncpus t}. a \<in> tp_masks t l a \<and> tp_masks t l a \<subseteq> {1..tp_ncpus t} \<and>
       (\<forall>b \<in> tp_masks t l a. tp_masks t l b = tp_masks t l a))"
proof -
  have p: "partitions {0..<online} (tp_masks t l)" "alone_outside {0..<online} {1..tp_ncpus t} (tp_masks t l)"
    using assms(1) by (simp_all add: level_isolated_def test_set_def)
  have s: "{1..tp_ncpus t} \<subseteq> {0..<online}" using assms(2) by auto
  have "a \<in> tp_masks t l a \<and> tp_masks t l a \<subseteq> {1..tp_ncpus t} \<and> (\<forall>b \<in> tp_masks t l a. tp_masks t l b = tp_masks t l a)"
    if a: "a \<in> {1..tp_ncpus t}" for a
    by (intro conjI ballI partitionsD(1,3) [OF p(1) subsetD [OF s a]] partitions_inside [OF p s a])
  moreover have "tp_masks t l cpu = {cpu}" if "cpu < online" "cpu \<notin> {1..tp_ncpus t}" for cpu
    using p(2) that unfolding alone_outside_def by simp
  ultimately show ?thesis by blast
qed

text \<open>
  C4. A specification that is applied isolates the test CPUs: at every level of the kernel's
  table, which now reads kSTEP's masks, CPU 0 and every spare CPU are alone, and the masks of the
  test CPUs 1..K are a partition of exactly those CPUs, whatever the specification says. The arch's
  sibling masks say the same as the SMT level.
\<close>

theorem topo_set_isolates:
  assumes "kstep_topo_set L M spec t = Inr (None, t')" "topo_wf (mc_online M) t"
    and "(name, f) \<in> set (tp_table t')"
  shows "\<exists>l. f = Kstep_masks l \<and> get_topo_level name = Some l \<and> tp_ncpus t' < mc_online M \<and>
    (\<forall>cpu < mc_online M. cpu \<notin> {1..tp_ncpus t'} \<longrightarrow> tp_masks t' l cpu = {cpu}) \<and>
    (\<forall>a \<in> {1..tp_ncpus t'}. a \<in> tp_masks t' l a \<and> tp_masks t' l a \<subseteq> {1..tp_ncpus t'} \<and>
       (\<forall>b \<in> tp_masks t' l a. tp_masks t' l b = tp_masks t' l a)) \<and>
    (\<forall>cpu < mc_online M. tp_siblings t' cpu = tp_masks t' KSTEP_TOPO_SMT cpu)"
  using assms(1,2)
proof (cases rule: kstep_topo_set_cases)
  case (applied n u u0 caps)
  note a = topo_apply_Inr [OF applied(7)]
  have i: "topo_isolated (mc_online M) t'"
    using applied(3) topo_isolated_shape [of t' u "mc_online M"] a by simp
  then obtain l where l: "get_topo_level name = Some l" "f = Kstep_masks l" "level_isolated (mc_online M) t' l"
    using assms(3) unfolding topo_isolated_def by blast
  have n: "tp_ncpus t' < mc_online M" using i by (simp add: topo_isolated_def)
  moreover have "\<forall>cpu < mc_online M. tp_siblings t' cpu = tp_masks t' KSTEP_TOPO_SMT cpu"
    using a by (simp add: topo_shape_def)
  ultimately show ?thesis using l level_isolated_masks [OF l(3) n] by blast
qed simp_all

text \<open>A machine of three CPUs sharing one MC level, before its first specification.\<close>

definition demo_machine :: machine where
  "demo_machine = \<lparr>mc_online = 3, mc_cap = Cap_generic\<rparr>"

definition demo_topo :: topo where
  "demo_topo = \<lparr>tp_ncpus = 2, tp_masks = (\<lambda>_ _. {}), tp_table = [(''MC'', Machine_masks (\<lambda>_. {0, 1, 2}))],
     tp_caps = (\<lambda>_. 1024), tp_siblings = (\<lambda>cpu. {cpu}), tp_rebuilds = 0,
     tp_slices = [\<lparr>sl_name = ''sched_base_slice'', sl_sysctl = 2000000, sl_normalized = 1000000\<rparr>],
     tp_looked_up = False\<rparr>"

lemma demo_topo_wf: "topo_wf (mc_online demo_machine) demo_topo"
  by (auto simp: topo_wf_def partitions_def demo_machine_def demo_topo_def)

text \<open>The machine with its levels pointed at kSTEP's masks, one test CPU, and after that is applied.\<close>

definition demo_init1 :: topo where
  "demo_init1 = demo_topo\<lparr>tp_ncpus := 1, tp_table := [(''MC'', Kstep_masks KSTEP_TOPO_MC)],
     tp_masks := (\<lambda>_ _. {})(KSTEP_TOPO_MC := \<lambda>cpu. if cpu < 3 then {cpu} else {})\<rparr>"

definition demo_narrow :: topo where
  "demo_narrow = demo_init1\<lparr>tp_siblings := (\<lambda>cpu. if cpu < 3 then {} else {cpu}), tp_rebuilds := 1,
     tp_slices := [\<lparr>sl_name = ''sched_base_slice'', sl_sysctl = 2000000, sl_normalized = 1000000\<rparr>],
     tp_looked_up := True\<rparr>"

lemma get_topo_level_MC [simp]: "get_topo_level ''MC'' = Some KSTEP_TOPO_MC"
  by (simp add: get_topo_level_def topo_level_names_def)

lemma demo_init1: "topo_init 3 (demo_topo\<lparr>tp_ncpus := 1\<rparr>) = Inr demo_init1"
  by (auto simp: topo_init_def topo_init_level_def Let_def demo_topo_def demo_init1_def test_set_def fun_eq_iff)

lemma demo_CPUS1: "topo_cpus demo_klib 3 ''CPUS=1'' = Some 1"
  "topo_cpus demo_klib 3 ''CPUS=1;FOO=1'' = Some 1"
  by (simp_all add: topo_cpus_def strscpy_def strstarts_def demo_klib_def demo_digit_def)

lemma demo_apply1: "topo_apply demo_machine demo_init1 (\<lambda>_. 1024) = Inr demo_narrow"
  by (simp add: topo_apply_def set_cap_def demo_machine_def demo_init1_def demo_narrow_def demo_topo_def
      set_slice_scaling_done_def set_slice_scaling_def slice_factor_def ilog2.simps fun_eq_iff)

lemma demo_narrow_set: "kstep_topo_set demo_klib demo_machine ''CPUS=1'' demo_topo = Inr (None, demo_narrow)"
  using demo_init1 demo_CPUS1(1) demo_apply1
  by (simp add: kstep_topo_set_def demo_machine_def strscpy_def strsep_def topo_set_key_def)

theorem topo_set_isolates_witness:
  "\<exists>l. tp_masks demo_narrow l 2 = {2} \<and> Kstep_masks KSTEP_TOPO_MC = Kstep_masks l"
proof -
  have "(''MC'', Kstep_masks KSTEP_TOPO_MC) \<in> set (tp_table demo_narrow)"
    by (simp add: demo_narrow_def demo_init1_def)
  from topo_set_isolates [OF demo_narrow_set demo_topo_wf this] show ?thesis
    by (auto simp: demo_machine_def demo_narrow_def demo_init1_def)
qed

text \<open>
  C32. A specification with an error, wherever the error is, changes nothing the kernel reads
  before the next rebuild: the capacities, the arch's sibling masks, the rebuilds made and the
  tunables are as before; and the masks stay well formed, so a later specification is safe.
\<close>

theorem topo_error_keeps_the_kernel:
  assumes "kstep_topo_set L M spec t = Inr (Some e, t')" "topo_wf (mc_online M) t"
  shows "kernel_view t' = kernel_view t \<and> topo_wf (mc_online M) t'"
  using assms
proof (cases rule: kstep_topo_set_cases)
  case (entries n)
  then show ?thesis using topo_isolated_wf by simp
qed (use assms(2) in simp_all)

lemma demo_bad_set:
  "kstep_topo_set demo_klib demo_machine ''CPUS=1;FOO=1'' demo_topo =
     Inr (Some ''unknown key (a level, CAP or CPUS)'', demo_init1)"
  using demo_init1 demo_CPUS1(2)
  by (simp add: kstep_topo_set_def demo_machine_def strscpy_def strsep_def topo_set_key_def
      get_topo_level_def topo_level_names_def Let_def)

theorem topo_error_keeps_the_kernel_witness:
  "kernel_view demo_init1 = kernel_view demo_topo \<and> topo_wf (mc_online demo_machine) demo_init1"
  by (rule topo_error_keeps_the_kernel [OF demo_bad_set demo_topo_wf])

text \<open>
  But it does change kSTEP's own state: \<open>CPUS=1;FOO=1\<close> is refused for its unknown key and
  yet leaves one test CPU where there were two, so the next tick and the next statistics span fewer
  CPUs than the kernel's domains.
\<close>

theorem topo_error_changes_test_cpus:
  "\<exists>e t'. kstep_topo_set demo_klib demo_machine ''CPUS=1;FOO=1'' demo_topo = Inr (Some e, t') \<and>
     tp_ncpus demo_topo = 2 \<and> tp_ncpus t' = 1 \<and> tp_rebuilds t' = tp_rebuilds demo_topo"
  using demo_bad_set by (simp add: demo_init1_def demo_topo_def)

text \<open>The machine's own topology again, after \<open>CPUS=1\<close>.\<close>

definition demo_init2 :: topo where
  "demo_init2 = demo_narrow\<lparr>tp_ncpus := 2\<rparr>"

lemma demo_init2: "topo_init 3 (demo_narrow\<lparr>tp_ncpus := 2\<rparr>) = Inr demo_init2"
  by (auto simp: topo_init_def topo_init_level_def Let_def demo_topo_def demo_init1_def demo_narrow_def
      demo_init2_def test_set_def fun_eq_iff)

lemma demo_apply2: "\<exists>t. topo_apply demo_machine demo_init2 (\<lambda>_. 1024) = Inr t \<and>
    tp_masks t = tp_masks demo_init2 \<and> tp_ncpus t = 2"
  by (simp add: topo_apply_def set_cap_def demo_machine_def demo_init1_def demo_init2_def demo_narrow_def demo_topo_def
      set_slice_scaling_done_def set_slice_scaling_def slice_factor_def ilog2.simps upt_rec)

text \<open>
  A specification that names no level does not give the machine's own topology back once a
  narrower one was applied: on a machine whose CPUs share the MC level, \<open>CPUS=1\<close> followed by the
  empty specification leaves CPUs 1 and 2, test CPUs again, each alone at MC.
\<close>

theorem topo_masks_only_shrink:
  "\<exists>t1 t2. kstep_topo_set demo_klib demo_machine ''CPUS=1'' demo_topo = Inr (None, t1) \<and>
     kstep_topo_set demo_klib demo_machine [] t1 = Inr (None, t2) \<and>
     topo_mask demo_topo (snd (hd (tp_table demo_topo))) 1 = {0, 1, 2} \<and>
     tp_ncpus t2 = 2 \<and> tp_masks t2 KSTEP_TOPO_MC 1 = {1} \<and> tp_masks t2 KSTEP_TOPO_MC 2 = {2}"
proof -
  obtain t where t: "topo_apply demo_machine demo_init2 (\<lambda>_. 1024) = Inr t"
    "tp_masks t = tp_masks demo_init2" "tp_ncpus t = 2" using demo_apply2 by blast
  have "topo_cpus demo_klib 3 [] = Some 2" by (simp add: topo_cpus_def strscpy_def strstarts_def)
  then have "kstep_topo_set demo_klib demo_machine [] demo_narrow = Inr (None, t)"
    using demo_init2 t(1) by (simp add: kstep_topo_set_def demo_machine_def strscpy_def)
  then show ?thesis using demo_narrow_set t
    by (intro exI conjI) (assumption | simp add: demo_topo_def demo_init2_def demo_narrow_def demo_init1_def)+
qed

section \<open>Capacities\<close>

lemma cap_group_Inr: "cap_group L l = Inr (l', scale) \<Longrightarrow> 1 \<le> scale \<and> scale \<le> SCHED_CAPACITY_SCALE"
  by (auto simp: cap_group_def split: option.splits if_splits)

lemma topo_caps_range:
  "topo_caps L ncpus ls seen caps = (e, caps') \<Longrightarrow> \<forall>cpu. 1 \<le> caps cpu \<and> caps cpu \<le> SCHED_CAPACITY_SCALE \<Longrightarrow>
    \<forall>cpu. 1 \<le> caps' cpu \<and> caps' cpu \<le> SCHED_CAPACITY_SCALE"
proof (induction ls arbitrary: seen caps)
  case (Cons l ls)
  show ?case
  proof (cases "cap_group L l")
    case (Inr p)
    obtain l' scale where p: "p = (l', scale)" by (cases p)
    note r = cap_group_Inr [OF Inr [unfolded p]]
    show ?thesis
    proof (cases "topo_parse_group L ncpus l' seen")
      case (Inr q)
      obtain g seen' where q: "q = (g, seen')" by (cases q)
      have "topo_caps L ncpus ls seen' (\<lambda>cpu. if cpu \<in> g then scale else caps cpu) = (e, caps')"
        using Cons.prems(1) Inr \<open>cap_group L l = Inr p\<close> p q by simp
      from Cons.IH [OF this] Cons.prems(2) r show ?thesis by simp
    qed (use Cons.prems \<open>cap_group L l = Inr p\<close> p in simp)
  qed (use Cons.prems in simp)
qed simp

lemma topo_entries_caps:
  "topo_entries L es (t, caps) = (e, t', caps') \<Longrightarrow> \<forall>cpu. 1 \<le> caps cpu \<and> caps cpu \<le> SCHED_CAPACITY_SCALE \<Longrightarrow>
    \<forall>cpu. 1 \<le> caps' cpu \<and> caps' cpu \<le> SCHED_CAPACITY_SCALE"
proof (induction es arbitrary: t caps)
  case (Cons en es)
  show ?case
  proof (cases "\<exists>key groups. en \<noteq> [] \<and> groups \<noteq> [] \<and> strsep {CHR ''=''} en = (key, Some groups)")
    case True
    then obtain key groups where k: "en \<noteq> []" "groups \<noteq> []" "strsep {CHR ''=''} en = (key, Some groups)" by blast
    obtain e1 t1 c1 where s: "topo_set_key L key groups (t, caps) = (e1, t1, c1)"
      by (cases "topo_set_key L key groups (t, caps)") auto
    have "\<forall>cpu. 1 \<le> c1 cpu \<and> c1 cpu \<le> SCHED_CAPACITY_SCALE"
      using s Cons.prems(2) topo_caps_range [of L "tp_ncpus t" "strsep_all {CHR ''|''} groups" "{}" caps]
      by (auto simp: topo_set_key_def Let_def split: prod.splits if_splits option.splits)
    then show ?thesis using Cons.prems(1) Cons.IH [of t1 c1] k s by (cases e1) auto
  next
    case False
    then show ?thesis using Cons.prems Cons.IH [of t caps]
      by (cases "strsep {CHR ''=''} en") (auto split: if_splits option.splits)
  qed
qed simp

text \<open>
  Once a specification is applied, every test CPU's capacity is in 1..1024, the CPUs outside 1..K
  keep theirs, and every slice tunable is its normalized value times the factor for the test CPUs and
  the controller.
\<close>

theorem topo_set_caps_and_slices:
  assumes "kstep_topo_set L M spec t = Inr (None, t')" "topo_wf (mc_online M) t" "mc_cap M \<noteq> Cap_fixed"
  shows "(\<forall>cpu \<in> {1..tp_ncpus t'}. 1 \<le> tp_caps t' cpu \<and> tp_caps t' cpu \<le> SCHED_CAPACITY_SCALE) \<and>
    (\<forall>cpu. cpu \<notin> {1..tp_ncpus t'} \<longrightarrow> tp_caps t' cpu = tp_caps t cpu) \<and>
    (\<forall>s \<in> set (tp_slices t'). sl_sysctl s = sl_normalized s * slice_factor (tp_ncpus t' + 1))"
  using assms(1,2)
proof (cases rule: kstep_topo_set_cases)
  case (applied n u u0 caps)
  note a = topo_apply_Inr [OF applied(7)]
  have "\<forall>cpu. 1 \<le> caps cpu \<and> caps cpu \<le> SCHED_CAPACITY_SCALE"
    using topo_entries_caps [OF applied(8)] by simp
  moreover have "tp_caps u = tp_caps t" using applied(4) by (simp add: kernel_view_def)
  moreover have "tp_ncpus t' = tp_ncpus u" using a by (simp add: topo_shape_def)
  ultimately show ?thesis using a assms(3) by (auto simp: test_set_def rescaled_def)
qed simp_all

theorem topo_set_caps_and_slices_witness:
  "(1 \<le> tp_caps demo_narrow 1 \<and> tp_caps demo_narrow 1 \<le> SCHED_CAPACITY_SCALE) \<and> tp_ncpus demo_narrow = 1"
proof -
  have "tp_ncpus demo_narrow = 1" by (simp add: demo_narrow_def demo_init1_def)
  then show ?thesis using topo_set_caps_and_slices [OF demo_narrow_set demo_topo_wf]
    by (simp add: demo_machine_def)
qed

end
