(* ===== verification/Kernel.thy ===== *)
theory Kernel
  imports Json Cstr
begin

text \<open>
  The kernel interfaces of kmod/kernel.c: files and directories, sysctls, scheduler features, the
  cgroup tree, the freezer. The file system and the freezer's internals are the kernel's: an opaque
  state \<open>'m\<close> with the operations called on it as arguments (\<open>kfs\<close>). Text formatted by
  \<^verbatim>\<open>vsnprintf\<close> is passed formatted.
\<close>

section \<open>Files\<close>

text \<open>
  \<open>fs_open\<close>: 0, or the error of opening for writing. \<open>fs_kwrite\<close>: the result of
  \<open>kernel_write\<close>, negative for an error. \<open>fs_create\<close>: the error of looking the new path up,
  \<open>fs_vmkdir\<close> that of making the directory. \<open>fs_lookup\<close>: whether a directory is there.
  \<open>fs_want_write\<close> and \<open>fs_vrmdir\<close>: the errors on the way to removing one.
\<close>

record 'm kfs =
  fs_open :: "'m \<Rightarrow> string \<Rightarrow> int"
  fs_kwrite :: "string \<Rightarrow> string \<Rightarrow> 'm \<Rightarrow> int \<times> 'm"
  fs_create :: "'m \<Rightarrow> string \<Rightarrow> int"
  fs_vmkdir :: "string \<Rightarrow> 'm \<Rightarrow> int \<times> 'm"
  fs_lookup :: "'m \<Rightarrow> string \<Rightarrow> bool"
  fs_want_write :: "'m \<Rightarrow> string \<Rightarrow> int"
  fs_vrmdir :: "string \<Rightarrow> 'm \<Rightarrow> int \<times> 'm"

abbreviation MAX_PATH_LENGTH :: nat where "MAX_PATH_LENGTH \<equiv> 512"
abbreviation MAX_DATA_LENGTH :: nat where "MAX_DATA_LENGTH \<equiv> 512"

abbreviation SYSCTL_ROOT :: string where "SYSCTL_ROOT \<equiv> ''/proc/sys/''"
abbreviation CGROUP_ROOT :: string where "CGROUP_ROOT \<equiv> ''/sys/fs/cgroup/''"
abbreviation CGROUP_CONTROL :: string where "CGROUP_CONTROL \<equiv> ''+cpu +cpuset''"

definition kstep_write :: "'m kfs \<Rightarrow> string \<Rightarrow> string \<Rightarrow> 'm \<Rightarrow> int \<times> 'm" where
  "kstep_write F path buf m =
     (if fs_open F m path < 0 then (fs_open F m path, m)
      else let (ret, m') = fs_kwrite F path buf m in if ret < 0 then (ret, m') else (0, m'))"

definition kstep_mkdir :: "'m kfs \<Rightarrow> string \<Rightarrow> 'm \<Rightarrow> int \<times> 'm" where
  "kstep_mkdir F dir m =
     (if fs_create F m dir \<noteq> 0 then (fs_create F m dir, m) else fs_vmkdir F dir m)"

definition kstep_rmdir :: "'m kfs \<Rightarrow> string \<Rightarrow> 'm \<Rightarrow> 'm outcome" where
  "kstep_rmdir F dir m =
     (if \<not> fs_lookup F m dir then Inl ''kern_path %s failed: %d''
      else if fs_want_write F m dir \<noteq> 0 then Inl ''mnt_want_write %s failed: %d''
      else let (err, m') = fs_vrmdir F dir m in
        if err \<noteq> 0 then Inl ''rmdir %s failed: %d'' else Inr m')"

text \<open>\<open>data\<close> is the formatted text; the path has every dot replaced by a slash.\<close>

definition sysctl_path :: "string \<Rightarrow> string" where
  "sysctl_path name = SYSCTL_ROOT @ map (\<lambda>c. if c = CHR ''.'' then CHR ''/'' else c) name"

definition kstep_sysctl_write :: "'m kfs \<Rightarrow> string \<Rightarrow> string \<Rightarrow> 'm \<Rightarrow> 'm outcome" where
  "kstep_sysctl_write F name data m =
     (if length data = 0 \<or> length data \<ge> MAX_DATA_LENGTH - 1 then Inl ''failed to format sysctl data for %s''
      else if length SYSCTL_ROOT + length name \<ge> MAX_PATH_LENGTH then Inl ''failed to form sysctl file path for %s''
      else Inr (snd (kstep_write F (sysctl_path name) (data @ [newline]) m)))"

section \<open>Scheduler features\<close>

text \<open>The names come from the kernel's features.h, in bit order; a slot may be empty.\<close>

fun feat_index :: "string option list \<Rightarrow> string \<Rightarrow> nat option" where
  "feat_index [] name = None"
| "feat_index (n # ns) name = (if n = Some name then Some 0 else map_option Suc (feat_index ns name))"

definition kstep_sched_feat_index :: "string option list \<Rightarrow> string \<Rightarrow> nat option" where
  "kstep_sched_feat_index names name = feat_index names name"

unbundle bit_operations_syntax

definition kstep_sched_feat_set :: "string option list \<Rightarrow> string \<Rightarrow> bool \<Rightarrow> u32 \<Rightarrow> u32" where
  "kstep_sched_feat_set names name enabled sysctl = (case kstep_sched_feat_index names name of
     None \<Rightarrow> sysctl
   | Some idx \<Rightarrow> let m = push_bit idx 1 in
       if (sysctl AND m \<noteq> 0) = enabled then sysctl
       else if enabled then sysctl OR m else sysctl AND NOT m)"

text \<open>The address of the mask of features, looked up once and kept; 0 is no address.\<close>

definition kstep_sysctl_sched_features_ptr :: "(string \<Rightarrow> u64) \<Rightarrow> u64 \<Rightarrow> u64 outcome" where
  "kstep_sysctl_sched_features_ptr lookup ptr = (let ptr = (if ptr = 0 then lookup ''sysctl_sched_features'' else ptr) in
     if ptr = 0 then Inl ''failed to resolve sysctl_sched_features'' else Inr ptr)"

lemma features_ptr_is_kept:
  "kstep_sysctl_sched_features_ptr lookup 0 = Inr p \<Longrightarrow> kstep_sysctl_sched_features_ptr lookup' p = Inr p"
  by (auto simp: kstep_sysctl_sched_features_ptr_def Let_def split: if_splits)

definition kstep_sched_feat_write :: "string option list \<Rightarrow> string \<Rightarrow> u32 \<Rightarrow> u32 outcome" where
  "kstep_sched_feat_write names data sysctl =
     (if length data = 0 \<or> length data \<ge> MAX_DATA_LENGTH then Inl ''failed to format sched feature write''
      else if strstarts data ''NO_'' then Inr (kstep_sched_feat_set names (drop 3 data) False sysctl)
      else Inr (kstep_sched_feat_set names data True sysctl))"

definition kstep_sched_feat_enable :: "string option list \<Rightarrow> string \<Rightarrow> u32 \<Rightarrow> u32 outcome" where
  "kstep_sched_feat_enable names name = kstep_sched_feat_write names name"

definition kstep_sched_feat_disable :: "string option list \<Rightarrow> string \<Rightarrow> u32 \<Rightarrow> u32 outcome" where
  "kstep_sched_feat_disable names name = kstep_sched_feat_write names (''NO_'' @ name)"

section \<open>Cgroups\<close>

text \<open>
  \<open>scnprintf\<close> returns what it wrote, which is never more than the buffer holds: a longer path is
  cut to 511 bytes and the length checks of the code never see it.
\<close>

definition scnprintf :: "nat \<Rightarrow> string \<Rightarrow> string" where
  "scnprintf n s = take (n - 1) s"

definition kstep_cgroup_write :: "'m kfs \<Rightarrow> string \<Rightarrow> string \<Rightarrow> string \<Rightarrow> 'm \<Rightarrow> (int \<times> 'm) outcome" where
  "kstep_cgroup_write F name filename data m =
     (if length data = 0 \<or> length data \<ge> MAX_DATA_LENGTH then Inl ''failed to format cgroup data for %s''
      else let path = scnprintf MAX_PATH_LENGTH (CGROUP_ROOT @ name @ ''/'' @ filename) in
        if length path = 0 \<or> length path \<ge> MAX_PATH_LENGTH then Inl ''failed to form cgroup file path for %s''
        else Inr (kstep_write F path data m))"

definition kstep_cgroup_set_cpuset :: "'m kfs \<Rightarrow> string \<Rightarrow> string \<Rightarrow> 'm \<Rightarrow> (int \<times> 'm) outcome" where
  "kstep_cgroup_set_cpuset F name cpuset = kstep_cgroup_write F name ''cpuset.cpus'' cpuset"

definition kstep_cgroup_set_weight :: "'m kfs \<Rightarrow> string \<Rightarrow> int \<Rightarrow> 'm \<Rightarrow> (int \<times> 'm) outcome" where
  "kstep_cgroup_set_weight F name weight = kstep_cgroup_write F name ''cpu.weight'' (sdec weight)"

definition kstep_cgroup_move_task :: "'m kfs \<Rightarrow> string \<Rightarrow> int \<Rightarrow> 'm \<Rightarrow> (int \<times> 'm) outcome" where
  "kstep_cgroup_move_task F name pid = kstep_cgroup_write F name ''cgroup.procs'' (sdec pid)"

definition kstep_cgroup_exists :: "'m kfs \<Rightarrow> string \<Rightarrow> 'm \<Rightarrow> bool" where
  "kstep_cgroup_exists F name m = (let path = scnprintf MAX_PATH_LENGTH (CGROUP_ROOT @ name) in
     if length path \<ge> MAX_PATH_LENGTH then False else fs_lookup F m path)"

definition cgroup_dir :: "string \<Rightarrow> string" where
  "cgroup_dir name = scnprintf MAX_PATH_LENGTH (CGROUP_ROOT @ name)"

definition kstep_cgroup_create :: "'m kfs \<Rightarrow> nat \<Rightarrow> string \<Rightarrow> 'm \<Rightarrow> (int \<times> 'm) outcome" where
  "kstep_cgroup_create F ncpus name m =
     (let cpuset = scnprintf 32 (''1-'' @ dec ncpus); path = cgroup_dir name in
      if length cpuset \<ge> 32 \<or> length path \<ge> MAX_PATH_LENGTH then Inl ''failed to form cpuset for %s''
      else let (err, m1) = kstep_mkdir F path m in
        if err \<noteq> 0 then Inr (err, m1)
        else bind_outcome (kstep_cgroup_write F name ''cgroup.subtree_control'' CGROUP_CONTROL m1) (\<lambda>(err, m2).
          bind_outcome (if err \<noteq> 0 then Inr (err, m2) else kstep_cgroup_set_cpuset F name cpuset m2) (\<lambda>(err, m3).
          if err \<noteq> 0 then bind_outcome (kstep_rmdir F path m3) (\<lambda>m4. Inr (err, m4)) else Inr (0, m3))))"

text \<open>
  \<open>found\<close> is whether \<open>cgroup_get_from_path\<close> finds the cgroup, \<open>unregister\<close> what taking its task
  group off the runqueues does (nothing where it has none).
\<close>

definition kstep_cgroup_destroy :: "'m kfs \<Rightarrow> (string \<Rightarrow> 'm \<Rightarrow> bool) \<Rightarrow> (string \<Rightarrow> 'm \<Rightarrow> 'm) \<Rightarrow> string \<Rightarrow> 'm \<Rightarrow> 'm outcome" where
  "kstep_cgroup_destroy F found unregister name m =
     (if name = [] then Inl ''refusing to destroy root cgroup''
      else let path = cgroup_dir name in
        if length path = 0 \<or> length path \<ge> MAX_PATH_LENGTH then Inl ''failed to form cgroup path for %s''
        else if \<not> found name m then Inl ''cgroup_get_from_path %s failed: %ld''
        else bind_outcome (kstep_rmdir F path m) (\<lambda>m. Inr (unregister name m)))"

definition kstep_cgroup_init :: "'m kfs \<Rightarrow> ('m \<Rightarrow> 'm) \<Rightarrow> 'm \<Rightarrow> 'm outcome" where
  "kstep_cgroup_init F rcu_sync m =
     bind_outcome (kstep_cgroup_write F [] ''cgroup.subtree_control'' CGROUP_CONTROL m) (\<lambda>(_, m). Inr (rcu_sync m))"

section \<open>The freezer\<close>

text \<open>
  \<open>fz_count\<close> is the freezer's activation count, \<open>fz_pm\<close> is \<open>pm_freezing\<close>, \<open>fz_state\<close> each
  task's state; \<open>freeze\<close> is the kernel's \<open>freeze_task\<close>, which reads the first two.
\<close>

record freezer =
  fz_count :: int
  fz_pm :: bool
  fz_state :: "tptr \<Rightarrow> u32"

abbreviation TASK_FROZEN :: u32 where "TASK_FROZEN \<equiv> 0x8000"
abbreviation TASK_FREEZABLE :: u32 where "TASK_FREEZABLE \<equiv> 0x2000"

definition kstep_task_is_frozen :: "freezer \<Rightarrow> tptr \<Rightarrow> bool" where
  "kstep_task_is_frozen z p \<longleftrightarrow> fz_state z p AND TASK_FROZEN \<noteq> 0"

definition kstep_freezer_start :: "freezer \<Rightarrow> freezer" where
  "kstep_freezer_start z = z\<lparr>fz_count := fz_count z + 1, fz_pm := True\<rparr>"

definition kstep_freezer_stop :: "freezer \<Rightarrow> freezer" where
  "kstep_freezer_stop z = z\<lparr>fz_pm := False, fz_count := fz_count z - 1\<rparr>"

definition kstep_freezer_active :: "freezer \<Rightarrow> bool" where
  "kstep_freezer_active z = fz_pm z"

text \<open>The result and the freeze event raised: the task and the state \<open>freeze_task\<close> saw.\<close>

definition kstep_freeze_task :: "(tptr \<Rightarrow> freezer \<Rightarrow> tptr \<Rightarrow> u32) \<Rightarrow> tptr \<Rightarrow> freezer \<Rightarrow> freezer \<times> (tptr \<times> u32) list" where
  "kstep_freeze_task freeze p z = (let active = kstep_freezer_active z in
     if kstep_task_is_frozen z p then (z, [])
     else let z1 = (if active then z else kstep_freezer_start z);
              before = fz_state z1 p;
              z2 = z1\<lparr>fz_state := freeze p z1\<rparr> in
       (if active then z2 else kstep_freezer_stop z2, [(p, before)]))"

definition kstep_thaw_task :: "(tptr \<Rightarrow> freezer \<Rightarrow> tptr \<Rightarrow> u32) \<Rightarrow> tptr \<Rightarrow> freezer \<Rightarrow> freezer" where
  "kstep_thaw_task thaw p z = z\<lparr>fz_state := thaw p z\<rparr>"

section \<open>What these operations promise\<close>

lemma kstep_sched_feat_set_bit:
  assumes "i < 32"
  shows "bit (kstep_sched_feat_set names name b w) i =
    (if kstep_sched_feat_index names name = Some i then b else bit w i)"
  using assms
  by (auto simp: kstep_sched_feat_set_def Let_def and_exp_eq_0_iff_not_bit bit_simps split: option.splits)

text \<open>
  Writing a scheduler feature sets exactly its bit: enabling a name turns the bit of that name
  on, disabling it off, and no other bit of the kernel's mask changes; a name this kernel does not
  have changes nothing. (A name starting with \<open>NO_\<close> would be read as a disable.)
\<close>

theorem sched_feat_sets_its_bit:
  assumes "0 < length name" "length name + 3 < MAX_DATA_LENGTH" "\<not> strstarts name ''NO_''"
  shows "\<exists>on off. kstep_sched_feat_enable names name w = Inr on \<and> kstep_sched_feat_disable names name w = Inr off \<and>
    (\<forall>i < 32. bit on i = (if kstep_sched_feat_index names name = Some i then True else bit w i) \<and>
              bit off i = (if kstep_sched_feat_index names name = Some i then False else bit w i))"
  using assms
  by (auto simp: kstep_sched_feat_enable_def kstep_sched_feat_disable_def kstep_sched_feat_write_def
      strstarts_def kstep_sched_feat_set_bit)

theorem sched_feat_sets_its_bit_witness:
  "\<exists>on off. kstep_sched_feat_enable [Some ''A'', Some ''NI_RANDOM''] ''NI_RANDOM'' 1 = Inr on \<and>
    kstep_sched_feat_disable [Some ''A'', Some ''NI_RANDOM''] ''NI_RANDOM'' 1 = Inr off \<and> bit on 1 \<and> \<not> bit off 1"
proof -
  have "kstep_sched_feat_index [Some ''A'', Some ''NI_RANDOM''] ''NI_RANDOM'' = Some 1"
    by (simp add: kstep_sched_feat_index_def)
  then show ?thesis
    using sched_feat_sets_its_bit [of "''NI_RANDOM''" "[Some ''A'', Some ''NI_RANDOM'']" 1]
    by (auto simp: strstarts_def)
qed

text \<open>What the kernel documents of removing a directory: afterwards it is not there.\<close>

definition rmdir_removes :: "'m kfs \<Rightarrow> bool" where
  "rmdir_removes F \<longleftrightarrow> (\<forall>dir m m'. fs_vrmdir F dir m = (0, m') \<longrightarrow> \<not> fs_lookup F m' dir)"


text \<open>A file system that is a set of directories, on which every write to a file fails.\<close>

definition demo_fs :: "int \<Rightarrow> string set kfs" where
  "demo_fs werr = \<lparr>fs_open = (\<lambda>_ _. werr), fs_kwrite = (\<lambda>_ buf m. (int (length buf), m)),
     fs_create = (\<lambda>m d. if d \<in> m then - 17 else 0), fs_vmkdir = (\<lambda>d m. (0, insert d m)),
     fs_lookup = (\<lambda>m d. d \<in> m), fs_want_write = (\<lambda>_ _. 0), fs_vrmdir = (\<lambda>d m. (0, m - {d}))\<rparr>"

lemma demo_fs_rmdir: "rmdir_removes (demo_fs e)"
  by (simp add: rmdir_removes_def demo_fs_def)


text \<open>
  A cgroup path longer than the buffer is not refused: the check compares what
  \<open>scnprintf\<close> wrote with the size of the buffer, which it never reaches, so a write goes to the
  path cut to 511 bytes.
\<close>

theorem cgroup_path_is_cut:
  assumes "length name > MAX_PATH_LENGTH" "0 < length data" "length data < MAX_DATA_LENGTH"
  shows "kstep_cgroup_write F name filename data m = Inr (kstep_write F (take 511 (CGROUP_ROOT @ name)) data m)"
  using assms by (simp add: kstep_cgroup_write_def scnprintf_def Let_def)

theorem cgroup_path_is_cut_witness:
  "kstep_cgroup_write (demo_fs 0) (replicate 600 CHR ''a'') ''cpu.weight'' ''100'' {} =
     Inr (kstep_write (demo_fs 0) (take 511 (CGROUP_ROOT @ replicate 600 CHR ''a'')) ''100'' {})"
  by (rule cgroup_path_is_cut) simp_all

text \<open>
  Freezing one task leaves the freezer as it was: whatever the kernel's \<open>freeze_task\<close> does
  to the tasks, the activation count and \<open>pm_freezing\<close> are the same after as before, the kernel
  sees the freezer active during the call, and the event carries the state it saw. A frozen task is
  left alone.
\<close>

theorem freeze_task_restores_the_freezer:
  assumes "kstep_freeze_task freeze p z = (z', evs)"
  shows "fz_count z' = fz_count z \<and> fz_pm z' = fz_pm z \<and>
    (if fz_state z p AND TASK_FROZEN \<noteq> 0 then z' = z \<and> evs = []
     else (\<exists>during. fz_pm during \<and> fz_state during = fz_state z \<and> fz_state z' = freeze p during) \<and>
       evs = [(p, fz_state z p)])"
proof (cases "fz_state z p AND TASK_FROZEN \<noteq> 0")
  case True
  then show ?thesis using assms by (simp add: kstep_freeze_task_def kstep_task_is_frozen_def Let_def)
next
  case False
  define during where "during = (if fz_pm z then z else kstep_freezer_start z)"
  have "fz_pm during" "fz_state during = fz_state z" "fz_state z' = freeze p during"
    "fz_count z' = fz_count z" "fz_pm z' = fz_pm z" "evs = [(p, fz_state z p)]"
    using assms False
    by (auto simp: kstep_freeze_task_def kstep_task_is_frozen_def kstep_freezer_active_def Let_def
        kstep_freezer_start_def kstep_freezer_stop_def during_def split: if_splits)
  then show ?thesis using False by auto
qed

theorem freeze_task_restores_the_freezer_witness:
  "\<exists>z'. kstep_freeze_task (\<lambda>p z. (fz_state z)(p := TASK_FROZEN)) 1 \<lparr>fz_count = 0, fz_pm = False, fz_state = (\<lambda>_. 1)\<rparr>
     = (z', [(1, 1)]) \<and> fz_pm z' = False \<and> fz_count z' = 0"
proof -
  let ?z = "\<lparr>fz_count = 0, fz_pm = False, fz_state = (\<lambda>_. 1)\<rparr>" and ?f = "\<lambda>p z. (fz_state z)(p := TASK_FROZEN)"
  obtain z' evs where r: "kstep_freeze_task ?f 1 ?z = (z', evs)" by fastforce
  from freeze_task_restores_the_freezer [OF r] r show ?thesis by simp
qed

end
