(* ===== verification/Reset.thy ===== *)
theory Reset
  imports Json
begin

text \<open>
  Resetting the scheduler's state (kmod/reset.c) so that runs do not differ by what the machine did
  in real time before its clock was mocked. The kernel's structures are records of the fields the
  code reads or writes; \<open>version\<close> is \<open>LINUX_VERSION_CODE\<close>. What the reset leaves of a structure
  (how it is queued, weighted and linked) is its \<open>shape\<close>.
\<close>

section \<open>The kernel's structures\<close>

definition KERNEL_VERSION :: "nat \<Rightarrow> nat \<Rightarrow> nat \<Rightarrow> nat" where
  "KERNEL_VERSION a b c = 65536 * a + 256 * b + c"

record sched_avg =
  sa_last_update_time :: u64
  sa_load_sum :: u64
  sa_runnable_sum :: u64
  sa_util_sum :: u32
  sa_period_contrib :: u32
  sa_load_avg :: u64
  sa_runnable_avg :: u64
  sa_util_avg :: u64

definition sched_avg_zero :: sched_avg where
  "sched_avg_zero = \<lparr>sa_last_update_time = 0, sa_load_sum = 0, sa_runnable_sum = 0, sa_util_sum = 0,
     sa_period_contrib = 0, sa_load_avg = 0, sa_runnable_avg = 0, sa_util_avg = 0\<rparr>"

record sched_entity =
  se_weight :: u64
  se_on_rq :: bool
  se_exec_start :: u64
  se_sum_exec_runtime :: u64
  se_prev_sum_exec_runtime :: u64
  se_nr_migrations :: u64
  se_vruntime :: u64
  se_vlag :: u64
  se_slice :: u64
  se_avg :: sched_avg

record task_struct =
  ts_cpu :: nat
  ts_nivcsw :: u64
  ts_nvcsw :: u64
  ts_se :: sched_entity

record cfs_rq =
  cf_h_nr :: u64
  cf_base_vruntime :: u64
  cf_avg_vruntime :: u64
  cf_avg_load :: u64
  cf_avg :: sched_avg
  cf_tg_load_avg_contrib :: u64
  cf_propagate :: u64
  cf_prop_runnable_sum :: u64

record sched_domain =
  sd_min_interval :: u64
  sd_last_balance :: u64
  sd_balance_interval :: u64
  sd_nr_balance_failed :: u32
  sd_max_newidle_lb_cost :: u64
  sd_decay_max_lb_cost :: u64

record rq =
  rq_nr_running :: u32
  rq_clock :: u64
  rq_clock_task :: u64
  rq_clock_pelt :: u64
  rq_lost_idle_time :: u64
  rq_clock_pelt_idle :: u64
  rq_clock_idle :: u64
  rq_avg_idle :: u64
  rq_max_idle_balance_cost :: u64
  rq_idle_stamp :: u64
  rq_nr_switches :: u64
  rq_next_balance :: u64
  rq_cfs :: cfs_rq
  rq_avg_rt :: sched_avg
  rq_avg_dl :: sched_avg
  rq_avg_irq :: sched_avg
  rq_avg_hw :: sched_avg
  rq_domains :: "sched_domain list"

record task_group =
  tg_root :: bool
  tg_load_avg :: u64
  tg_cfs_rq :: "nat \<Rightarrow> cfs_rq"
  tg_se :: "nat \<Rightarrow> sched_entity"

text \<open>
  What the code reads of the build and of the kernel's settings: \<open>cf_irq\<close> and \<open>cf_hw\<close> whether the
  interrupt and the hardware (or thermal) pressure averages are configured.
\<close>

record reset_conf =
  rc_version :: nat
  rc_irq :: bool
  rc_hw :: bool
  rc_tick_nsec :: u64
  rc_base_slice :: u64
  rc_migration_cost :: u64
  rc_jiffies :: u64

section \<open>The resets\<close>

definition reset_sched_avg :: "sched_avg \<Rightarrow> sched_avg" where
  "reset_sched_avg avg = sched_avg_zero"

text \<open>\<open>scale_load_down\<close> on a 64-bit kernel: a shift by 10, but never below 2 for a weight that is not 0.\<close>

definition scale_load_down :: "u64 \<Rightarrow> u64" where
  "scale_load_down w = (if w = 0 then 0 else max 2 (drop_bit 10 w))"

definition kstep_reset_task :: "reset_conf \<Rightarrow> task_struct \<Rightarrow> task_struct" where
  "kstep_reset_task c p = (let
     p = p\<lparr>ts_nivcsw := 0, ts_nvcsw := 0\<rparr>;
     se = (ts_se p)\<lparr>se_exec_start := 0, se_sum_exec_runtime := 0, se_prev_sum_exec_runtime := 0, se_nr_migrations := 0, se_vruntime := 0\<rparr>;
     se = (if rc_version c \<ge> KERNEL_VERSION 6 6 0 then se\<lparr>se_vlag := 0, se_slice := rc_base_slice c\<rparr> else se);
     se = se\<lparr>se_avg := (reset_sched_avg (se_avg se))\<lparr>sa_load_avg := scale_load_down (se_weight se)\<rparr>\<rparr> in
     p\<lparr>ts_se := se\<rparr>)"

definition kstep_reset_tasks :: "reset_conf \<Rightarrow> task_struct list \<Rightarrow> task_struct list" where
  "kstep_reset_tasks c ps = map (\<lambda>p. if ts_cpu p \<noteq> 0 then kstep_reset_task c p else p) ps"

definition reset_rq_clocks :: "reset_conf \<Rightarrow> rq \<Rightarrow> rq" where
  "reset_rq_clocks c r = (let
     r = r\<lparr>rq_clock := rc_tick_nsec c, rq_clock_task := rc_tick_nsec c\<rparr>;
     r = (if rc_version c \<ge> KERNEL_VERSION 5 1 0 then r\<lparr>rq_clock_pelt := rc_tick_nsec c, rq_lost_idle_time := 0\<rparr> else r) in
     if rc_version c \<ge> KERNEL_VERSION 5 19 0 then r\<lparr>rq_clock_pelt_idle := rc_tick_nsec c, rq_clock_idle := rc_tick_nsec c\<rparr> else r)"

text \<open>The two names of the field that paces the decay of the newidle cost are one field here.\<close>

definition reset_domain :: "reset_conf \<Rightarrow> sched_domain \<Rightarrow> sched_domain" where
  "reset_domain c sd = sd\<lparr>sd_last_balance := rc_jiffies c, sd_balance_interval := sd_min_interval sd, sd_nr_balance_failed := 0,
     sd_max_newidle_lb_cost := 0, sd_decay_max_lb_cost := rc_jiffies c\<rparr>"

text \<open>
  The queue's base vruntime is \<open>zero_vruntime\<close> from 6.19 and \<open>min_vruntime\<close> before, and the sums
  behind the average were renamed in 7.0; the two names of each are one field here.
\<close>

definition reset_cfs :: "reset_conf \<Rightarrow> cfs_rq \<Rightarrow> cfs_rq" where
  "reset_cfs c q = (let
     q = q\<lparr>cf_base_vruntime := 0\<rparr>;
     q = (if rc_version c \<ge> KERNEL_VERSION 6 6 0 then q\<lparr>cf_avg_vruntime := 0, cf_avg_load := 0\<rparr> else q) in
     q\<lparr>cf_avg := reset_sched_avg (cf_avg q)\<rparr>)"

text \<open>The hook on the allocation of a group's queue (kmod/trace.c) starts it at the base the reset gives.\<close>

definition on_sched_group_alloc :: "cfs_rq \<Rightarrow> cfs_rq" where
  "on_sched_group_alloc cfs_rq = cfs_rq\<lparr>cf_base_vruntime := 0\<rparr>"

lemma group_alloc_base: "cf_base_vruntime (on_sched_group_alloc q) = cf_base_vruntime (reset_cfs c q')"
  by (simp add: on_sched_group_alloc_def reset_cfs_def Let_def)

definition kstep_reset_runqueue :: "reset_conf \<Rightarrow> rq \<Rightarrow> rq" where
  "kstep_reset_runqueue c r = (let
     r = reset_rq_clocks c r;
     r = r\<lparr>rq_avg_idle := 2 * rc_migration_cost c, rq_max_idle_balance_cost := rc_migration_cost c, rq_idle_stamp := 0,
           rq_nr_switches := 0, rq_next_balance := rc_jiffies c\<rparr>;
     r = r\<lparr>rq_cfs := reset_cfs c (rq_cfs r)\<rparr>;
     r = r\<lparr>rq_avg_rt := reset_sched_avg (rq_avg_rt r), rq_avg_dl := reset_sched_avg (rq_avg_dl r)\<rparr>;
     r = (if rc_irq c then r\<lparr>rq_avg_irq := reset_sched_avg (rq_avg_irq r)\<rparr> else r);
     r = (if rc_hw c then r\<lparr>rq_avg_hw := reset_sched_avg (rq_avg_hw r)\<rparr> else r) in
     r\<lparr>rq_domains := map (reset_domain c) (rq_domains r)\<rparr>)"

definition reset_group_cpu :: "nat \<Rightarrow> task_group \<Rightarrow> task_group" where
  "reset_group_cpu cpu tg = (let q = tg_cfs_rq tg cpu; se = tg_se tg cpu in
     tg\<lparr>tg_cfs_rq := (tg_cfs_rq tg)(cpu := q\<lparr>cf_avg := reset_sched_avg (cf_avg q), cf_tg_load_avg_contrib := 0,
          cf_propagate := 0, cf_prop_runnable_sum := 0\<rparr>),
        tg_se := (tg_se tg)(cpu := se\<lparr>se_avg := reset_sched_avg (se_avg se)\<rparr>)\<rparr>)"

definition kstep_reset_task_groups :: "nat \<Rightarrow> task_group list \<Rightarrow> task_group list" where
  "kstep_reset_task_groups online tgs =
     map (\<lambda>tg. if tg_root tg then tg else fold reset_group_cpu [0..<online] (tg\<lparr>tg_load_avg := 0\<rparr>)) tgs"

definition kstep_reset_control_rq :: "reset_conf \<Rightarrow> rq \<Rightarrow> rq" where
  "kstep_reset_control_rq c r = (reset_rq_clocks c r)\<lparr>rq_idle_stamp := 0\<rparr>"

record kstate =
  ks_ncpus :: nat
  ks_online :: nat
  ks_rq :: "nat \<Rightarrow> rq"
  ks_groups :: "task_group list"
  ks_tasks :: "task_struct list"
  ks_distribute :: "nat \<Rightarrow> int"
  ks_dl_server :: "nat \<Rightarrow> u64 \<times> u64"

definition kstep_reset_runqueues :: "reset_conf \<Rightarrow> kstate \<Rightarrow> kstate" where
  "kstep_reset_runqueues c k = (let
     k = fold (\<lambda>cpu k. k\<lparr>ks_rq := (ks_rq k)(cpu := kstep_reset_runqueue c (ks_rq k cpu))\<rparr>) (test_cpus (ks_ncpus k)) k;
     k = k\<lparr>ks_rq := (ks_rq k)(0 := kstep_reset_control_rq c (ks_rq k 0))\<rparr> in
     k\<lparr>ks_groups := kstep_reset_task_groups (ks_online k) (ks_groups k)\<rparr>)"

definition kstep_reset_cpumask :: "reset_conf \<Rightarrow> kstate \<Rightarrow> kstate" where
  "kstep_reset_cpumask c k = (if rc_version c \<ge> KERNEL_VERSION 5 7 0
     then fold (\<lambda>cpu k. k\<lparr>ks_distribute := (ks_distribute k)(cpu := 0)\<rparr>) [0..<ks_online k] k else k)"

text \<open>Zero runtime in a period of one second, applied by the kernel.\<close>

definition kstep_reset_dl_server :: "reset_conf \<Rightarrow> kstate \<Rightarrow> kstate" where
  "kstep_reset_dl_server c k = (if rc_version c \<ge> KERNEL_VERSION 6 13 0
     then fold (\<lambda>cpu k. k\<lparr>ks_dl_server := (ks_dl_server k)(cpu := (0, 1000000000))\<rparr>) (test_cpus (ks_ncpus k)) k else k)"

text \<open>The order of \<open>kstep_main\<close>.\<close>

definition reset_all :: "reset_conf \<Rightarrow> kstate \<Rightarrow> kstate" where
  "reset_all c k = (let k = kstep_reset_runqueues c k; k = kstep_reset_cpumask c k;
     k = k\<lparr>ks_tasks := kstep_reset_tasks c (ks_tasks k)\<rparr> in kstep_reset_dl_server c k)"

section \<open>What is left of history\<close>

text \<open>Two structures of the same shape: they agree on what the reset does not write.\<close>

definition se_shape :: "sched_entity \<Rightarrow> u64 \<times> bool" where
  "se_shape se = (se_weight se, se_on_rq se)"

definition cfs_shape :: "cfs_rq \<Rightarrow> u64 \<times> u64 \<times> u64 \<times> u64" where
  "cfs_shape q = (cf_h_nr q, cf_tg_load_avg_contrib q, cf_propagate q, cf_prop_runnable_sum q)"

definition rq_shape :: "reset_conf \<Rightarrow> rq \<Rightarrow> u32 \<times> (u64 \<times> u64 \<times> u64 \<times> u64) \<times> u64 list \<times> sched_avg option \<times> sched_avg option" where
  "rq_shape c r = (rq_nr_running r, cfs_shape (rq_cfs r), map sd_min_interval (rq_domains r),
     if rc_irq c then None else Some (rq_avg_irq r), if rc_hw c then None else Some (rq_avg_hw r))"

definition task_shape :: "task_struct \<Rightarrow> nat \<times> u64 \<times> bool" where
  "task_shape p = (ts_cpu p, se_shape (ts_se p))"

lemma reset_domain_shape: "sd_min_interval a = sd_min_interval b \<Longrightarrow> reset_domain c a = reset_domain c b"
  by (cases a, cases b) (simp add: reset_domain_def)

lemma reset_domains_shape:
  "map sd_min_interval as = map sd_min_interval bs \<Longrightarrow> map (reset_domain c) as = map (reset_domain c) bs"
proof (induction as arbitrary: bs)
  case (Cons a as)
  then obtain b bs' where "bs = b # bs'" by (cases bs) auto
  with Cons show ?case using reset_domain_shape [of a b c] by simp
qed simp

lemma reset_cfs_shape:
  "rc_version c \<ge> KERNEL_VERSION 6 6 0 \<Longrightarrow> cfs_shape a = cfs_shape b \<Longrightarrow> reset_cfs c a = reset_cfs c b"
  by (cases a, cases b) (simp add: reset_cfs_def cfs_shape_def Let_def reset_sched_avg_def)

lemma version_order:
  "KERNEL_VERSION 6 6 0 \<le> v \<Longrightarrow> KERNEL_VERSION 5 1 0 \<le> v \<and> KERNEL_VERSION 5 19 0 \<le> v \<and> KERNEL_VERSION 5 7 0 \<le> v"
  by (simp add: KERNEL_VERSION_def)

lemma reset_rq_clocks_eq:
  assumes "rc_version c \<ge> KERNEL_VERSION 6 6 0"
  shows "reset_rq_clocks c r = r\<lparr>rq_clock := rc_tick_nsec c, rq_clock_task := rc_tick_nsec c, rq_clock_pelt := rc_tick_nsec c,
    rq_lost_idle_time := 0, rq_clock_pelt_idle := rc_tick_nsec c, rq_clock_idle := rc_tick_nsec c\<rparr>"
  using version_order [OF assms] by (simp add: reset_rq_clocks_def Let_def)

lemma reset_runqueue_eq:
  assumes "rc_version c \<ge> KERNEL_VERSION 6 6 0"
  shows "kstep_reset_runqueue c r = \<lparr>rq_nr_running = rq_nr_running r, rq_clock = rc_tick_nsec c, rq_clock_task = rc_tick_nsec c,
    rq_clock_pelt = rc_tick_nsec c, rq_lost_idle_time = 0, rq_clock_pelt_idle = rc_tick_nsec c, rq_clock_idle = rc_tick_nsec c,
    rq_avg_idle = 2 * rc_migration_cost c, rq_max_idle_balance_cost = rc_migration_cost c, rq_idle_stamp = 0, rq_nr_switches = 0,
    rq_next_balance = rc_jiffies c, rq_cfs = reset_cfs c (rq_cfs r), rq_avg_rt = sched_avg_zero, rq_avg_dl = sched_avg_zero,
    rq_avg_irq = (if rc_irq c then sched_avg_zero else rq_avg_irq r), rq_avg_hw = (if rc_hw c then sched_avg_zero else rq_avg_hw r),
    rq_domains = map (reset_domain c) (rq_domains r)\<rparr>"
  by (cases r; cases "rc_irq c"; cases "rc_hw c")
    (simp_all add: kstep_reset_runqueue_def reset_rq_clocks_eq [OF assms] reset_sched_avg_def)

lemma reset_runqueue_shape:
  assumes "rc_version c \<ge> KERNEL_VERSION 6 6 0" "rq_shape c a = rq_shape c b"
  shows "kstep_reset_runqueue c a = kstep_reset_runqueue c b"
proof -
  have s: "rq_nr_running a = rq_nr_running b" "cfs_shape (rq_cfs a) = cfs_shape (rq_cfs b)"
      "map sd_min_interval (rq_domains a) = map sd_min_interval (rq_domains b)"
      "rc_irq c \<or> rq_avg_irq a = rq_avg_irq b" "rc_hw c \<or> rq_avg_hw a = rq_avg_hw b"
    using assms(2) by (auto simp: rq_shape_def split: if_splits)
  have "reset_cfs c (rq_cfs a) = reset_cfs c (rq_cfs b)" by (rule reset_cfs_shape [OF assms(1) s(2)])
  moreover have "map (reset_domain c) (rq_domains a) = map (reset_domain c) (rq_domains b)"
    by (rule reset_domains_shape [OF s(3)])
  ultimately show ?thesis unfolding reset_runqueue_eq [OF assms(1)] using s(1,4,5) by auto
qed

lemma reset_task_shape:
  assumes "rc_version c \<ge> KERNEL_VERSION 6 6 0" "task_shape a = task_shape b"
  shows "kstep_reset_task c a = kstep_reset_task c b"
proof -
  obtain sa sb where "ts_se a = sa" "ts_se b = sb" by blast
  with assms show ?thesis
    by (cases a, cases b, cases sa, cases sb) (simp add: kstep_reset_task_def Let_def task_shape_def se_shape_def reset_sched_avg_def)
qed

text \<open>Where each part of the machine's state comes from.\<close>

lemma fold_rq:
  "distinct cpus \<Longrightarrow> ks_rq (fold (\<lambda>cpu k. k\<lparr>ks_rq := (ks_rq k)(cpu := f (ks_rq k cpu))\<rparr>) cpus k) =
    (\<lambda>cpu. if cpu \<in> set cpus then f (ks_rq k cpu) else ks_rq k cpu)"
  by (induction cpus arbitrary: k) (auto simp: fun_eq_iff)

lemma fold_rq_frame:
  "fold (\<lambda>cpu k. k\<lparr>ks_rq := (ks_rq k)(cpu := f (ks_rq k cpu))\<rparr>) cpus k =
    k\<lparr>ks_rq := ks_rq (fold (\<lambda>cpu k. k\<lparr>ks_rq := (ks_rq k)(cpu := f (ks_rq k cpu))\<rparr>) cpus k)\<rparr>"
proof (induction cpus arbitrary: k)
  case (Cons cpu cpus)
  show ?case by (simp only: fold.simps comp_apply) (subst Cons, simp)
qed simp

lemma fold_distribute:
  "fold (\<lambda>cpu k. k\<lparr>ks_distribute := (ks_distribute k)(cpu := v)\<rparr>) cpus k =
    k\<lparr>ks_distribute := \<lambda>cpu. if cpu \<in> set cpus then v else ks_distribute k cpu\<rparr>"
  by (induction cpus arbitrary: k) (auto simp: fun_eq_iff intro!: kstate.equality)

lemma fold_dl_server:
  "fold (\<lambda>cpu k. k\<lparr>ks_dl_server := (ks_dl_server k)(cpu := v)\<rparr>) cpus k =
    k\<lparr>ks_dl_server := \<lambda>cpu. if cpu \<in> set cpus then v else ks_dl_server k cpu\<rparr>"
  by (induction cpus arbitrary: k) (auto simp: fun_eq_iff intro!: kstate.equality)

lemma reset_runqueues_eq:
  "kstep_reset_runqueues c k = k\<lparr>ks_rq := (\<lambda>cpu. if cpu = 0 then kstep_reset_control_rq c (ks_rq k 0)
      else if cpu \<in> set (test_cpus (ks_ncpus k)) then kstep_reset_runqueue c (ks_rq k cpu) else ks_rq k cpu),
    ks_groups := kstep_reset_task_groups (ks_online k) (ks_groups k)\<rparr>"
proof -
  have d: "distinct (test_cpus (ks_ncpus k))" "0 \<notin> set (test_cpus (ks_ncpus k))" by (simp_all add: test_cpus_def)
  show ?thesis unfolding kstep_reset_runqueues_def Let_def
    by (subst (1 2 3 4) fold_rq_frame) (auto simp: fold_rq [OF d(1)] d(2) fun_eq_iff)
qed

lemma reset_all_fields:
  "ks_rq (reset_all c k) = ks_rq (kstep_reset_runqueues c k)" "ks_groups (reset_all c k) = ks_groups (kstep_reset_runqueues c k)"
  "ks_tasks (reset_all c k) = kstep_reset_tasks c (ks_tasks k)"
  "rc_version c \<ge> KERNEL_VERSION 5 7 0 \<Longrightarrow> ks_distribute (reset_all c k) cpu = (if cpu < ks_online k then 0 else ks_distribute k cpu)"
  by (simp_all add: reset_all_def kstep_reset_cpumask_def kstep_reset_dl_server_def fold_distribute fold_dl_server reset_runqueues_eq Let_def)


text \<open>
  The controller's CPU keeps its own history: of its runqueue only the clocks and the idle
  stamp change, and its tasks are as they were; a CPU left over is not touched at all.
\<close>

theorem reset_spares_the_controller:
  assumes "rc_version c \<ge> KERNEL_VERSION 6 6 0"
  shows "ks_rq (reset_all c k) 0 = (ks_rq k 0)\<lparr>rq_clock := rc_tick_nsec c, rq_clock_task := rc_tick_nsec c,
      rq_clock_pelt := rc_tick_nsec c, rq_lost_idle_time := 0, rq_clock_pelt_idle := rc_tick_nsec c,
      rq_clock_idle := rc_tick_nsec c, rq_idle_stamp := 0\<rparr> \<and>
    filter (\<lambda>p. ts_cpu p = 0) (ks_tasks (reset_all c k)) = filter (\<lambda>p. ts_cpu p = 0) (ks_tasks k) \<and>
    (cpu > ks_ncpus k \<longrightarrow> ks_rq (reset_all c k) cpu = ks_rq k cpu)"
proof -
  have "filter (\<lambda>p. ts_cpu p = 0) (kstep_reset_tasks c ps) = filter (\<lambda>p. ts_cpu p = 0) ps" for ps
    by (induction ps) (simp_all add: kstep_reset_tasks_def kstep_reset_task_def Let_def)
  then show ?thesis
    by (simp add: reset_all_fields reset_runqueues_eq kstep_reset_control_rq_def reset_rq_clocks_eq [OF assms] test_cpus_def)
qed

text \<open>Two machines for the witnesses, one with a history.\<close>

definition demo_se :: "u64 \<Rightarrow> sched_entity" where
  "demo_se v = \<lparr>se_weight = 1048576, se_on_rq = False, se_exec_start = v, se_sum_exec_runtime = v, se_prev_sum_exec_runtime = v,
     se_nr_migrations = v, se_vruntime = v, se_vlag = v, se_slice = v, se_avg = sched_avg_zero\<lparr>sa_load_avg := v\<rparr>\<rparr>"

definition demo_cfs :: "u64 \<Rightarrow> cfs_rq" where
  "demo_cfs v = \<lparr>cf_h_nr = 0, cf_base_vruntime = v, cf_avg_vruntime = v, cf_avg_load = v, cf_avg = sched_avg_zero\<lparr>sa_util_avg := v\<rparr>,
     cf_tg_load_avg_contrib = 0, cf_propagate = 0, cf_prop_runnable_sum = 0\<rparr>"

definition demo_reset_rq :: "u64 \<Rightarrow> rq" where
  "demo_reset_rq v = \<lparr>rq_nr_running = 0, rq_clock = v, rq_clock_task = v, rq_clock_pelt = v, rq_lost_idle_time = v,
     rq_clock_pelt_idle = v, rq_clock_idle = v, rq_avg_idle = v, rq_max_idle_balance_cost = v, rq_idle_stamp = v, rq_nr_switches = v,
     rq_next_balance = v, rq_cfs = demo_cfs v, rq_avg_rt = sched_avg_zero\<lparr>sa_util_avg := v\<rparr>, rq_avg_dl = sched_avg_zero,
     rq_avg_irq = sched_avg_zero\<lparr>sa_util_avg := v\<rparr>, rq_avg_hw = sched_avg_zero, rq_domains = []\<rparr>"

definition demo_kstate :: "u64 \<Rightarrow> kstate" where
  "demo_kstate v = \<lparr>ks_ncpus = 2, ks_online = 3, ks_rq = (\<lambda>_. demo_reset_rq v), ks_groups = [],
     ks_tasks = [\<lparr>ts_cpu = 1, ts_nivcsw = v, ts_nvcsw = v, ts_se = demo_se v\<rparr>], ks_distribute = (\<lambda>_. 0), ks_dl_server = (\<lambda>_. (0, 0))\<rparr>"

definition demo_reset_conf :: reset_conf where
  "demo_reset_conf = \<lparr>rc_version = KERNEL_VERSION 6 14 0, rc_irq = True, rc_hw = False, rc_tick_nsec = 4000000,
     rc_base_slice = 3000000, rc_migration_cost = 500000, rc_jiffies = 4294667297\<rparr>"


theorem reset_spares_the_controller_witness:
  "rq_avg_rt (ks_rq (reset_all demo_reset_conf (demo_kstate 5)) 0) = rq_avg_rt (ks_rq (demo_kstate 5) 0) \<and>
    ks_rq (reset_all demo_reset_conf (demo_kstate 5)) 3 = ks_rq (demo_kstate 5) 3"
proof -
  have v: "rc_version demo_reset_conf \<ge> KERNEL_VERSION 6 6 0" by (simp add: demo_reset_conf_def KERNEL_VERSION_def)
  have "3 > ks_ncpus (demo_kstate 5)" by (simp add: demo_kstate_def)
  then show ?thesis using reset_spares_the_controller [OF v, of "demo_kstate 5" 3] by simp
qed

end
