(* ===== verification/Shm.thy ===== *)
theory Shm
  imports Reset
begin

text \<open>
  The region of guest memory the host reads (kmod/shm.c, kmod/shm.h): the machine's state rewritten
  after every command into fixed-size tables. What the code reads of the kernel are observations
  (records ending in \<open>_src\<close>), arguments; a table is the list of the entries written, its capacity
  the code's constant.
\<close>

unbundle bit_operations_syntax

section \<open>The region\<close>

abbreviation KSTEP_SHM_LAYOUT :: u32 where "KSTEP_SHM_LAYOUT \<equiv> 14"
abbreviation KSTEP_SHM_EEVDF :: u32 where "KSTEP_SHM_EEVDF \<equiv> 1"
abbreviation KSTEP_SHM_CPUS :: nat where "KSTEP_SHM_CPUS \<equiv> 32"
abbreviation SHM_TASKS :: nat where "SHM_TASKS \<equiv> 64"
abbreviation KSTEP_SHM_CGROUPS :: nat where "KSTEP_SHM_CGROUPS \<equiv> 16"
abbreviation KSTEP_SHM_ENTITIES :: nat where "KSTEP_SHM_ENTITIES \<equiv> 576"
abbreviation KSTEP_SHM_DOMAINS :: nat where "KSTEP_SHM_DOMAINS \<equiv> 160"
abbreviation KSTEP_SHM_GROUPS :: nat where "KSTEP_SHM_GROUPS \<equiv> 1024"

record kstep_shm_hdr =
  sh_layout :: u32
  sh_features :: u32
  sh_timestamp :: u32
  sh_ncpus :: nat
  sh_ntasks :: nat
  sh_ncgroups :: nat
  sh_ndomains :: nat
  sh_ngroups :: nat
  sh_nentities :: nat
  sh_nrt_entities :: nat

record kstep_shm_cpu =
  sc_nr_running :: u64
  sc_nr_switches :: u64
  sc_cpu :: nat
  sc_curr :: nat
  sc_idle :: bool
  sc_capacity :: u32
  sc_freq :: u32
  sc_next_balance_in :: u32

datatype kstep_shm_task_state = KSTEP_TASK_RUNNING | KSTEP_TASK_RUNNABLE | KSTEP_TASK_SLEEPING | KSTEP_TASK_BLOCKED

abbreviation KSTEP_SE_ELIGIBLE :: u32 where "KSTEP_SE_ELIGIBLE \<equiv> 1"
abbreviation KSTEP_SE_DELAYED :: u32 where "KSTEP_SE_DELAYED \<equiv> 2"
abbreviation KSTEP_SE_ON_RQ :: u32 where "KSTEP_SE_ON_RQ \<equiv> 4"
abbreviation KSTEP_SE_CURR :: u32 where "KSTEP_SE_CURR \<equiv> 8"
abbreviation KSTEP_SE_PICK :: u32 where "KSTEP_SE_PICK \<equiv> 16"

text \<open>The signed fields are the words the reader takes as signed.\<close>

record kstep_shm_se =
  ss_weight :: u64
  ss_sum_exec_runtime :: u64
  ss_vruntime :: u64
  ss_deadline :: u64
  ss_slice :: u64
  ss_lag :: u64
  ss_flags :: u32

record kstep_shm_task =
  sk_cpus :: u64
  sk_sum_exec_runtime :: u64
  sk_task :: nat
  sk_state :: kstep_shm_task_state
  sk_cpu :: nat
  sk_policy :: int
  sk_nice :: int
  sk_rt_priority :: u32
  sk_cgroup :: nat

record kstep_shm_cgroup =
  sg_cpus :: u64
  sg_weight :: u32
  sg_path :: string

record kstep_shm_cfs =
  sf_util_avg :: u64
  sf_load_avg :: u64
  sf_runnable_avg :: u64
  sf_h_nr_runnable :: u64
  sf_cpu :: nat

record kstep_shm_entity =
  sn_se :: kstep_shm_se
  sn_task :: nat
  sn_cgroup :: nat
  sn_cpu :: nat

record kstep_shm_rt =
  sr_rt_time :: u64
  sr_rt_runtime :: u64
  sr_cpu :: nat
  sr_nr_running :: u32
  sr_highest_prio :: u32
  sr_throttled :: u32

abbreviation KSTEP_RT_ON_RQ :: u32 where "KSTEP_RT_ON_RQ \<equiv> 1"
abbreviation KSTEP_RT_CURR :: u32 where "KSTEP_RT_CURR \<equiv> 2"
abbreviation KSTEP_RT_PICK :: u32 where "KSTEP_RT_PICK \<equiv> 4"

record kstep_shm_rt_entity =
  sx_task :: nat
  sx_cpu :: nat
  sx_flags :: u32
  sx_position :: nat
  sx_time_slice :: u32

record kstep_shm_domain =
  sq_span :: u64
  sq_flags :: u64
  sq_cpu :: nat
  sq_group :: nat
  sq_ngroups :: nat
  sq_imbalance_pct :: u32
  sq_balance_interval :: u32
  sq_busy_factor :: u32
  sq_cache_nice_tries :: u32
  sq_nr_balance_failed :: u32
  sq_next_balance_in :: u32
  sq_balancer :: nat
  sq_name :: string

record kstep_shm_group =
  su_span :: u64
  su_capacity :: u32
  su_min_capacity :: u32
  su_max_capacity :: u32
  su_weight :: u32

record kstep_shm =
  shm_hdr :: kstep_shm_hdr
  shm_sd_flag :: "string list"
  shm_cpu :: "kstep_shm_cpu list"
  shm_task :: "kstep_shm_task list"
  shm_cgroup :: "kstep_shm_cgroup list"
  shm_domain :: "kstep_shm_domain list"
  shm_group :: "kstep_shm_group list"
  shm_cfs :: "kstep_shm_cfs list"
  shm_entity :: "kstep_shm_entity list"
  shm_rt :: "kstep_shm_rt list"
  shm_rt_entity_table :: "kstep_shm_rt_entity list"

text \<open>
  The flag names in the kernel's bit order, each without its \<open>SD_\<close> and cut to 23 characters, the
  first 32 of them. \<open>pages\<close> is the physical address of the zeroed pages, \<open>None\<close> where there are
  none.
\<close>

definition kstep_shm_init :: "nat \<Rightarrow> string list \<Rightarrow> u64 option \<Rightarrow> (u64 \<times> kstep_shm) outcome" where
  "kstep_shm_init version flag_names pages = (case pages of None \<Rightarrow> Inl ''Failed to allocate the shared region''
     | Some phys \<Rightarrow> Inr (phys,
         \<lparr>shm_hdr = \<lparr>sh_layout = KSTEP_SHM_LAYOUT, sh_features = (if version \<ge> KERNEL_VERSION 6 6 0 then KSTEP_SHM_EEVDF else 0),
            sh_timestamp = 0, sh_ncpus = 0, sh_ntasks = 0, sh_ncgroups = 0, sh_ndomains = 0, sh_ngroups = 0,
            sh_nentities = 0, sh_nrt_entities = 0\<rparr>,
          shm_sd_flag = map (\<lambda>n. take 23 (drop 3 n)) (take 32 flag_names),
          shm_cpu = [], shm_task = [], shm_cgroup = [], shm_domain = [], shm_group = [], shm_cfs = [], shm_entity = [],
          shm_rt = [], shm_rt_entity_table = []\<rparr>))"

section \<open>Entities of the fair class\<close>

text \<open>An entity and what its queue says of it: its current entity, its average, the kernel's pick.\<close>

record se_src =
  eo_id :: nat
  eo_weight :: u64
  eo_sum_exec_runtime :: u64
  eo_vruntime :: u64
  eo_deadline :: u64
  eo_slice :: u64
  eo_vlag :: u64
  eo_on_rq :: bool
  eo_delayed :: bool
  eo_eligible :: bool
  eo_queue :: nat
  eo_queue_curr :: "nat option"
  eo_avg_vruntime :: u64

text \<open>
  The two forms of the kernel's pick, looked up once: \<open>__pick_eevdf\<close> with the guard of the current
  entity on, or \<open>pick_eevdf\<close>; neither gives no pick.
\<close>

record pick_fns =
  pf_pick2 :: "(nat \<Rightarrow> bool \<Rightarrow> nat option) option"
  pf_pick1 :: "(nat \<Rightarrow> nat option) option"

definition pick_lookup :: "(nat \<Rightarrow> bool \<Rightarrow> nat option) option \<Rightarrow> (nat \<Rightarrow> nat option) option \<Rightarrow> pick_fns" where
  "pick_lookup sym2 sym1 = \<lparr>pf_pick2 = sym2, pf_pick1 = (if sym2 \<noteq> None then None else sym1)\<rparr>"

text \<open>The cached functions are \<open>None\<close> before the first call.\<close>

definition shm_pick :: "(nat \<Rightarrow> bool \<Rightarrow> nat option) option \<Rightarrow> (nat \<Rightarrow> nat option) option \<Rightarrow> nat \<Rightarrow> pick_fns option \<Rightarrow>
    nat option \<times> pick_fns option" where
  "shm_pick sym2 sym1 q cache = (let f = (case cache of Some f \<Rightarrow> f | None \<Rightarrow> pick_lookup sym2 sym1) in
     (case pf_pick2 f of Some p \<Rightarrow> p q True
      | None \<Rightarrow> (case pf_pick1 f of Some p \<Rightarrow> p q | None \<Rightarrow> None), Some f))"

definition shm_flag :: "bool \<Rightarrow> u32 \<Rightarrow> u32 \<Rightarrow> u32" where
  "shm_flag b m flags = (if b then flags OR m else flags)"

definition shm_se :: "nat \<Rightarrow> (nat \<Rightarrow> nat option) \<Rightarrow> se_src \<Rightarrow> kstep_shm_se" where
  "shm_se version pick se = (let eevdf = version \<ge> KERNEL_VERSION 6 6 0;
     flags = shm_flag (eo_on_rq se) KSTEP_SE_ON_RQ 0;
     flags = shm_flag (eo_queue_curr se = Some (eo_id se)) KSTEP_SE_CURR flags;
     flags = shm_flag (version \<ge> KERNEL_VERSION 6 12 0 \<and> eo_delayed se) KSTEP_SE_DELAYED flags;
     flags = shm_flag (eevdf \<and> eo_on_rq se \<and> eo_eligible se) KSTEP_SE_ELIGIBLE flags;
     flags = shm_flag (eevdf \<and> eo_on_rq se \<and> pick (eo_queue se) = Some (eo_id se)) KSTEP_SE_PICK flags in
     \<lparr>ss_weight = scale_load_down (eo_weight se), ss_sum_exec_runtime = eo_sum_exec_runtime se, ss_vruntime = eo_vruntime se,
      ss_deadline = (if eevdf then eo_deadline se else 0), ss_slice = (if eevdf then eo_slice se else 0),
      ss_lag = (if \<not> eevdf then 0 else if eo_on_rq se then eo_avg_vruntime se - eo_vruntime se else eo_vlag se),
      ss_flags = flags\<rparr>)"

text \<open>
  Each flag of an entity's record is the kernel's answer and no other: queued, current on its
  queue, dequeue delayed (from 6.12), and from 6.6, for a queued entity only, eligible and the pick.
\<close>
theorem entity_flags_decode:
  "let f = ss_flags (shm_se version pick se) in
    (f AND KSTEP_SE_ON_RQ \<noteq> 0) = eo_on_rq se
    \<and> (f AND KSTEP_SE_CURR \<noteq> 0) = (eo_queue_curr se = Some (eo_id se))
    \<and> (f AND KSTEP_SE_DELAYED \<noteq> 0) = (version \<ge> KERNEL_VERSION 6 12 0 \<and> eo_delayed se)
    \<and> (f AND KSTEP_SE_ELIGIBLE \<noteq> 0) = (version \<ge> KERNEL_VERSION 6 6 0 \<and> eo_on_rq se \<and> eo_eligible se)
    \<and> (f AND KSTEP_SE_PICK \<noteq> 0) = (version \<ge> KERNEL_VERSION 6 6 0 \<and> eo_on_rq se \<and> pick (eo_queue se) = Some (eo_id se))"
proof -
  have flags: "let f = shm_flag e 16 (shm_flag d 1 (shm_flag c 2 (shm_flag b 8 (shm_flag a 4 0)))) in
    (f AND 4 \<noteq> 0) = a \<and> (f AND 8 \<noteq> 0) = b \<and> (f AND 2 \<noteq> 0) = c \<and> (f AND 1 \<noteq> 0) = d \<and> (f AND 16 \<noteq> 0) = e" for a b c d e
    by (simp add: shm_flag_def)
  show ?thesis unfolding shm_se_def Let_def kstep_shm_se.simps by (rule flags[unfolded Let_def])
qed

section \<open>The real-time class\<close>

text \<open>
  A real-time queue is its priority lists, highest first; an entry is a task or a group with a queue
  of its own. The kernel's bitmap has the bit of a list set when the list is not empty.
\<close>

datatype rt_ent = Rt_task tptr | Rt_group "rt_ent list list"

fun rt_first :: "rt_ent list list \<Rightarrow> rt_ent option" where
  "rt_first [] = None"
| "rt_first ([] # qs) = rt_first qs"
| "rt_first ((e # es) # qs) = Some e"

lemma rt_first_size: "rt_first qs = Some e \<Longrightarrow> size e < size_list (size_list size) qs"
  by (induction qs rule: rt_first.induct) auto

function rt_walk :: "rt_ent list list \<Rightarrow> tptr option" where
  "rt_walk qs = (case rt_first qs of None \<Rightarrow> None | Some (Rt_task p) \<Rightarrow> Some p | Some (Rt_group qs') \<Rightarrow> rt_walk qs')"
  by pat_completeness auto
termination
  by (relation "measure (size_list (size_list size))") (auto dest: rt_first_size)

declare rt_walk.simps [simp del]

record rt_src =
  rs_queued :: bool
  rs_nr_running :: u32
  rs_active :: "rt_ent list list"
  rs_highest_prio :: u32
  rs_throttled :: u32
  rs_rt_time :: u64
  rs_rt_runtime :: u64

definition shm_rt_pick :: "rt_src \<Rightarrow> tptr option" where
  "shm_rt_pick rt = (if \<not> rs_queued rt \<or> rs_nr_running rt = 0 then None else rt_walk (rs_active rt))"

text \<open>A task as the code reads it; \<open>ko_path\<close> is its cgroup's path, \<open>None\<close> where it does not fit.\<close>

record task_src =
  ko_ptr :: tptr
  ko_exit :: bool
  ko_on_cpu :: bool
  ko_state :: u32
  ko_cpu :: nat
  ko_policy :: int
  ko_nice :: int
  ko_rt_priority :: u32
  ko_cpus :: u64
  ko_path :: "string option"
  ko_se :: se_src
  ko_prio :: nat
  ko_rt_on_rq :: bool
  ko_rt_on_list :: bool
  ko_rt_active :: "rt_ent list list"
  ko_time_slice :: u32

text \<open>\<open>cur\<close> is what runs on the task's CPU.\<close>

definition shm_rt_entity :: "task_src \<Rightarrow> nat \<Rightarrow> tptr \<Rightarrow> tptr option \<Rightarrow> kstep_shm_rt_entity" where
  "shm_rt_entity p task cur pick = (let
     flags = shm_flag (ko_rt_on_rq p) KSTEP_RT_ON_RQ 0;
     flags = shm_flag (cur = ko_ptr p) KSTEP_RT_CURR flags;
     flags = shm_flag (pick = Some (ko_ptr p)) KSTEP_RT_PICK flags in
     \<lparr>sx_task = task, sx_cpu = ko_cpu p, sx_flags = flags,
      sx_position = (if ko_rt_on_list p then length (takeWhile (\<lambda>e. e \<noteq> Rt_task (ko_ptr p)) (ko_rt_active p ! ko_prio p)) else 0),
      sx_time_slice = ko_time_slice p\<rparr>)"

section \<open>The cgroups\<close>

text \<open>
  A task group: whether it has a parent (the root group has none), its shares and its entity on each
  CPU. A cgroup of the walk, in tree order: whether it is online, its path (\<open>None\<close> where it does not
  fit), its task group where the cpu controller is on, its effective CPUs where the cpuset one is.
\<close>

record tg_src =
  gr_parent :: bool
  gr_shares :: u64
  gr_se :: "nat \<Rightarrow> se_src option"

record cg_src =
  cg_online :: bool
  cg_path :: "string option"
  cg_tg :: "tg_src option"
  cg_cpus :: "u64 option"

text \<open>The build and the kernel's constants: \<open>sm_m2j\<close> is \<open>msecs_to_jiffies\<close>.\<close>

record shm_conf =
  sm_version :: nat
  sm_hz :: u64
  sm_m2j :: "u64 \<Rightarrow> u64"
  sm_share_cpucapacity :: u64
  sm_pick :: "nat \<Rightarrow> nat option"
  sm_rt_group :: bool
  sm_jiffies :: u64

definition shm_tg :: "cg_src \<Rightarrow> tg_src option" where
  "shm_tg g = cg_tg g"

definition shm_group_entity :: "shm_conf \<Rightarrow> nat \<Rightarrow> tg_src \<Rightarrow> nat \<Rightarrow> kstep_shm_entity list \<Rightarrow> kstep_shm_entity list" where
  "shm_group_entity c cgroup tg cpu ents = (case gr_se tg cpu of None \<Rightarrow> ents
     | Some se \<Rightarrow> if length ents = KSTEP_SHM_ENTITIES then ents
         else ents @ [\<lparr>sn_se = shm_se (sm_version c) (sm_pick c) se, sn_task = 0, sn_cgroup = cgroup, sn_cpu = cpu\<rparr>])"

definition shm_group_entities :: "shm_conf \<Rightarrow> nat \<Rightarrow> nat \<Rightarrow> tg_src option \<Rightarrow> kstep_shm_entity list \<Rightarrow> kstep_shm_entity list" where
  "shm_group_entities c ncpus cgroup tg ents = (case tg of None \<Rightarrow> ents
     | Some tg \<Rightarrow> if \<not> gr_parent tg then ents else fold (shm_group_entity c cgroup tg) (test_cpus ncpus) ents)"

definition DIV_ROUND_CLOSEST_ULL :: "u64 \<Rightarrow> u64 \<Rightarrow> u64" where
  "DIV_ROUND_CLOSEST_ULL x d = (x + d div 2) div d"

definition shm_weight :: "u64 \<Rightarrow> u32" where
  "shm_weight shares = ucast (min 10000 (max 1 (DIV_ROUND_CLOSEST_ULL (scale_load_down shares * 100) 1024)))"

definition shm_cgroup_row :: "cg_src \<Rightarrow> string \<Rightarrow> kstep_shm_cgroup" where
  "shm_cgroup_row g path =
     \<lparr>sg_cpus = (case cg_cpus g of None \<Rightarrow> 0 | Some m \<Rightarrow> m),
      sg_weight = (case shm_tg g of None \<Rightarrow> 0 | Some tg \<Rightarrow> if gr_parent tg then shm_weight (gr_shares tg) else 0),
      sg_path = path\<rparr>"

fun shm_cgroups_loop :: "shm_conf \<Rightarrow> nat \<Rightarrow> cg_src list \<Rightarrow> kstep_shm_cgroup list \<Rightarrow> kstep_shm_entity list \<Rightarrow>
    kstep_shm_cgroup list \<times> kstep_shm_entity list" where
  "shm_cgroups_loop c ncpus [] out ents = (out, ents)"
| "shm_cgroups_loop c ncpus (g # gs) out ents =
     (if length out = KSTEP_SHM_CGROUPS then (out, ents)
      else if \<not> cg_online g then shm_cgroups_loop c ncpus gs out ents
      else case cg_path g of None \<Rightarrow> shm_cgroups_loop c ncpus gs out ents
        | Some path \<Rightarrow> shm_cgroups_loop c ncpus gs (out @ [shm_cgroup_row g path])
            (shm_group_entities c ncpus (length out) (shm_tg g) ents))"

text \<open>\<open>None\<close>: the root cgroup was not found.\<close>

definition shm_collect_cgroups :: "shm_conf \<Rightarrow> nat \<Rightarrow> cg_src list option \<Rightarrow> kstep_shm_cgroup list \<times> kstep_shm_entity list" where
  "shm_collect_cgroups c ncpus gs = (case gs of None \<Rightarrow> ([], []) | Some gs \<Rightarrow> shm_cgroups_loop c ncpus gs [] [])"

section \<open>The sched domains\<close>

record group_src =
  go_span :: u64
  go_capacity :: u64
  go_min_capacity :: u64
  go_max_capacity :: u64
  go_weight :: u32

text \<open>\<open>dn_groups\<close> is the circle of groups from the CPU's own, \<open>dn_mask\<close> that group's balance mask.\<close>

record sd_src =
  dn_span :: u64
  dn_flags :: u64
  dn_name :: string
  dn_imbalance_pct :: u32
  dn_balance_interval :: u64
  dn_nr_balance_failed :: u32
  dn_busy_factor :: u32
  dn_cache_nice_tries :: u32
  dn_last_balance :: u64
  dn_groups :: "group_src list"
  dn_mask :: "nat list"

record cpu_src =
  ru_curr :: tptr
  ru_idle :: tptr
  ru_nr_running :: u32
  ru_nr_switches :: u64
  ru_ttwu_pending :: bool
  ru_next_balance :: u64
  ru_util_avg :: u64
  ru_load_avg :: u64
  ru_runnable_avg :: u64
  ru_h_nr_runnable :: u32
  ru_rt :: rt_src
  ru_capacity :: u64
  ru_freq :: u64
  ru_domains :: "sd_src list"
  ru_smt :: "nat list"

definition shm_idle_cpu :: "(nat \<Rightarrow> cpu_src) \<Rightarrow> nat \<Rightarrow> bool" where
  "shm_idle_cpu R cpu \<longleftrightarrow> ru_curr (R cpu) = ru_idle (R cpu) \<and> ru_nr_running (R cpu) = 0 \<and> \<not> ru_ttwu_pending (R cpu)"

definition time_after :: "u64 \<Rightarrow> u64 \<Rightarrow> bool" where
  "time_after a b \<longleftrightarrow> sint (b - a) < 0"

definition balance_in :: "u64 \<Rightarrow> u64 \<Rightarrow> u32" where
  "balance_in deadline now = (if time_after deadline now then ucast (deadline - now) else 0)"

definition sd_interval :: "shm_conf \<Rightarrow> bool \<Rightarrow> sd_src \<Rightarrow> u64" where
  "sd_interval c busy sd = (let interval = dn_balance_interval sd;
     interval = (if busy then interval * ucast (dn_busy_factor sd) else interval);
     interval = sm_m2j c interval;
     interval = (if busy then interval - 1 else interval) in
     if interval < 1 then 1 else if interval > sm_hz c div 10 then sm_hz c div 10 else interval)"

text \<open>The loop over the mask: the first idle CPU, and the first on a wholly idle core.\<close>

fun idle_loop :: "(nat \<Rightarrow> cpu_src) \<Rightarrow> nat list \<Rightarrow> nat option \<Rightarrow> nat option \<times> nat option" where
  "idle_loop R [] first_idle = (first_idle, None)"
| "idle_loop R (cpu # cpus) first_idle =
     (if \<not> shm_idle_cpu R cpu then idle_loop R cpus first_idle
      else let first_idle = (case first_idle of None \<Rightarrow> Some cpu | Some f \<Rightarrow> Some f) in
        if list_all (shm_idle_cpu R) (ru_smt (R cpu)) then (first_idle, Some cpu) else idle_loop R cpus first_idle)"

definition sd_balancer :: "shm_conf \<Rightarrow> (nat \<Rightarrow> cpu_src) \<Rightarrow> sd_src \<Rightarrow> nat" where
  "sd_balancer c R sd = (let (first_idle, idle_core) = idle_loop R (dn_mask sd) None;
     pick = (if dn_flags sd AND sm_share_cpucapacity c \<noteq> 0 then first_idle
             else case idle_core of Some i \<Rightarrow> Some i | None \<Rightarrow> first_idle) in
     case pick of Some i \<Rightarrow> i | None \<Rightarrow> hd (dn_mask sd))"

definition shm_group_row :: "group_src \<Rightarrow> kstep_shm_group" where
  "shm_group_row g = \<lparr>su_span = go_span g, su_capacity = ucast (go_capacity g), su_min_capacity = ucast (go_min_capacity g),
     su_max_capacity = ucast (go_max_capacity g), su_weight = go_weight g\<rparr>"

text \<open>The row of one domain and the groups copied for it, as many as there is room for.\<close>

definition shm_domain_row :: "shm_conf \<Rightarrow> (nat \<Rightarrow> cpu_src) \<Rightarrow> nat \<Rightarrow> sd_src \<Rightarrow> kstep_shm_group list \<Rightarrow> kstep_shm_domain \<times> kstep_shm_group list" where
  "shm_domain_row c R cpu sd groups = (let busy = ru_curr (R cpu) \<noteq> ru_idle (R cpu);
     new = map shm_group_row (take (KSTEP_SHM_GROUPS - length groups) (dn_groups sd)) in
     (\<lparr>sq_span = dn_span sd, sq_flags = dn_flags sd, sq_cpu = cpu, sq_group = length groups, sq_ngroups = length new,
       sq_imbalance_pct = dn_imbalance_pct sd, sq_balance_interval = ucast (dn_balance_interval sd), sq_busy_factor = dn_busy_factor sd,
       sq_cache_nice_tries = dn_cache_nice_tries sd, sq_nr_balance_failed = dn_nr_balance_failed sd,
       sq_next_balance_in = balance_in (dn_last_balance sd + sd_interval c busy sd) (sm_jiffies c),
       sq_balancer = sd_balancer c R sd, sq_name = take 7 (dn_name sd)\<rparr>, groups @ new))"

fun shm_cpu_domains :: "shm_conf \<Rightarrow> (nat \<Rightarrow> cpu_src) \<Rightarrow> nat \<Rightarrow> sd_src list \<Rightarrow> kstep_shm_domain list \<Rightarrow> kstep_shm_group list \<Rightarrow>
    kstep_shm_domain list \<times> kstep_shm_group list" where
  "shm_cpu_domains c R cpu [] out groups = (out, groups)"
| "shm_cpu_domains c R cpu (sd # sds) out groups =
     (if length out = KSTEP_SHM_DOMAINS then (out, groups)
      else let (d, groups) = shm_domain_row c R cpu sd groups in shm_cpu_domains c R cpu sds (out @ [d]) groups)"

definition shm_collect_domains :: "shm_conf \<Rightarrow> (nat \<Rightarrow> cpu_src) \<Rightarrow> nat \<Rightarrow> kstep_shm_domain list \<times> kstep_shm_group list" where
  "shm_collect_domains c R ncpus = fold (\<lambda>cpu (out, groups). if length out < KSTEP_SHM_DOMAINS
     then shm_cpu_domains c R cpu (ru_domains (R cpu)) out groups else (out, groups)) (test_cpus ncpus) ([], [])"

section \<open>The update\<close>

text \<open>\<open>curr\<close>: the number of the last task of the table that runs there, 0 for none.\<close>

definition shm_curr :: "tptr list \<Rightarrow> tptr \<Rightarrow> nat" where
  "shm_curr tasks p = fold (\<lambda>i cur. if tasks ! i = p then i + 1 else cur) [0..<length tasks] 0"

definition shm_cpu_row :: "shm_conf \<Rightarrow> tptr list \<Rightarrow> nat \<Rightarrow> cpu_src \<Rightarrow> kstep_shm_cpu" where
  "shm_cpu_row c tasks cpu r = \<lparr>sc_nr_running = ucast (ru_nr_running r), sc_nr_switches = ru_nr_switches r, sc_cpu = cpu,
     sc_curr = shm_curr tasks (ru_curr r), sc_idle = (ru_curr r = ru_idle r), sc_capacity = ucast (ru_capacity r),
     sc_freq = ucast (ru_freq r), sc_next_balance_in = balance_in (ru_next_balance r) (sm_jiffies c)\<rparr>"

definition shm_cfs_row :: "nat \<Rightarrow> cpu_src \<Rightarrow> kstep_shm_cfs" where
  "shm_cfs_row cpu r = \<lparr>sf_util_avg = ru_util_avg r, sf_load_avg = ru_load_avg r, sf_runnable_avg = ru_runnable_avg r,
     sf_h_nr_runnable = ucast (ru_h_nr_runnable r), sf_cpu = cpu\<rparr>"

definition shm_rt_row :: "shm_conf \<Rightarrow> nat \<Rightarrow> cpu_src \<Rightarrow> kstep_shm_rt" where
  "shm_rt_row c cpu r = (let rt = ru_rt r in
     \<lparr>sr_rt_time = (if sm_rt_group c then rs_rt_time rt else 0), sr_rt_runtime = (if sm_rt_group c then rs_rt_runtime rt else 0),
      sr_cpu = cpu, sr_nr_running = rs_nr_running rt, sr_highest_prio = rs_highest_prio rt,
      sr_throttled = (if sm_rt_group c then rs_throttled rt else 0)\<rparr>)"

abbreviation TASK_INTERRUPTIBLE :: u32 where "TASK_INTERRUPTIBLE \<equiv> 1"

definition shm_task_state :: "task_src \<Rightarrow> kstep_shm_task_state" where
  "shm_task_state p = (if ko_on_cpu p then KSTEP_TASK_RUNNING else if ko_state p = 0 then KSTEP_TASK_RUNNABLE
     else if ko_state p AND TASK_INTERRUPTIBLE \<noteq> 0 then KSTEP_TASK_SLEEPING else KSTEP_TASK_BLOCKED)"

text \<open>The row of the cgroup with the task's path, the root's (0) where there is none.\<close>

definition shm_task_cgroup :: "kstep_shm_cgroup list \<Rightarrow> string option \<Rightarrow> nat" where
  "shm_task_cgroup cgroups path = (case path of None \<Rightarrow> 0
     | Some p \<Rightarrow> (case List.find (\<lambda>g. sg_path (cgroups ! g) = p) [0..<length cgroups] of None \<Rightarrow> 0 | Some g \<Rightarrow> g))"

definition rt_policy :: "int \<Rightarrow> bool" where "rt_policy p \<longleftrightarrow> p = 1 \<or> p = 2"
definition fair_policy :: "int \<Rightarrow> bool" where "fair_policy p \<longleftrightarrow> p = 0 \<or> p = 3"
definition idle_policy :: "int \<Rightarrow> bool" where "idle_policy p \<longleftrightarrow> p = 5"

text \<open>One task: its row, and its record in the table of the class its policy names.\<close>

definition shm_task_one :: "shm_conf \<Rightarrow> (nat \<Rightarrow> cpu_src) \<Rightarrow> nat \<Rightarrow> kstep_shm_cgroup list \<Rightarrow> nat \<Rightarrow> task_src \<Rightarrow>
    kstep_shm_task list \<times> kstep_shm_rt_entity list \<times> kstep_shm_entity list \<Rightarrow>
    kstep_shm_task list \<times> kstep_shm_rt_entity list \<times> kstep_shm_entity list" where
  "shm_task_one c R ncpus cgroups i p st = (case st of (rows, rts, ents) \<Rightarrow>
     let g = shm_task_cgroup cgroups (ko_path p);
         row = \<lparr>sk_cpus = ko_cpus p, sk_sum_exec_runtime = eo_sum_exec_runtime (ko_se p), sk_task = i + 1, sk_state = shm_task_state p,
           sk_cpu = ko_cpu p, sk_policy = ko_policy p, sk_nice = ko_nice p, sk_rt_priority = ko_rt_priority p, sk_cgroup = g\<rparr>;
         pick = (if 1 \<le> ko_cpu p \<and> ko_cpu p \<le> ncpus then shm_rt_pick (ru_rt (R (ko_cpu p))) else None) in
     (rows @ [row],
      if rt_policy (ko_policy p) then rts @ [shm_rt_entity p (i + 1) (ru_curr (R (ko_cpu p))) pick] else rts,
      if \<not> rt_policy (ko_policy p) \<and> (fair_policy (ko_policy p) \<or> idle_policy (ko_policy p)) \<and> length ents < KSTEP_SHM_ENTITIES
      then ents @ [\<lparr>sn_se = shm_se (sm_version c) (sm_pick c) (ko_se p), sn_task = i + 1, sn_cgroup = g, sn_cpu = ko_cpu p\<rparr>]
      else ents))"

fun shm_tasks_loop :: "shm_conf \<Rightarrow> (nat \<Rightarrow> cpu_src) \<Rightarrow> nat \<Rightarrow> kstep_shm_cgroup list \<Rightarrow> nat \<Rightarrow> task_src list \<Rightarrow>
    kstep_shm_task list \<times> kstep_shm_rt_entity list \<times> kstep_shm_entity list \<Rightarrow>
    kstep_shm_task list \<times> kstep_shm_rt_entity list \<times> kstep_shm_entity list" where
  "shm_tasks_loop c R ncpus cgroups i [] st = st"
| "shm_tasks_loop c R ncpus cgroups i (p # ps) st =
     (if length (fst st) \<ge> SHM_TASKS then st
      else shm_tasks_loop c R ncpus cgroups (i + 1) ps (if ko_exit p then st else shm_task_one c R ncpus cgroups i p st))"

definition kstep_shm_update :: "shm_conf \<Rightarrow> (nat \<Rightarrow> cpu_src) \<Rightarrow> nat \<Rightarrow> u64 \<Rightarrow> cg_src list option \<Rightarrow> task_src list \<Rightarrow> kstep_shm \<Rightarrow> kstep_shm" where
  "kstep_shm_update c R ncpus now gs tasks s = (let
     (cgroups, ents) = shm_collect_cgroups c ncpus gs;
     ptrs = map ko_ptr tasks;
     (rows, rts, ents) = shm_tasks_loop c R ncpus cgroups 0 tasks ([], [], ents);
     (domains, groups) = shm_collect_domains c R ncpus in
     s\<lparr>shm_cpu := map (\<lambda>cpu. shm_cpu_row c ptrs cpu (R cpu)) (test_cpus ncpus),
       shm_cfs := map (\<lambda>cpu. shm_cfs_row cpu (R cpu)) (test_cpus ncpus),
       shm_rt := map (\<lambda>cpu. shm_rt_row c cpu (R cpu)) (test_cpus ncpus),
       shm_task := rows, shm_rt_entity_table := rts, shm_cgroup := cgroups, shm_entity := ents,
       shm_domain := domains, shm_group := groups,
       shm_hdr := (shm_hdr s)\<lparr>sh_timestamp := ucast now, sh_ncpus := ncpus, sh_ntasks := length rows, sh_ncgroups := length cgroups,
         sh_ndomains := length domains, sh_ngroups := length groups, sh_nentities := length ents, sh_nrt_entities := length rts\<rparr>\<rparr>)"


section \<open>Who balances\<close>

text \<open>
  The balancer as \<open>should_we_balance\<close> states it: the first CPU of the mask on a wholly idle core,
  inside a core or where there is none the first idle CPU, and the first CPU where nothing is idle.
\<close>

definition core_idle :: "(nat \<Rightarrow> cpu_src) \<Rightarrow> nat \<Rightarrow> bool" where
  "core_idle R cpu \<longleftrightarrow> shm_idle_cpu R cpu \<and> list_all (shm_idle_cpu R) (ru_smt (R cpu))"

definition should_we_balance :: "bool \<Rightarrow> (nat \<Rightarrow> cpu_src) \<Rightarrow> nat list \<Rightarrow> nat" where
  "should_we_balance smt R cpus = hd ((if smt then [] else filter (core_idle R) cpus) @ filter (shm_idle_cpu R) cpus @ cpus)"

lemma idle_loop_core: "snd (idle_loop R cpus f) = List.find (core_idle R) cpus"
  by (induction cpus arbitrary: f) (auto simp: core_idle_def Let_def)

lemma idle_loop_first: "fst (idle_loop R cpus f) = (case f of Some i \<Rightarrow> Some i | None \<Rightarrow> List.find (shm_idle_cpu R) cpus)"
  by (induction cpus arbitrary: f) (auto simp: Let_def split: option.splits)

lemma find_filter: "List.find P xs = (case filter P xs of [] \<Rightarrow> None | x # _ \<Rightarrow> Some x)"
  by (induction xs) auto

lemma core_idle_filter_None: "filter (shm_idle_cpu R) cpus = [] \<Longrightarrow> filter (core_idle R) cpus = []"
  by (auto simp: filter_empty_conv core_idle_def)

text \<open>
  C24. The balancer reported for a domain, found in one pass over the group's mask that stops at the
  first wholly idle core, is the one the reference gives: on an SMT level the first idle CPU, above it
  the first CPU of an idle core before the first idle CPU, and the mask's first CPU where none is idle.
\<close>
theorem balancer_is_the_reference:
  "sd_balancer c R sd = should_we_balance (dn_flags sd AND sm_share_cpucapacity c \<noteq> 0) R (dn_mask sd)"
proof -
  obtain fi ic where l: "idle_loop R (dn_mask sd) None = (fi, ic)" by fastforce
  have "fi = List.find (shm_idle_cpu R) (dn_mask sd)" "ic = List.find (core_idle R) (dn_mask sd)"
    using idle_loop_first[of R "dn_mask sd" None] idle_loop_core[of R "dn_mask sd" None] l by simp_all
  then show ?thesis
    by (simp add: sd_balancer_def should_we_balance_def l find_filter split: list.split)
qed

section \<open>When it balances next\<close>

lemma sint_minus_small:
  fixes d :: u64
  assumes "uint d < 2 ^ 63"
  shows "sint (- d) = - uint d"
proof -
  have "- d = word_of_int (- uint d)" by simp
  then have "sint (- d) = (- uint d + 2 ^ 63) mod 2 ^ 64 - 2 ^ 63" by (simp only: int_word_sint) simp
  also have "(- uint d + 2 ^ 63) mod 2 ^ 64 = - uint d + 2 ^ 63"
  proof (rule mod_pos_pos_trivial)
    have "- uint d + 2 ^ 63 \<le> 2 ^ 63" by simp
    also have "2 ^ 63 < (2 ^ 64 :: int)" by simp
    finally show "- uint d + 2 ^ 63 < 2 ^ 64" .
    show "0 \<le> - uint d + 2 ^ 63" using assms by simp
  qed
  finally show ?thesis by simp
qed

lemma balance_in_ahead:
  assumes "0 < d" "d < 2 ^ 31"
  shows "balance_in (now + d) now = ucast d"
proof -
  have "uint d < 2 ^ 31" "0 < uint d" using assms by (simp_all add: word_less_def)
  then show ?thesis by (simp add: balance_in_def time_after_def sint_minus_small)
qed

lemma balance_in_due [simp]: "balance_in now now = 0"
  by (simp add: balance_in_def time_after_def)

lemma clamp_bounds:
  fixes i :: "'a::linorder"
  assumes "l \<le> h"
  shows "l \<le> (if i < l then l else if i > h then h else i)" "(if i < l then l else if i > h then h else i) \<le> h"
  using assms by auto

lemma sd_interval_bounds:
  assumes "10 \<le> sm_hz c"
  shows "1 \<le> sd_interval c busy sd \<and> sd_interval c busy sd \<le> sm_hz c div 10"
proof -
  have "1 \<le> sm_hz c div 10" using assms by (simp add: word_le_def uint_div div_le_mono)
  then show ?thesis unfolding sd_interval_def Let_def by (intro conjI clamp_bounds)
qed

text \<open>
  On a kernel with \<open>HZ\<close> between 10 and 10000, a level is never reported as balancing in a
  period of 0 or over \<open>HZ / 10\<close> jiffies: a domain balanced just now waits exactly its interval, which
  is between one jiffy and a tenth of a second, also on a busy CPU whose interval comes to 0 jiffies
  and wraps when one is taken off.
\<close>
theorem next_balance_is_bounded:
  assumes "10 \<le> sm_hz c" "sm_hz c \<le> 10000" "dn_last_balance sd = sm_jiffies c"
  shows "let w = sq_next_balance_in (fst (shm_domain_row c R cpu sd groups)) in
    w = ucast (sd_interval c (ru_curr (R cpu) \<noteq> ru_idle (R cpu)) sd) \<and> 1 \<le> w \<and> unat w \<le> unat (sm_hz c) div 10"
proof -
  let ?i = "sd_interval c (ru_curr (R cpu) \<noteq> ru_idle (R cpu)) sd"
  have b: "1 \<le> ?i" "?i \<le> sm_hz c div 10" using sd_interval_bounds[OF assms(1)] by blast+
  then have u: "1 \<le> unat ?i" "unat ?i \<le> unat (sm_hz c) div 10" by (simp_all add: word_le_nat_alt unat_div)
  have h: "unat (sm_hz c) \<le> 10000" using assms(2) by (simp add: word_le_nat_alt)
  have k: "unat ?i < 2 ^ 31" using u(2) div_le_mono[OF h, of 10] by simp
  then have "?i < 2 ^ 31" by (simp add: word_less_nat_alt)
  moreover have "0 < ?i" using u by (simp add: word_less_nat_alt)
  moreover have "unat (ucast ?i :: u32) = unat ?i" using k by (simp add: unsigned_ucast_eq take_bit_nat_eq_self)
  ultimately show ?thesis
    using u assms(3) by (simp add: shm_domain_row_def Let_def balance_in_ahead word_le_nat_alt)
qed

section \<open>Weights\<close>

lemma unat_plus_small: "unat (a :: u64) + unat b < 2 ^ 64 \<Longrightarrow> unat (a + b) = unat a + unat b"
  by (simp add: unat_word_ariths)

lemma unat_mult_small: "unat (a :: u64) * unat b < 2 ^ 64 \<Longrightarrow> unat (a * b) = unat a * unat b"
  by (simp add: unat_word_ariths)

lemma unat_div_round_closest:
  assumes "unat x + unat d div 2 < 2 ^ 64"
  shows "unat (DIV_ROUND_CLOSEST_ULL x d) = (unat x + unat d div 2) div unat d"
  using assms by (simp add: DIV_ROUND_CLOSEST_ULL_def unat_div unat_plus_small)

text \<open>What the kernel stores for a \<open>cpu.weight\<close>: the weight over 100 of 1024, at the load's resolution.\<close>

definition shares_of_weight :: "u64 \<Rightarrow> u64" where
  "shares_of_weight w = push_bit 10 (DIV_ROUND_CLOSEST_ULL (w * 1024) 100)"

lemma round_trip_nat: "((((w :: nat) * 1024 + 50) div 100) * 100 + 512) div 1024 = w"
proof -
  let ?a = "(w * 1024 + 50) div 100"
  have "?a * 100 \<le> w * 1024 + 50" "w * 1024 + 50 < ?a * 100 + 100"
    using div_times_less_eq_dividend[of "w * 1024 + 50" 100] dividend_less_div_times[of 100 "w * 1024 + 50"] by simp_all
  then show ?thesis by (intro div_nat_eqI) simp_all
qed

text \<open>
  C30. The weight the region reports for a cgroup is the weight its user wrote: for every
  \<open>cpu.weight\<close> from 1 to 10000, the shares the kernel keeps for it, rounded twice, read back as it.
\<close>
theorem weight_round_trip:
  assumes "1 \<le> unat w" "unat w \<le> 10000" "gr_parent tg" "gr_shares tg = shares_of_weight w" "cg_tg g = Some tg"
  shows "unat (sg_weight (shm_cgroup_row g path)) = unat w"
proof -
  let ?a = "DIV_ROUND_CLOSEST_ULL (w * 1024) 100"
  have m: "unat (w * 1024) = unat w * 1024" using assms(2) by (simp add: unat_mult_small)
  have a: "unat ?a = (unat w * 1024 + 50) div 100" using assms(2) by (simp add: unat_div_round_closest m)
  have ab: "10 \<le> unat ?a" "unat ?a \<le> 102400"
    using div_le_mono[of 1000 "unat w * 1024 + 50" 100] div_le_mono[of "unat w * 1024 + 50" 10240050 100] assms(1,2)
    by (simp_all add: a)
  have p: "unat (push_bit 10 ?a) = unat ?a * 1024" using ab(2) by (simp add: push_bit_eq_mult unat_mult_small)
  then have "drop_bit 10 (push_bit 10 ?a) = ?a"
    by (simp add: word_unat_eq_iff drop_bit_eq_div unat_div)
  moreover have "2 \<le> ?a" "push_bit 10 ?a \<noteq> 0" using ab(1) p by (auto simp: word_le_nat_alt)
  ultimately have s: "scale_load_down (gr_shares tg) = ?a"
    by (simp add: scale_load_down_def assms(4) shares_of_weight_def max_def)
  let ?w = "DIV_ROUND_CLOSEST_ULL (?a * 100) 1024"
  have "unat (?a * 100) = unat ?a * 100" using ab(2) by (simp add: unat_mult_small)
  then have "unat ?w = unat w" using ab(2) by (simp add: unat_div_round_closest a round_trip_nat)
  then have "?w = w" by (simp add: word_unat_eq_iff)
  moreover have "1 \<le> w" "w \<le> 10000" using assms(1,2) by (simp_all add: word_le_nat_alt)
  then have "min 10000 (max 1 w) = w" by (simp only: max_absorb2 min_absorb2)
  moreover have "unat (ucast w :: u32) = unat w" using assms(2) by (simp add: unsigned_ucast_eq take_bit_nat_eq_self)
  ultimately show ?thesis using assms(3,5) by (simp add: shm_cgroup_row_def shm_tg_def shm_weight_def s)
qed

section \<open>The real-time pick\<close>

text \<open>
  A queue is sound when every group queued on it has something queued itself, which is when the
  kernel puts a group's entity on a list. A path is the entities the kernel descends through.
\<close>

lemma rt_group_smaller:
  assumes "q \<in> set qs" "Rt_group qs' \<in> set q"
  shows "size_list (size_list size) qs' < size_list (size_list size) qs"
proof -
  have "size (Rt_group qs') \<le> size_list size q" "size_list size q \<le> size_list (size_list size) qs"
    using assms by (auto simp: size_list_estimation' simp del: rt_ent.size)
  then show ?thesis by simp
qed

function rt_sound :: "rt_ent list list \<Rightarrow> bool" where
  "rt_sound qs \<longleftrightarrow> (\<forall>q\<in>set qs. \<forall>e\<in>set q. case e of Rt_task p \<Rightarrow> True | Rt_group qs' \<Rightarrow> concat qs' \<noteq> [] \<and> rt_sound qs')"
  by pat_completeness auto
termination by (relation "measure (size_list (size_list size))") (auto intro: rt_group_smaller)

declare rt_sound.simps [simp del]

lemma rt_first_None: "rt_first qs = None \<longleftrightarrow> concat qs = []"
  by (induction qs rule: rt_first.induct) auto

lemma rt_first_in: "rt_first qs = Some e \<Longrightarrow> \<exists>q\<in>set qs. e \<in> set q"
  by (induction qs rule: rt_first.induct) auto

lemma rt_sound_group: "rt_sound qs \<Longrightarrow> rt_first qs = Some (Rt_group qs') \<Longrightarrow> concat qs' \<noteq> [] \<and> rt_sound qs'"
  by (subst (asm) rt_sound.simps) (fastforce dest: rt_first_in)

text \<open>The tasks queued on a queue or, through its groups, below it.\<close>

function rt_tasks :: "rt_ent list list \<Rightarrow> tptr list" where
  "rt_tasks qs = concat (map (\<lambda>q. concat (map (\<lambda>e. case e of Rt_task p \<Rightarrow> [p] | Rt_group qs' \<Rightarrow> rt_tasks qs') q)) qs)"
  by pat_completeness auto
termination by (relation "measure (size_list (size_list size))") (auto intro: rt_group_smaller)

declare rt_tasks.simps [simp del]

abbreviation rt_ent_tasks :: "rt_ent \<Rightarrow> tptr list" where
  "rt_ent_tasks e \<equiv> (case e of Rt_task p \<Rightarrow> [p] | Rt_group qs \<Rightarrow> rt_tasks qs)"

lemma rt_tasks_first: "rt_first qs = Some e \<Longrightarrow> \<exists>ps. rt_tasks qs = rt_ent_tasks e @ ps"
proof (induction qs rule: rt_first.induct)
  case (2 qs)
  then show ?case by (simp add: rt_tasks.simps[of "[] # qs"] rt_tasks.simps[of qs, symmetric])
next
  case (3 x xs qs)
  then have "x = e" by simp
  then show ?case by (simp add: rt_tasks.simps[of "(e # xs) # qs"])
qed simp

lemma rt_walk_hd: "rt_sound qs \<Longrightarrow> concat qs \<noteq> [] \<Longrightarrow> rt_tasks qs \<noteq> [] \<and> rt_walk qs = Some (hd (rt_tasks qs))"
proof (induction qs rule: rt_walk.induct)
  case (1 qs)
  obtain e where e: "rt_first qs = Some e" using 1(3) rt_first_None by fastforce
  obtain ps where ps: "rt_tasks qs = rt_ent_tasks e @ ps" using rt_tasks_first[OF e] by blast
  show ?case
  proof (cases e)
    case (Rt_task p)
    then show ?thesis using e ps by (simp add: rt_walk.simps[of qs])
  next
    case (Rt_group qs')
    with 1(1)[OF e Rt_group] rt_sound_group[OF 1(2)] e ps show ?thesis by (simp add: rt_walk.simps[of qs])
  qed
qed

text \<open>
  C25. The walk for the real-time class's next task ends for every nesting of groups: on a CPU whose
  class is queued and whose queues are sound with something on them, it returns a task, the first in
  the order the lists are kept, priority by priority and through the groups; on a CPU the bandwidth
  control has dequeued it returns none.
\<close>
theorem rt_pick_is_the_first:
  assumes "rt_sound (rs_active rt)" "concat (rs_active rt) \<noteq> []"
  shows "shm_rt_pick rt = (if rs_queued rt \<and> rs_nr_running rt \<noteq> 0 then Some (hd (rt_tasks (rs_active rt))) else None)
    \<and> hd (rt_tasks (rs_active rt)) \<in> set (rt_tasks (rs_active rt))"
  using rt_walk_hd[OF assms] by (simp add: shm_rt_pick_def)

section \<open>The tables\<close>

lemma fold_group_entity_length:
  "length ents \<le> KSTEP_SHM_ENTITIES \<Longrightarrow> length (fold (shm_group_entity c g tg) cpus ents) \<le> KSTEP_SHM_ENTITIES
    \<and> length (fold (shm_group_entity c g tg) cpus ents) \<le> length ents + length cpus"
proof (induction cpus arbitrary: ents)
  case (Cons cpu cpus)
  have "length (shm_group_entity c g tg cpu ents) \<le> KSTEP_SHM_ENTITIES" "length (shm_group_entity c g tg cpu ents) \<le> Suc (length ents)"
    using Cons.prems by (auto simp: shm_group_entity_def split: option.split)
  with Cons.IH[of "shm_group_entity c g tg cpu ents"] show ?case by simp
qed simp

lemma length_test_cpus [simp]: "length (test_cpus ncpus) = ncpus"
  by (simp add: test_cpus_def)

lemma shm_group_entities_length:
  assumes "length ents \<le> KSTEP_SHM_ENTITIES"
  shows "length (shm_group_entities c ncpus g tg ents) \<le> KSTEP_SHM_ENTITIES
    \<and> length (shm_group_entities c ncpus g tg ents) \<le> length ents + ncpus"
  using assms fold_group_entity_length[OF assms, of c g _ "test_cpus ncpus"]
  by (auto simp: shm_group_entities_def split: option.split)

lemma shm_cgroups_loop_length:
  assumes "length out \<le> KSTEP_SHM_CGROUPS" "length ents \<le> length out * ncpus" "ncpus \<le> KSTEP_SHM_CPUS"
    "shm_cgroups_loop c ncpus gs out ents = (out', ents')"
  shows "length out' \<le> KSTEP_SHM_CGROUPS \<and> length ents' \<le> length out' * ncpus"
  using assms
proof (induction gs arbitrary: out ents)
  case (Cons g gs)
  have "length ents \<le> KSTEP_SHM_CGROUPS * KSTEP_SHM_CPUS"
    using Cons.prems(1-3) mult_le_mono[of "length out" 16 ncpus 32] by simp
  then have l: "length (shm_group_entities c ncpus (length out) tg ents) \<le> length ents + ncpus" for tg
    using shm_group_entities_length by simp
  consider path where "length out \<noteq> KSTEP_SHM_CGROUPS" "cg_online g" "cg_path g = Some path"
    | "length out = KSTEP_SHM_CGROUPS" | "length out \<noteq> KSTEP_SHM_CGROUPS" "\<not> cg_online g \<or> cg_path g = None"
    by (cases "cg_path g") auto
  then show ?case
  proof cases
    case 1
    then have e: "shm_cgroups_loop c ncpus gs (out @ [shm_cgroup_row g path]) (shm_group_entities c ncpus (length out) (shm_tg g) ents) = (out', ents')"
      using Cons.prems(4) by simp
    show ?thesis using Cons.IH[OF _ _ Cons.prems(3) e] 1(1) Cons.prems(1,2) l[of "shm_tg g"] by simp
  next
    case 2
    then show ?thesis using Cons.prems by simp
  next
    case 3
    then show ?thesis using Cons.IH[OF Cons.prems(1-3)] Cons.prems(4) by (auto split: option.splits)
  qed
qed simp

lemma shm_collect_cgroups_length:
  assumes "ncpus \<le> KSTEP_SHM_CPUS" "shm_collect_cgroups c ncpus gs = (out, ents)"
  shows "length out \<le> KSTEP_SHM_CGROUPS" "length ents \<le> length out * ncpus" "length ents \<le> KSTEP_SHM_CGROUPS * KSTEP_SHM_CPUS"
proof -
  show a: "length out \<le> KSTEP_SHM_CGROUPS" "length ents \<le> length out * ncpus"
    using shm_cgroups_loop_length[of "[]" "[]"] assms by (auto simp: shm_collect_cgroups_def split: option.splits)
  show "length ents \<le> KSTEP_SHM_CGROUPS * KSTEP_SHM_CPUS" using a assms(1) mult_le_mono[of "length out" 16 ncpus 32] by simp
qed

text \<open>The tables of the domains: each domain's groups lie in the group table.\<close>

definition domains_ok :: "kstep_shm_domain list \<Rightarrow> kstep_shm_group list \<Rightarrow> bool" where
  "domains_ok out groups \<longleftrightarrow> length out \<le> KSTEP_SHM_DOMAINS \<and> length groups \<le> KSTEP_SHM_GROUPS
     \<and> list_all (\<lambda>d. sq_group d + sq_ngroups d \<le> length groups) out"

lemma shm_domain_row_ok:
  "domains_ok out groups \<Longrightarrow> length out < KSTEP_SHM_DOMAINS \<Longrightarrow> shm_domain_row c R cpu sd groups = (d, groups') \<Longrightarrow>
    domains_ok (out @ [d]) groups'"
  by (fastforce simp: domains_ok_def shm_domain_row_def Let_def list_all_iff)

lemma shm_cpu_domains_ok: "domains_ok out groups \<Longrightarrow> shm_cpu_domains c R cpu sds out groups = (out', groups') \<Longrightarrow> domains_ok out' groups'"
proof (induction sds arbitrary: out groups)
  case (Cons sd sds)
  obtain d g where d: "shm_domain_row c R cpu sd groups = (d, g)" by fastforce
  show ?case
  proof (cases "length out = KSTEP_SHM_DOMAINS")
    case False
    then have "domains_ok (out @ [d]) g" using Cons.prems(1) d by (intro shm_domain_row_ok) (auto simp: domains_ok_def)
    then show ?thesis using Cons.IH Cons.prems(2) False d by simp
  qed (use Cons.prems in simp)
qed simp

lemma shm_collect_domains_ok: "shm_collect_domains c R ncpus = (out, groups) \<Longrightarrow> domains_ok out groups"
proof -
  have "case_prod domains_ok (fold (\<lambda>cpu (out, groups). if length out < KSTEP_SHM_DOMAINS
     then shm_cpu_domains c R cpu (ru_domains (R cpu)) out groups else (out, groups)) cpus s)" if "case_prod domains_ok s" for s cpus
    using that
  proof (induction cpus arbitrary: s)
    case (Cons cpu cpus)
    show ?case using Cons.prems by (simp, intro Cons.IH) (auto split: prod.split intro: shm_cpu_domains_ok)
  qed simp
  from this[of "([], [])" "test_cpus ncpus"] show "shm_collect_domains c R ncpus = (out, groups) \<Longrightarrow> domains_ok out groups"
    by (simp add: shm_collect_domains_def domains_ok_def)
qed

text \<open>The rows of the tasks: the numbers of the live ones in order, each in its class's table.\<close>

abbreviation live_numbers :: "nat \<Rightarrow> task_src list \<Rightarrow> (int \<Rightarrow> bool) \<Rightarrow> nat list" where
  "live_numbers i ps P \<equiv> map (\<lambda>(k, p). k + 1) (filter (\<lambda>(k, p). \<not> ko_exit p \<and> P (ko_policy p)) (List.enumerate i ps))"

abbreviation live_count :: "task_src list \<Rightarrow> nat" where
  "live_count ps \<equiv> length (filter (\<lambda>p. \<not> ko_exit p) ps)"

lemma shm_tasks_loop_full: "SHM_TASKS \<le> length (fst st) \<Longrightarrow> shm_tasks_loop c R ncpus cgroups i ps st = st"
  by (cases ps) simp_all

lemma shm_tasks_loop_length:
  "length (fst st) \<le> SHM_TASKS \<Longrightarrow> length (fst (snd st)) \<le> length (fst st) \<Longrightarrow> length (snd (snd st)) \<le> KSTEP_SHM_ENTITIES \<Longrightarrow>
    length (fst (shm_tasks_loop c R ncpus cgroups i ps st)) \<le> SHM_TASKS
    \<and> length (fst (snd (shm_tasks_loop c R ncpus cgroups i ps st))) \<le> length (fst (shm_tasks_loop c R ncpus cgroups i ps st))
    \<and> length (snd (snd (shm_tasks_loop c R ncpus cgroups i ps st))) \<le> KSTEP_SHM_ENTITIES"
proof (induction ps arbitrary: i st)
  case (Cons p ps)
  let ?st = "if ko_exit p then st else shm_task_one c R ncpus cgroups i p st"
  show ?case
  proof (cases "SHM_TASKS \<le> length (fst st)")
    case False
    then have "length (fst ?st) \<le> SHM_TASKS" "length (fst (snd ?st)) \<le> length (fst ?st)" "length (snd (snd ?st)) \<le> KSTEP_SHM_ENTITIES"
      using Cons.prems by (auto simp: shm_task_one_def Let_def split: prod.splits)
    then show ?thesis using Cons.IH[of ?st "i + 1"] False by simp
  qed (use Cons.prems in simp)
qed simp

lemma shm_tasks_loop_lists:
  assumes "length rows + live_count ps \<le> SHM_TASKS" "length ents + live_count ps \<le> KSTEP_SHM_ENTITIES"
    "shm_tasks_loop c R ncpus cgroups i ps (rows, rts, ents) = (rows', rts', ents')"
  shows "map sk_task rows' = map sk_task rows @ live_numbers i ps (\<lambda>_. True)
    \<and> map sx_task rts' = map sx_task rts @ live_numbers i ps rt_policy
    \<and> map sn_task ents' = map sn_task ents @ live_numbers i ps (\<lambda>p. \<not> rt_policy p \<and> (fair_policy p \<or> idle_policy p))
    \<and> length rows' = length rows + live_count ps"
  using assms
proof (induction ps arbitrary: i rows rts ents)
  case (Cons p ps)
  show ?case
  proof (cases "ko_exit p")
    case True
    then have l: "shm_tasks_loop c R ncpus cgroups (i + 1) ps (rows, rts, ents) = (rows', rts', ents')"
      using Cons.prems(3) shm_tasks_loop_full[of "(rows, rts, ents)"] by (cases "SHM_TASKS \<le> length rows") simp_all
    show ?thesis using Cons.IH[OF _ _ l] Cons.prems(1,2) True by simp
  next
    case False
    obtain r t e where st: "shm_task_one c R ncpus cgroups i p (rows, rts, ents) = (r, t, e)" by (metis prod_cases3)
    have f: "map sk_task r = map sk_task rows @ [i + 1]" "length r = Suc (length rows)" "length e \<le> Suc (length ents)"
      "map sx_task t = map sx_task rts @ (if rt_policy (ko_policy p) then [i + 1] else [])"
      "map sn_task e = map sn_task ents @ (if \<not> rt_policy (ko_policy p) \<and> (fair_policy (ko_policy p) \<or> idle_policy (ko_policy p)) then [i + 1] else [])"
      using st Cons.prems(2) False by (auto simp: shm_task_one_def Let_def shm_rt_entity_def split: if_splits)
    have l: "shm_tasks_loop c R ncpus cgroups (i + 1) ps (r, t, e) = (rows', rts', ents')"
      using Cons.prems(1,3) False st by simp
    show ?thesis using Cons.IH[OF _ _ l] Cons.prems(1,2) f False by simp
  qed
qed simp

lemma shm_group_entities_no_task:
  "list_all (\<lambda>e. sn_task e = 0) ents \<Longrightarrow> list_all (\<lambda>e. sn_task e = 0) (shm_group_entities c ncpus g tg ents)"
proof -
  have "list_all (\<lambda>e. sn_task e = 0) ents \<Longrightarrow> list_all (\<lambda>e. sn_task e = 0) (fold (shm_group_entity c g tg) cpus ents)" for tg cpus ents
    by (induction cpus arbitrary: ents) (auto simp: shm_group_entity_def split: option.split)
  then show "list_all (\<lambda>e. sn_task e = 0) ents \<Longrightarrow> list_all (\<lambda>e. sn_task e = 0) (shm_group_entities c ncpus g tg ents)"
    by (simp add: shm_group_entities_def split: option.split)
qed

lemma shm_cgroups_loop_no_task:
  "list_all (\<lambda>e. sn_task e = 0) ents \<Longrightarrow> list_all (\<lambda>e. sn_task e = 0) (snd (shm_cgroups_loop c ncpus gs out ents))"
  by (induction gs arbitrary: out ents) (auto simp: shm_group_entities_no_task split: option.split)

lemma shm_collect_cgroups_no_task: "filter (\<lambda>t. t \<noteq> 0) (map sn_task (snd (shm_collect_cgroups c ncpus gs))) = []"
  using shm_cgroups_loop_no_task[of "[]" c ncpus _ "[]"]
  by (auto simp: shm_collect_cgroups_def filter_empty_conv list_all_iff split: option.split)

text \<open>
  C14. On a machine of at most 32 test CPUs, whatever the kernel shows, no table of the region is
  written past its end, the counts of the header are the entries written, and the groups a domain
  points to are groups of the group table.
\<close>
theorem shm_update_fits:
  assumes "ncpus \<le> KSTEP_SHM_CPUS"
  shows "let r = kstep_shm_update c R ncpus now gs tasks s; h = shm_hdr r in
    length (shm_cpu r) = ncpus \<and> length (shm_cfs r) = ncpus \<and> length (shm_rt r) = ncpus \<and> sh_ncpus h = ncpus
    \<and> length (shm_task r) \<le> SHM_TASKS \<and> sh_ntasks h = length (shm_task r)
    \<and> length (shm_rt_entity_table r) \<le> SHM_TASKS \<and> sh_nrt_entities h = length (shm_rt_entity_table r)
    \<and> length (shm_entity r) \<le> KSTEP_SHM_ENTITIES \<and> sh_nentities h = length (shm_entity r)
    \<and> length (shm_cgroup r) \<le> KSTEP_SHM_CGROUPS \<and> sh_ncgroups h = length (shm_cgroup r)
    \<and> length (shm_domain r) \<le> KSTEP_SHM_DOMAINS \<and> sh_ndomains h = length (shm_domain r)
    \<and> length (shm_group r) \<le> KSTEP_SHM_GROUPS \<and> sh_ngroups h = length (shm_group r)
    \<and> list_all (\<lambda>d. sq_group d + sq_ngroups d \<le> length (shm_group r)) (shm_domain r)"
proof -
  obtain cg en where cg: "shm_collect_cgroups c ncpus gs = (cg, en)" by fastforce
  obtain do gr where do: "shm_collect_domains c R ncpus = (do, gr)" by fastforce
  obtain ro rt ee where ro: "shm_tasks_loop c R ncpus cg 0 tasks ([], [], en) = (ro, rt, ee)" by (metis prod_cases3)
  have "length en \<le> KSTEP_SHM_ENTITIES" using shm_collect_cgroups_length(3)[OF assms cg] by simp
  then have "length ro \<le> SHM_TASKS" "length rt \<le> length ro" "length ee \<le> KSTEP_SHM_ENTITIES"
    using shm_tasks_loop_length[of "([], [], en)" c R ncpus cg 0 tasks] ro by simp_all
  then show ?thesis
    using shm_collect_cgroups_length(1)[OF assms cg] shm_collect_domains_ok[OF do] cg do ro
    by (simp add: kstep_shm_update_def Let_def domains_ok_def)
qed

lemma shm_tasks_loop_rows:
  assumes "length rows + live_count ps \<le> SHM_TASKS"
  shows "\<exists>new. fst (shm_tasks_loop c R ncpus cgroups i ps (rows, rts, ents)) = rows @ new \<and>
    map (\<lambda>r. (sk_task r, sk_state r, sk_cpu r, sk_policy r, sk_nice r)) new =
    map (\<lambda>(k, p). (k + 1, shm_task_state p, ko_cpu p, ko_policy p, ko_nice p)) (filter (\<lambda>(k, p). \<not> ko_exit p) (List.enumerate i ps))"
  using assms
proof (induction ps arbitrary: i rows rts ents)
  case (Cons p ps)
  show ?case
  proof (cases "ko_exit p")
    case True
    have "shm_tasks_loop c R ncpus cgroups i (p # ps) (rows, rts, ents) = shm_tasks_loop c R ncpus cgroups (i + 1) ps (rows, rts, ents)"
      using True shm_tasks_loop_full[of "(rows, rts, ents)"] by (cases "SHM_TASKS \<le> length rows") simp_all
    then show ?thesis using Cons.IH[of rows "i + 1" rts ents] Cons.prems True by simp
  next
    case False
    obtain row t e where st: "shm_task_one c R ncpus cgroups i p (rows, rts, ents) = (rows @ [row], t, e)"
      and row: "sk_task row = i + 1" "sk_state row = shm_task_state p" "sk_cpu row = ko_cpu p" "sk_policy row = ko_policy p" "sk_nice row = ko_nice p"
      by (simp add: shm_task_one_def Let_def)
    then show ?thesis using Cons.IH[of "rows @ [row]" "i + 1" t e] Cons.prems False by fastforce
  qed
qed simp

text \<open>Every live task has its row, with the state the kernel shows.\<close>

lemma shm_update_row:
  assumes "length tasks \<le> SHM_TASKS" "k < length tasks" "\<not> ko_exit (tasks ! k)"
  shows "\<exists>row \<in> set (shm_task (kstep_shm_update c R ncpus now gs tasks s)). sk_task row = k + 1 \<and> sk_state row = shm_task_state (tasks ! k)
    \<and> sk_cpu row = ko_cpu (tasks ! k) \<and> sk_policy row = ko_policy (tasks ! k) \<and> sk_nice row = ko_nice (tasks ! k)"
proof -
  obtain cg en where cg: "shm_collect_cgroups c ncpus gs = (cg, en)" by fastforce
  have live: "live_count tasks \<le> SHM_TASKS" using assms(1) length_filter_le[of "\<lambda>p. \<not> ko_exit p" tasks] by linarith
  have upd: "shm_task (kstep_shm_update c R ncpus now gs tasks s) = fst (shm_tasks_loop c R ncpus cg 0 tasks ([], [], en))"
    by (simp add: kstep_shm_update_def cg Let_def split: prod.split)
  obtain new where new: "shm_task (kstep_shm_update c R ncpus now gs tasks s) = new"
    "map (\<lambda>r. (sk_task r, sk_state r, sk_cpu r, sk_policy r, sk_nice r)) new =
     map (\<lambda>(k, p). (k + 1, shm_task_state p, ko_cpu p, ko_policy p, ko_nice p)) (filter (\<lambda>(k, p). \<not> ko_exit p) (List.enumerate 0 tasks))"
    using shm_tasks_loop_rows[of "[]" tasks c R ncpus cg 0 "[]" en] live unfolding upd by auto
  have "(k, tasks ! k) \<in> set (filter (\<lambda>(k, p). \<not> ko_exit p) (List.enumerate 0 tasks))" using assms(2,3) by (simp add: in_set_enumerate_eq)
  then have "(k + 1, shm_task_state (tasks ! k), ko_cpu (tasks ! k), ko_policy (tasks ! k), ko_nice (tasks ! k))
      \<in> set (map (\<lambda>r. (sk_task r, sk_state r, sk_cpu r, sk_policy r, sk_nice r)) new)" unfolding new(2) by force
  then show ?thesis unfolding new(1) by auto
qed

text \<open>
  C13. No task is left out: with at most 64 live tasks on at most 32 test CPUs, the task table
  has the number of every live task, in order, and every live task is in the table of the class of its
  policy, the real-time one or the fair one, whatever number of cgroups filled the latter first.
\<close>
theorem shm_lists_every_task:
  assumes "ncpus \<le> KSTEP_SHM_CPUS" "live_count tasks \<le> SHM_TASKS"
  shows "let r = kstep_shm_update c R ncpus now gs tasks s in
    map sk_task (shm_task r) = live_numbers 0 tasks (\<lambda>_. True)
    \<and> map sx_task (shm_rt_entity_table r) = live_numbers 0 tasks rt_policy
    \<and> filter (\<lambda>t. t \<noteq> 0) (map sn_task (shm_entity r)) = live_numbers 0 tasks (\<lambda>p. \<not> rt_policy p \<and> (fair_policy p \<or> idle_policy p))"
proof -
  obtain cg en where cg: "shm_collect_cgroups c ncpus gs = (cg, en)" by fastforce
  obtain ro rt ee where ro: "shm_tasks_loop c R ncpus cg 0 tasks ([], [], en) = (ro, rt, ee)" by (metis prod_cases3)
  have en: "filter (\<lambda>t. t \<noteq> 0) (map sn_task en) = []" using shm_collect_cgroups_no_task[of c ncpus gs] cg by simp
  have "length en + live_count tasks \<le> KSTEP_SHM_ENTITIES" using shm_collect_cgroups_length(3)[OF assms(1) cg] assms(2) by simp
  with shm_tasks_loop_lists[OF _ _ ro] assms(2)
  have l: "map sk_task ro = live_numbers 0 tasks (\<lambda>_. True)" "map sx_task rt = live_numbers 0 tasks rt_policy"
    "map sn_task ee = map sn_task en @ live_numbers 0 tasks (\<lambda>p. \<not> rt_policy p \<and> (fair_policy p \<or> idle_policy p))" by simp_all
  have "filter (\<lambda>t. t \<noteq> 0) (live_numbers 0 tasks P) = live_numbers 0 tasks P" for P by (auto simp: filter_id_conv)
  with l en show ?thesis
    by (simp only: kstep_shm_update_def Let_def cg ro case_prod_conv fst_conv snd_conv kstep_shm.simps filter_append append_Nil
        split: prod.split) simp
qed

section \<open>A machine\<close>

text \<open>
  One test CPU with a fair task, a real-time task and one that has exited, no cgroup but the root and
  no domain but one of two groups.
\<close>

definition demo_ent :: "nat \<Rightarrow> se_src" where
  "demo_ent i = \<lparr>eo_id = i, eo_weight = 1048576, eo_sum_exec_runtime = 5, eo_vruntime = 7, eo_deadline = 9, eo_slice = 3, eo_vlag = 0,
     eo_on_rq = True, eo_delayed = False, eo_eligible = True, eo_queue = 0, eo_queue_curr = None, eo_avg_vruntime = 8\<rparr>"

definition demo_rt :: rt_src where
  "demo_rt = \<lparr>rs_queued = True, rs_nr_running = 1, rs_active = [[], [Rt_group [[], [Rt_task 11]], Rt_task 12]], rs_highest_prio = 1,
     rs_throttled = 0, rs_rt_time = 0, rs_rt_runtime = 0\<rparr>"

definition demo_shm_task :: "nat \<Rightarrow> int \<Rightarrow> bool \<Rightarrow> task_src" where
  "demo_shm_task p pol ex = \<lparr>ko_ptr = p, ko_exit = ex, ko_on_cpu = False, ko_state = 0, ko_cpu = 1, ko_policy = pol, ko_nice = 0,
     ko_rt_priority = 0, ko_cpus = 2, ko_path = Some ''/'', ko_se = demo_ent p, ko_prio = 1, ko_rt_on_rq = (pol = 1),
     ko_rt_on_list = (pol = 1), ko_rt_active = [[], [Rt_task p]], ko_time_slice = 0\<rparr>"

definition demo_tg :: tg_src where
  "demo_tg = \<lparr>gr_parent = True, gr_shares = shares_of_weight 100, gr_se = (\<lambda>cpu. Some (demo_ent (100 + cpu)))\<rparr>"

definition demo_cg :: cg_src where
  "demo_cg = \<lparr>cg_online = True, cg_path = Some ''/a'', cg_tg = Some demo_tg, cg_cpus = Some 2\<rparr>"

definition demo_group :: group_src where
  "demo_group = \<lparr>go_span = 2, go_capacity = 1024, go_min_capacity = 1024, go_max_capacity = 1024, go_weight = 1\<rparr>"

definition demo_sd :: sd_src where
  "demo_sd = \<lparr>dn_span = 6, dn_flags = 0, dn_name = ''MC'', dn_imbalance_pct = 117, dn_balance_interval = 2, dn_nr_balance_failed = 0,
     dn_busy_factor = 16, dn_cache_nice_tries = 1, dn_last_balance = 500, dn_groups = [demo_group, demo_group], dn_mask = [1]\<rparr>"

definition demo_cpu :: cpu_src where
  "demo_cpu = \<lparr>ru_curr = 12, ru_idle = 0, ru_nr_running = 2, ru_nr_switches = 4, ru_ttwu_pending = False, ru_next_balance = 501,
     ru_util_avg = 0, ru_load_avg = 0, ru_runnable_avg = 0, ru_h_nr_runnable = 1, ru_rt = demo_rt, ru_capacity = 1024,
     ru_freq = 1024, ru_domains = [demo_sd], ru_smt = [1]\<rparr>"

definition demo_conf :: shm_conf where
  "demo_conf = \<lparr>sm_version = KERNEL_VERSION 6 12 0, sm_hz = 1000, sm_m2j = id, sm_share_cpucapacity = 128, sm_pick = Map.empty,
     sm_rt_group = False, sm_jiffies = 500\<rparr>"

definition demo_tasks :: "task_src list" where
  "demo_tasks = [demo_shm_task 10 0 False, demo_shm_task 13 0 True, demo_shm_task 12 1 False]"

definition demo_shm :: kstep_shm where
  "demo_shm = (case kstep_shm_init (KERNEL_VERSION 6 12 0) [''SD_BALANCE_NEWIDLE''] (Some 4096) of Inr (_, s) \<Rightarrow> s)"

theorem next_balance_is_bounded_witness:
  "let w = sq_next_balance_in (fst (shm_domain_row demo_conf (\<lambda>_. demo_cpu) 1 demo_sd [])) in
    w = ucast (sd_interval demo_conf (ru_curr demo_cpu \<noteq> ru_idle demo_cpu) demo_sd) \<and> 1 \<le> w \<and> unat w \<le> unat (sm_hz demo_conf) div 10"
proof -
  have "10 \<le> sm_hz demo_conf" "sm_hz demo_conf \<le> 10000" "dn_last_balance demo_sd = sm_jiffies demo_conf"
    by (simp_all add: demo_conf_def demo_sd_def)
  from next_balance_is_bounded[OF this, of "\<lambda>_. demo_cpu" 1 "[]"] show ?thesis .
qed

theorem weight_round_trip_witness: "unat (sg_weight (shm_cgroup_row demo_cg ''/a'')) = 100"
  using weight_round_trip[of 100 demo_tg demo_cg "''/a''"] by (simp add: demo_tg_def demo_cg_def)

lemma demo_rt_sound: "rt_sound (rs_active demo_rt)"
  by (simp add: demo_rt_def rt_sound.simps)

theorem rt_pick_is_the_first_witness:
  "shm_rt_pick demo_rt = Some (hd (rt_tasks (rs_active demo_rt))) \<and> rt_tasks (rs_active demo_rt) = [11, 12]"
proof -
  have "rt_tasks (rs_active demo_rt) = [11, 12]" by (simp add: demo_rt_def rt_tasks.simps)
  then show ?thesis using rt_pick_is_the_first[OF demo_rt_sound] by (simp add: demo_rt_def)
qed

theorem shm_update_fits_witness:
  "let r = kstep_shm_update demo_conf (\<lambda>_. demo_cpu) 1 500 (Some [demo_cg]) demo_tasks demo_shm; h = shm_hdr r in
    length (shm_cpu r) = 1 \<and> length (shm_task r) \<le> SHM_TASKS \<and> sh_ntasks h = length (shm_task r)
    \<and> length (shm_entity r) \<le> KSTEP_SHM_ENTITIES
    \<and> list_all (\<lambda>d. sq_group d + sq_ngroups d \<le> length (shm_group r)) (shm_domain r)"
  using shm_update_fits[of 1 demo_conf "\<lambda>_. demo_cpu" 500 "Some [demo_cg]" demo_tasks demo_shm] by (simp add: Let_def)

theorem shm_lists_every_task_witness:
  "let r = kstep_shm_update demo_conf (\<lambda>_. demo_cpu) 1 500 (Some [demo_cg]) demo_tasks demo_shm in
    map sk_task (shm_task r) = [1, 3] \<and> map sx_task (shm_rt_entity_table r) = [3]
    \<and> filter (\<lambda>t. t \<noteq> 0) (map sn_task (shm_entity r)) = [1]"
  using shm_lists_every_task[of 1 demo_tasks demo_conf "\<lambda>_. demo_cpu" 500 "Some [demo_cg]" demo_shm]
  by (simp add: demo_tasks_def demo_shm_task_def Let_def rt_policy_def fair_policy_def)

end
