(* ===== verification/Cli.thy ===== *)
theory Cli
  imports Kernel Topo Tick Shm
begin

text \<open>
  The interactive driver (kmod/cli.c): one line of input is one command, answered with one JSON
  reply. The commands call the components modelled in the other theories: the action queues and the
  settle, the topology, the cgroup tree, the JSON writer and the channel. What they ask of the kernel
  itself (\<open>ckern\<close>) is an argument. A command may wait forever, panic or return, as a tick may.
\<close>

section \<open>State\<close>

abbreviation KSTEP_SHM_TASKS :: int where "KSTEP_SHM_TASKS \<equiv> 64"
abbreviation LINE_MAX :: nat where "LINE_MAX \<equiv> 128"

text \<open>
  The kernel's side: a task's exit state and nice, setting its attributes, affinity or state, making
  a new parked task (with its kSTEP record), letting a CPU out of its halt, what a cgroup holds, the
  checkers' registration, and a CPU's frequency.
\<close>

record 'm ckern =
  ck_kern :: "'m kern"
  ck_fs :: "'m kfs"
  ck_exit_state :: "'m \<Rightarrow> tptr \<Rightarrow> bool"
  ck_nice :: "'m \<Rightarrow> tptr \<Rightarrow> int"
  ck_setattr :: "tptr \<Rightarrow> int \<Rightarrow> int \<Rightarrow> int \<Rightarrow> 'm \<Rightarrow> 'm"
  ck_setaffinity :: "nat \<Rightarrow> nat set \<Rightarrow> 'm \<Rightarrow> int \<times> 'm"
  ck_create :: "'m \<Rightarrow> tptr \<times> nat \<times> 'm"
  ck_set_tasks :: "kstep_tasks \<Rightarrow> 'm \<Rightarrow> 'm"
  ck_ipi :: "tptr \<Rightarrow> 'm \<Rightarrow> 'm"
  ck_signal :: "tptr \<Rightarrow> 'm \<Rightarrow> 'm"
  ck_freeze :: "tptr \<Rightarrow> 'm \<Rightarrow> 'm"
  ck_thaw :: "tptr \<Rightarrow> 'm \<Rightarrow> 'm"
  ck_cgroup :: "'m \<Rightarrow> string \<Rightarrow> bool option"
  ck_unregister :: "string \<Rightarrow> 'm \<Rightarrow> 'm"
  ck_check :: "string \<Rightarrow> 'm \<Rightarrow> int \<times> 'm"
  ck_freq :: "int \<Rightarrow> int \<Rightarrow> 'm \<Rightarrow> 'm"

text \<open>What the update of the shared region reads of the kernel: runqueues, cgroups, tasks.\<close>

record 'm shm_view =
  sv_conf :: shm_conf
  sv_rq :: "'m \<Rightarrow> nat \<Rightarrow> cpu_src"
  sv_cgroups :: "'m \<Rightarrow> cg_src list option"
  sv_task :: "'m \<Rightarrow> tptr \<Rightarrow> task_src"

text \<open>Everything a session runs on: the libraries, the machine, the kernel, the tick's length.\<close>

text \<open>
  What the callbacks sent while the machine ran: a task that moved (with how many tasks were numbered
  then), a balance, a rule that fired, each at its jiffy. Which ones is the machine's: \<open>en_reports\<close>
  of the machine before and after the command.
\<close>

datatype report = Migrated u64 nat tptr int int | Balanced u64 int string string | Warned u64 string string

record 'm env =
  en_lib :: klib
  en_machine :: machine
  en_kern :: "'m ckern"
  en_nsec :: u64
  en_interval :: u64
  en_rt :: bool
  en_reports :: "'m \<Rightarrow> 'm \<Rightarrow> report list"
  en_view :: "'m shm_view"

record 'm cli =
  cl_ts :: "'m tsys"
  cl_tasks :: "(tptr \<times> nat) list"
  cl_topo :: topo
  cl_reply :: kstep_json
  cl_tx :: tx_state
  cl_shm :: kstep_shm

definition cl_m :: "'m cli \<Rightarrow> 'm" where
  "cl_m s = t_m (cl_ts s)"

definition with_m :: "('m \<Rightarrow> 'm) \<Rightarrow> 'm cli \<Rightarrow> 'm cli" where
  "with_m f s = s\<lparr>cl_ts := (cl_ts s)\<lparr>t_m := f (cl_m s)\<rparr>\<rparr>"

definition tick_conf_of :: "'m env \<Rightarrow> 'm cli \<Rightarrow> tick_conf" where
  "tick_conf_of E s = \<lparr>tc_ncpus = tp_ncpus (cl_topo s), tc_nsec = en_nsec E, tc_interval = en_interval E, tc_rt = en_rt E\<rparr>"

definition cli_settle :: "'m env \<Rightarrow> 'm cli \<Rightarrow> 'm cli run" where
  "cli_settle E s = bind_run (kstep_settle (ck_kern (en_kern E)) (tp_ncpus (cl_topo s)) (cl_ts s))
     (\<lambda>ts. Some (Inr (s\<lparr>cl_ts := ts\<rparr>)))"

section \<open>Replies\<close>

definition reply_error :: "string \<Rightarrow> 'm cli \<Rightarrow> 'm cli run" where
  "reply_error msg s = bind_run (Some (kstep_json_field_str ''error'' msg (cl_reply s)))
     (\<lambda>json. Some (Inr (s\<lparr>cl_reply := json\<rparr>)))"

abbreviation EBUSY :: int where "EBUSY \<equiv> 16"
abbreviation EINVAL :: int where "EINVAL \<equiv> 22"
abbreviation ERANGE :: int where "ERANGE \<equiv> 34"
abbreviation EOPNOTSUPP :: int where "EOPNOTSUPP \<equiv> 95"

definition reply_errno :: "int \<Rightarrow> 'm cli \<Rightarrow> 'm cli run" where
  "reply_errno err s =
     (if err = 0 then Some (Inr s)
      else if err = - EOPNOTSUPP \<or> err = - EBUSY
        then reply_error ''cgroup cannot hold both tasks and controlled children'' s
      else reply_error (scnprintf 48 (''failed (errno '' @ sdec (- err) @ '')'')) s)"

section \<open>Arguments\<close>

definition blanks :: "char set" where
  "blanks = {CHR '' '', CHR 0x09}"

definition take_arg :: "string option \<Rightarrow> string option \<times> string option" where
  "take_arg arg = (case arg of None \<Rightarrow> (None, None)
   | Some s \<Rightarrow> let (t, r) = strsep blanks s in (Some t, map_option strim r))"

definition task_number :: "(tptr \<times> nat) list \<Rightarrow> tptr \<Rightarrow> nat" where
  "task_number tasks p = (case List.find (\<lambda>i. fst (tasks ! i) = p) [0..<length tasks] of
     None \<Rightarrow> 0 | Some i \<Rightarrow> i + 1)"

text \<open>The task, or \<open>None\<close> with the error in the reply; and the rest of the argument.\<close>

definition parse_task :: "'m env \<Rightarrow> string option \<Rightarrow> string \<Rightarrow> 'm cli \<Rightarrow>
    ((tptr \<times> nat) option \<times> string option \<times> 'm cli) run" where
  "parse_task E arg usage s = (let (num, rest) = take_arg arg;
     fail = (\<lambda>msg. bind_run (reply_error msg s) (\<lambda>s. Some (Inr (None, rest, s)))) in
     case num of None \<Rightarrow> fail usage
     | Some num_s \<Rightarrow> (case kstrtoint (en_lib E) num_s of None \<Rightarrow> fail usage
       | Some n \<Rightarrow> if n \<le> 0 then fail usage
           else if n > int (length (cl_tasks s)) \<or>
               ck_exit_state (en_kern E) (cl_m s) (fst (cl_tasks s ! nat (n - 1)))
             then fail ''no such task''
           else Some (Inr (Some (cl_tasks s ! nat (n - 1)), rest, s))))"

definition parse_cgroup :: "'m env \<Rightarrow> string option \<Rightarrow> string \<Rightarrow> bool \<Rightarrow> 'm cli \<Rightarrow>
    (string option \<times> string option \<times> 'm cli) run" where
  "parse_cgroup E arg usage create s = (let (path, rest) = take_arg arg;
     fail = (\<lambda>msg. bind_run (reply_error msg s) (\<lambda>s. Some (Inr (None, rest, s)))) in
     case path of None \<Rightarrow> fail usage
     | Some p \<Rightarrow>
         if p = [] \<or> hd p \<noteq> CHR ''/'' \<or> strstr p ''..'' \<or> length p \<ge> 48 then fail usage
         else if (if create then tl p = [] \<or> kstep_cgroup_exists (ck_fs (en_kern E)) (tl p) (cl_m s)
                  else tl p \<noteq> [] \<and> \<not> kstep_cgroup_exists (ck_fs (en_kern E)) (tl p) (cl_m s))
           then fail (if create then ''cgroup exists'' else ''no such cgroup'')
         else Some (Inr (Some (tl p), rest, s)))"

section \<open>Commands on tasks\<close>

definition cmd_tick :: "'m env \<Rightarrow> string option \<Rightarrow> 'm cli \<Rightarrow> 'm cli run" where
  "cmd_tick E arg s = (case (case arg of None \<Rightarrow> Some 1 | Some a \<Rightarrow> kstrtoint (en_lib E) a) of
     None \<Rightarrow> reply_error ''usage: tick [1..10000]'' s
   | Some n \<Rightarrow> if n < 1 \<or> n > 10000 then reply_error ''usage: tick [1..10000]'' s
       else bind_run (kstep_tick_repeat (ck_kern (en_kern E)) (tick_conf_of E s) (nat n) (cl_ts s))
         (\<lambda>ts. Some (Inr (s\<lparr>cl_ts := ts\<rparr>))))"

definition kstep_task_set_affinity :: "'m env \<Rightarrow> tptr \<times> nat \<Rightarrow> string option \<Rightarrow> 'm cli \<Rightarrow> int \<times> 'm cli" where
  "kstep_task_set_affinity E p cpulist s =
     (case kstep_parse_cpus (en_lib E) (tp_ncpus (cl_topo s)) cpulist of None \<Rightarrow> (- ERANGE, s)
      | Some cpus \<Rightarrow> let (ret, m) = ck_setaffinity (en_kern E) (snd p) cpus (cl_m s) in (ret, with_m (\<lambda>_. m) s))"

definition cmd_affinity :: "'m env \<Rightarrow> string option \<Rightarrow> 'm cli \<Rightarrow> 'm cli run" where
  "cmd_affinity E arg s = (let usage = ''usage: affinity <n> <cpulist within 1..CPUS>'' in
     bind_run (parse_task E arg usage s) (\<lambda>(p, arg, s).
     case p of None \<Rightarrow> Some (Inr s)
     | Some p \<Rightarrow> let (err, s) = kstep_task_set_affinity E p arg s in
         if err = - ERANGE then reply_error usage s
         else if err = - EINVAL then reply_error ''cpulist has no CPU in the task's cgroup cpuset'' s
         else reply_errno err s))"

definition fair_policies :: "(string \<times> int) list" where
  "fair_policies = [(''normal'', 0), (''batch'', 3), (''idle'', 5)]"

definition rt_policies :: "(string \<times> int) list" where
  "rt_policies = [(''fifo'', 1), (''rr'', 2)]"

definition kstep_task_set_fair :: "'m env \<Rightarrow> tptr \<Rightarrow> int \<Rightarrow> int \<Rightarrow> 'm cli \<Rightarrow> 'm cli" where
  "kstep_task_set_fair E p policy nice = with_m (ck_setattr (en_kern E) p policy nice 0)"

definition kstep_task_set_rt :: "'m env \<Rightarrow> tptr \<Rightarrow> int \<Rightarrow> int \<Rightarrow> 'm cli \<Rightarrow> 'm cli" where
  "kstep_task_set_rt E p policy prio = with_m (ck_setattr (en_kern E) p policy 0 prio)"

definition cmd_policy_fair :: "'m env \<Rightarrow> string option \<Rightarrow> 'm cli \<Rightarrow> 'm cli run" where
  "cmd_policy_fair E arg s = (let usage = ''usage: policy-fair <n> <normal|batch|idle> [-20..19]'' in
     bind_run (parse_task E arg usage s) (\<lambda>(p, arg, s).
     let (name, arg) = take_arg arg in
     case p of None \<Rightarrow> Some (Inr s)
     | Some (p, _) \<Rightarrow>
         (case (case arg of None \<Rightarrow> Some (ck_nice (en_kern E) (cl_m s) p)
                | Some a \<Rightarrow> (case kstrtoint (en_lib E) a of None \<Rightarrow> None
                    | Some nice \<Rightarrow> if nice < - 20 \<or> nice > 19 then None else Some nice)) of
            None \<Rightarrow> reply_error usage s
          | Some nice \<Rightarrow> (case Option.bind name (map_of fair_policies) of
              None \<Rightarrow> reply_error usage s
            | Some policy \<Rightarrow> Some (Inr (kstep_task_set_fair E p policy nice s))))))"

definition cmd_policy_rt :: "'m env \<Rightarrow> string option \<Rightarrow> 'm cli \<Rightarrow> 'm cli run" where
  "cmd_policy_rt E arg s = (let usage = ''usage: policy-rt <n> <fifo|rr> <1..99>'' in
     bind_run (parse_task E arg usage s) (\<lambda>(p, arg, s).
     let (name, arg) = take_arg arg in
     case p of None \<Rightarrow> Some (Inr s)
     | Some (p, _) \<Rightarrow>
         (case (case arg of None \<Rightarrow> None
                | Some a \<Rightarrow> (case kstrtoint (en_lib E) a of None \<Rightarrow> None
                    | Some prio \<Rightarrow> if prio < 1 \<or> prio > 99 then None else Some prio)) of
            None \<Rightarrow> reply_error usage s
          | Some prio \<Rightarrow> (case Option.bind name (map_of rt_policies) of
              None \<Rightarrow> reply_error usage s
            | Some policy \<Rightarrow> Some (Inr (kstep_task_set_rt E p policy prio s))))))"

text \<open>An action queued for a task: its record, the halted CPU let out, and the settle.\<close>

definition cli_task_ctrl :: "'m env \<Rightarrow> (kstep_tasks \<Rightarrow> tptr \<Rightarrow> nat \<Rightarrow> (kstep_tasks \<times> bool) outcome) \<Rightarrow>
    tptr \<times> nat \<Rightarrow> 'm cli \<Rightarrow> 'm cli run" where
  "cli_task_ctrl E act p s =
     bind_run (Some (act (kn_tasks (ck_kern (en_kern E)) (cl_m s)) (fst p) (snd p))) (\<lambda>(xa, halted).
     let s = with_m (ck_set_tasks (en_kern E) xa) s;
         s = (if halted then with_m (ck_ipi (en_kern E) (fst p)) s else s) in
     cli_settle E s)"

definition kstep_task_wakeup :: "'m env \<Rightarrow> tptr \<times> nat \<Rightarrow> 'm cli \<Rightarrow> 'm cli run" where
  "kstep_task_wakeup E p s = cli_settle E (with_m (ck_signal (en_kern E) (fst p)) s)"

section \<open>Creating tasks\<close>

text \<open>The sum of two ints as the compiled guard computes it: 32 bits, wrapping.\<close>

definition int_add :: "int \<Rightarrow> int \<Rightarrow> int" where
  "int_add a b = sint (word_of_int (a + b) :: 32 word)"

text \<open>
  One task of \<open>create\<close>: made, moved into the cgroup if one is named, numbered and woken, or let out
  of its park to exit and not numbered. The boolean says whether to go on. Writing past
  \<open>tasks[63]\<close> has no meaning in C; it is an outcome of its own here.
\<close>

definition create_parked :: "'m env \<Rightarrow> string option \<Rightarrow> 'm cli \<Rightarrow> (int \<times> (tptr \<times> nat) \<times> 'm cli) run" where
  "create_parked E name s = (let (p, pid, m) = ck_create (en_kern E) (cl_m s); s = with_m (\<lambda>_. m) s in
     case name of None \<Rightarrow> Some (Inr (0, (p, pid), s))
     | Some nm \<Rightarrow> bind_run (Some (kstep_cgroup_move_task (ck_fs (en_kern E)) nm (int pid) (cl_m s)))
         (\<lambda>(err, m). Some (Inr (err, (p, pid), with_m (\<lambda>_. m) s))))"

definition cmd_create_one :: "'m env \<Rightarrow> string option \<Rightarrow> 'm cli \<Rightarrow> (bool \<times> 'm cli) run" where
  "cmd_create_one E name s = bind_run (create_parked E name s) (\<lambda>(err, p, s).
      if err \<noteq> 0 then
        bind_run (cli_task_ctrl E kstep_task_exit p s) (\<lambda>s.
        bind_run (reply_errno err s) (\<lambda>s. Some (Inr (False, s))))
      else if int (length (cl_tasks s)) \<ge> KSTEP_SHM_TASKS then Some (Inl ''out of bounds: tasks[]'')
      else bind_run (kstep_task_wakeup E p (s\<lparr>cl_tasks := cl_tasks s @ [p]\<rparr>))
        (\<lambda>s. Some (Inr (True, s))))"

fun cmd_create_loop :: "'m env \<Rightarrow> string option \<Rightarrow> nat \<Rightarrow> 'm cli \<Rightarrow> (bool \<times> 'm cli) run" where
  "cmd_create_loop E name 0 s = Some (Inr (True, s))"
| "cmd_create_loop E name (Suc n) s = bind_run (cmd_create_one E name s)
     (\<lambda>(go, s). if go then cmd_create_loop E name n s else Some (Inr (False, s)))"

definition cmd_create_n :: "'m env \<Rightarrow> string option \<Rightarrow> int \<Rightarrow> 'm cli \<Rightarrow> 'm cli run" where
  "cmd_create_n E name n s =
     (if n < 1 \<or> int_add (int (length (cl_tasks s))) n > KSTEP_SHM_TASKS then reply_error ''too many tasks'' s
      else bind_run (cmd_create_loop E name (nat n) s) (\<lambda>(done, s).
        if \<not> done then Some (Inr s)
        else bind_run (Some (kstep_json_field_s64 ''task'' (of_nat (length (cl_tasks s))) (cl_reply s)))
          (\<lambda>json. Some (Inr (s\<lparr>cl_reply := json\<rparr>)))))"

definition cmd_create :: "'m env \<Rightarrow> string option \<Rightarrow> 'm cli \<Rightarrow> 'm cli run" where
  "cmd_create E arg s = (let usage = ''usage: create [n] [/path]'';
     (n, arg) = (case arg of None \<Rightarrow> (Some 1, arg)
       | Some a \<Rightarrow> if a \<noteq> [] \<and> hd a = CHR ''/'' then (Some 1, arg)
           else let (t, rest) = take_arg arg in (Option.bind t (kstrtoint (en_lib E)), rest)) in
     case n of None \<Rightarrow> reply_error usage s
     | Some n \<Rightarrow> let arg = (if arg = Some [] then None else arg) in
       (case arg of None \<Rightarrow> cmd_create_n E None n s
        | Some _ \<Rightarrow> bind_run (parse_cgroup E arg usage False s) (\<lambda>(name, rest, s).
            case name of None \<Rightarrow> Some (Inr s)
            | Some nm \<Rightarrow> if rest \<noteq> None then reply_error usage s else cmd_create_n E (Some nm) n s)))"

section \<open>Commands on cgroups\<close>

text \<open>A kernel call that returns an error code, and its reply.\<close>

definition reply_result :: "('m \<Rightarrow> (int \<times> 'm) outcome) \<Rightarrow> 'm cli \<Rightarrow> 'm cli run" where
  "reply_result f s = bind_run (Some (f (cl_m s))) (\<lambda>(err, m). reply_errno err (with_m (\<lambda>_. m) s))"

definition cmd_cgroup_create :: "'m env \<Rightarrow> string option \<Rightarrow> 'm cli \<Rightarrow> 'm cli run" where
  "cmd_cgroup_create E arg s = bind_run (parse_cgroup E arg ''usage: cgroup-create /path'' True s) (\<lambda>(name, _, s).
     case name of None \<Rightarrow> Some (Inr s)
     | Some nm \<Rightarrow> reply_result (kstep_cgroup_create (ck_fs (en_kern E)) (tp_ncpus (cl_topo s)) nm) s)"

definition cmd_cgroup_weight :: "'m env \<Rightarrow> string option \<Rightarrow> 'm cli \<Rightarrow> 'm cli run" where
  "cmd_cgroup_weight E arg s = (let usage = ''usage: cgroup-weight /path <1..10000>'' in
     bind_run (parse_cgroup E arg usage False s) (\<lambda>(name, arg, s).
     case name of None \<Rightarrow> Some (Inr s)
     | Some nm \<Rightarrow> (case Option.bind arg (kstrtoint (en_lib E)) of None \<Rightarrow> reply_error usage s
       | Some weight \<Rightarrow> if weight < 1 \<or> weight > 10000 then reply_error usage s
           else reply_result (kstep_cgroup_set_weight (ck_fs (en_kern E)) nm weight) s)))"

definition cmd_cgroup_cpus :: "'m env \<Rightarrow> string option \<Rightarrow> 'm cli \<Rightarrow> 'm cli run" where
  "cmd_cgroup_cpus E arg s = (let usage = ''usage: cgroup-cpus /path <cpulist within 1..CPUS>'' in
     bind_run (parse_cgroup E arg usage False s) (\<lambda>(name, arg, s).
     case name of None \<Rightarrow> Some (Inr s)
     | Some nm \<Rightarrow> (case kstep_parse_cpus (en_lib E) (tp_ncpus (cl_topo s)) arg of None \<Rightarrow> reply_error usage s
       | Some _ \<Rightarrow> reply_result (kstep_cgroup_set_cpuset (ck_fs (en_kern E)) nm (the arg)) s)))"

definition cmd_cgroup_destroy :: "'m env \<Rightarrow> string option \<Rightarrow> 'm cli \<Rightarrow> 'm cli run" where
  "cmd_cgroup_destroy E arg s = bind_run (parse_cgroup E arg ''usage: cgroup-destroy /path'' False s) (\<lambda>(name, _, s).
     case name of None \<Rightarrow> Some (Inr s)
     | Some nm \<Rightarrow> if nm = [] then reply_error ''cannot destroy the root cgroup'' s
         else (case ck_cgroup (en_kern E) (cl_m s) nm of None \<Rightarrow> reply_error ''no such cgroup'' s
           | Some busy \<Rightarrow> if busy then reply_error ''cgroup has tasks or children'' s
               else bind_run (Some (kstep_cgroup_destroy (ck_fs (en_kern E))
                   (\<lambda>n m. ck_cgroup (en_kern E) m n \<noteq> None) (ck_unregister (en_kern E)) nm (cl_m s)))
                 (\<lambda>m. Some (Inr (with_m (\<lambda>_. m) s)))))"

definition cmd_cgroup_attach :: "'m env \<Rightarrow> string option \<Rightarrow> 'm cli \<Rightarrow> 'm cli run" where
  "cmd_cgroup_attach E arg s = (let usage = ''usage: cgroup-attach /path <n>'' in
     bind_run (parse_cgroup E arg usage False s) (\<lambda>(name, arg, s).
     case name of None \<Rightarrow> Some (Inr s)
     | Some nm \<Rightarrow> bind_run (parse_task E arg usage s) (\<lambda>(p, _, s).
         case p of None \<Rightarrow> Some (Inr s)
         | Some p \<Rightarrow> reply_result (kstep_cgroup_move_task (ck_fs (en_kern E)) nm (int (snd p))) s)))"

section \<open>The machine's commands\<close>

definition cmd_check :: "'m env \<Rightarrow> string option \<Rightarrow> 'm cli \<Rightarrow> 'm cli run" where
  "cmd_check E arg s = (case arg of None \<Rightarrow> reply_error ''usage: check <name>'' s
   | Some a \<Rightarrow> let (err, m) = ck_check (en_kern E) a (cl_m s); s = with_m (\<lambda>_. m) s in
       if err \<noteq> 0 then reply_error ''no such check'' s else Some (Inr s))"

definition cmd_cpu_scale :: "'m env \<Rightarrow> string option \<Rightarrow> string \<Rightarrow> (int \<Rightarrow> int \<Rightarrow> 'm \<Rightarrow> 'm) \<Rightarrow> 'm cli \<Rightarrow> 'm cli run" where
  "cmd_cpu_scale E arg usage setter s = (case Option.bind arg (strchr_split CHR '' '') of
     None \<Rightarrow> reply_error usage s
   | Some (cpu_s, val) \<Rightarrow> (case (kstrtoint (en_lib E) cpu_s, kstrtoint (en_lib E) val) of
       (Some cpu, Some scale) \<Rightarrow>
         if cpu < 1 \<or> cpu > int (tp_ncpus (cl_topo s)) \<or> scale < 1 \<or> scale > SCHED_CAPACITY_SCALE
         then reply_error usage s else Some (Inr (with_m (setter cpu scale) s))
     | _ \<Rightarrow> reply_error usage s))"

definition cmd_cpu_freq :: "'m env \<Rightarrow> string option \<Rightarrow> 'm cli \<Rightarrow> 'm cli run" where
  "cmd_cpu_freq E arg = cmd_cpu_scale E arg ''usage: cpu-freq <cpu> <1..1024>'' (ck_freq (en_kern E))"

definition cmd_cpu_topo :: "'m env \<Rightarrow> string option \<Rightarrow> 'm cli \<Rightarrow> 'm cli run" where
  "cmd_cpu_topo E arg s = (case arg of
     None \<Rightarrow> reply_error ''usage: cpu-topo KEY=group|group[;...] (levels, CAP and CPUS=K, see cpu.c)'' s
   | Some a \<Rightarrow> bind_run (Some (kstep_topo_set (en_lib E) (en_machine E) a (cl_topo s))) (\<lambda>(err, t).
       let s = s\<lparr>cl_topo := t\<rparr> in case err of None \<Rightarrow> Some (Inr s) | Some e \<Rightarrow> reply_error e s))"

section \<open>Dispatch\<close>

definition commands :: "'m env \<Rightarrow> (string \<times> (string option \<Rightarrow> 'm cli \<Rightarrow> 'm cli run)) list" where
  "commands E = [(''create'', cmd_create E), (''tick'', cmd_tick E), (''cpu-topo'', cmd_cpu_topo E),
     (''cpu-freq'', cmd_cpu_freq E), (''policy-fair'', cmd_policy_fair E), (''policy-rt'', cmd_policy_rt E),
     (''affinity'', cmd_affinity E), (''cgroup-create'', cmd_cgroup_create E),
     (''cgroup-weight'', cmd_cgroup_weight E), (''cgroup-cpus'', cmd_cgroup_cpus E),
     (''cgroup-destroy'', cmd_cgroup_destroy E), (''cgroup-attach'', cmd_cgroup_attach E),
     (''check'', cmd_check E)]"

definition task_verbs :: "'m env \<Rightarrow> (string \<times> (tptr \<times> nat \<Rightarrow> 'm cli \<Rightarrow> 'm cli run)) list" where
  "task_verbs E = [(''pause'', cli_task_ctrl E kstep_task_pause), (''block'', cli_task_ctrl E kstep_task_block),
     (''wake'', kstep_task_wakeup E), (''kill'', cli_task_ctrl E kstep_task_exit),
     (''chan-read'', cli_task_ctrl E kstep_task_chan_read), (''chan-write'', cli_task_ctrl E kstep_task_chan_write),
     (''freeze'', \<lambda>p s. Some (Inr (with_m (ck_freeze (en_kern E) (fst p)) s))),
     (''thaw'', \<lambda>p s. Some (Inr (with_m (ck_thaw (en_kern E) (fst p)) s))),
     (''yield'', cli_task_ctrl E kstep_task_yield)]"

text \<open>One line; the boolean is false when the session should end.\<close>

definition execute :: "'m env \<Rightarrow> string \<Rightarrow> 'm cli \<Rightarrow> (bool \<times> 'm cli) run" where
  "execute E line s = (let (verb, rest) = strsep blanks line;
     arg = (case map_option strim rest of Some [] \<Rightarrow> None | a \<Rightarrow> a) in
     case map_of (commands E) verb of
       Some f \<Rightarrow> bind_run (f arg s) (\<lambda>s. Some (Inr (True, s)))
     | None \<Rightarrow> (case map_of (task_verbs E) verb of
         Some f \<Rightarrow> bind_run (parse_task E arg (strscpy 32 (''usage: '' @ verb @ '' <n>'')) s) (\<lambda>(p, _, s).
           case p of None \<Rightarrow> Some (Inr (True, s))
           | Some p \<Rightarrow> bind_run (f p s) (\<lambda>s. Some (Inr (True, s))))
       | None \<Rightarrow> if verb = ''exit'' then Some (Inr (False, s))
           else bind_run (reply_error ''unknown command'' s) (\<lambda>s. Some (Inr (True, s)))))"

definition report_migrate :: "u64 \<Rightarrow> (tptr \<times> nat) list \<Rightarrow> tptr \<Rightarrow> int \<Rightarrow> int \<Rightarrow> tx_state \<Rightarrow> tx_state outcome" where
  "report_migrate now tasks p src_cpu dst_cpu tx = (let n = task_number tasks p in
     if n \<noteq> 0 then kstep_output_migrate now True (of_nat n) src_cpu dst_cpu tx else Inr tx)"

fun send_report :: "(tptr \<times> nat) list \<Rightarrow> report \<Rightarrow> tx_state \<Rightarrow> tx_state outcome" where
  "send_report tasks (Migrated now k p src_cpu dst_cpu) tx = report_migrate now (take k tasks) p src_cpu dst_cpu tx"
| "send_report tasks (Balanced now cpu span name) tx = kstep_output_balance now True cpu span name tx"
| "send_report tasks (Warned now check msg) tx = kstep_warn now True check msg tx"

text \<open>
  One turn of the loop of \<open>run\<close> on the line read: nothing for a blank line or a comment; else the
  reply is opened, the command executed, the machine settled (the callbacks reporting meanwhile),
  the shared region updated, and the reply closed and sent. The session is the turns up to \<open>exit\<close>,
  after the record that says it is ready.
\<close>

text \<open>
  The region as the update leaves it: stamped with the mocked jiffies, over the session's test CPUs and
  tasks, the kernel's own jiffies being those the clock keeps for it.
\<close>

definition region_of :: "'m env \<Rightarrow> 'm cli \<Rightarrow> kstep_shm \<Rightarrow> kstep_shm" where
  "region_of E s = (let V = en_view E; m = cl_m s in
     kstep_shm_update ((sv_conf V)\<lparr>sm_jiffies := ck_jiffies (t_clock (cl_ts s))\<rparr>) (sv_rq V m) (tp_ncpus (cl_topo s)) (kstep_jiffies_get (t_clock (cl_ts s))) (sv_cgroups V m)
       (map (sv_task V m \<circ> fst) (cl_tasks s)))"

definition run_line :: "'m env \<Rightarrow> string \<Rightarrow> 'm cli \<Rightarrow> (bool \<times> 'm cli) run" where
  "run_line E line s = (let l = strim (cstr line) in
     if l = [] \<or> hd l = CHR ''#'' then Some (Inr (True, s))
     else bind_run (Some (kstep_json_begin (kstep_jiffies_get (t_clock (cl_ts s))))) (\<lambda>json.
       bind_run (execute E l (s\<lparr>cl_reply := json\<rparr>)) (\<lambda>(more, s').
       bind_run (cli_settle E s') (\<lambda>s'.
       bind_run (Some (fold_outcome (send_report (cl_tasks s')) (en_reports E (cl_m s) (cl_m s')) (cl_tx s'))) (\<lambda>tx.
       let s' = s'\<lparr>cl_shm := region_of E s' (cl_shm s')\<rparr> in
       bind_run (Some (kstep_json_end True (cl_reply s') tx)) (\<lambda>tx.
       Some (Inr (more, s'\<lparr>cl_tx := tx\<rparr>))))))))"

fun run_lines :: "'m env \<Rightarrow> string list \<Rightarrow> 'm cli \<Rightarrow> (bool \<times> 'm cli) run" where
  "run_lines E [] s = Some (Inr (True, s))"
| "run_lines E (l # ls) s = bind_run (run_line E l s)
     (\<lambda>(more, s). if more then run_lines E ls s else Some (Inr (False, s)))"

definition cli_run :: "'m env \<Rightarrow> u64 \<Rightarrow> u64 \<Rightarrow> string list \<Rightarrow> 'm cli \<Rightarrow> (bool \<times> 'm cli) run" where
  "cli_run E shm_phys cov_phys lines s =
     bind_run (Some (send_record (kstep_jiffies_get (t_clock (cl_ts s))) True (\<lambda>json.
         bind_outcome (kstep_json_field_bool ''ready'' True json) (\<lambda>json.
         bind_outcome (kstep_json_field_u64 ''shm'' shm_phys json)
           (kstep_json_field_u64 ''cov'' cov_phys))) (cl_tx s)))
       (\<lambda>tx. run_lines E lines (s\<lparr>cl_tx := tx\<rparr>))"

section \<open>What every command does to the reply, the channel and the tasks\<close>

text \<open>
  Nothing sent, the reply as it was, tasks only added and at most 64 of them; or the same with one
  field added to the reply.
\<close>

definition quiet :: "'m cli \<Rightarrow> 'm cli \<Rightarrow> bool" where
  "quiet s s' \<longleftrightarrow> cl_tx s' = cl_tx s \<and> cl_reply s' = cl_reply s \<and>
     (\<exists>new. cl_tasks s' = cl_tasks s @ new \<and> (new = [] \<or> int (length (cl_tasks s')) \<le> KSTEP_SHM_TASKS))"

definition replied :: "'m cli \<Rightarrow> 'm cli \<Rightarrow> bool" where
  "replied s s' \<longleftrightarrow> (\<exists>u key val. key \<in> {''error'', ''task''} \<and> quiet s u \<and> s' = u\<lparr>cl_reply := cl_reply u @ field_text key val\<rparr>)"

lemma quiet_refl [simp]: "quiet s s"
  by (auto simp: quiet_def)

lemma quiet_trans: "quiet s t \<Longrightarrow> quiet t u \<Longrightarrow> quiet s u"
  by (auto simp: quiet_def)

lemma quiet_replied: "quiet s t \<Longrightarrow> replied t u \<Longrightarrow> replied s u"
  unfolding replied_def using quiet_trans by blast

definition step_ok :: "'m cli \<Rightarrow> 'm cli \<Rightarrow> bool" where
  "step_ok s s' \<longleftrightarrow> quiet s s' \<or> replied s s'"

named_theorems cli_steps \<open>what a returning step of the command interpreter did\<close>

lemma step_okI [intro]: "quiet s s' \<Longrightarrow> step_ok s s'" "replied s s' \<Longrightarrow> step_ok s s'"
  by (simp_all add: step_ok_def)

lemma quiet_step_ok: "quiet s t \<Longrightarrow> step_ok t u \<Longrightarrow> step_ok s u"
  unfolding step_ok_def using quiet_trans quiet_replied by blast

lemma quiet_with_m [simp]: "quiet s (with_m f s)"
  by (simp add: quiet_def with_m_def)

lemma quiet_ts [simp]: "quiet s (s\<lparr>cl_ts := ts\<rparr>)"
  by (simp add: quiet_def)

lemma quiet_topo [simp]: "quiet s (s\<lparr>cl_topo := t\<rparr>)"
  by (simp add: quiet_def)

lemma step_ok_with_m: "step_ok (with_m f s) u \<Longrightarrow> step_ok s u"
  by (rule quiet_step_ok [OF quiet_with_m])

lemma cli_settle_quiet [cli_steps]: "cli_settle E s = Some (Inr s') \<Longrightarrow> quiet s s'"
  by (auto simp: cli_settle_def bind_run_returns)

lemma reply_error_replied [cli_steps]: "reply_error msg s = Some (Inr s') \<Longrightarrow> replied s s'"
  using appends_field_str [of "''error''" msg]
  by (auto simp: reply_error_def bind_run_returns appends_def replied_def intro!: exI [of _ s])

lemma reply_errno_ok [cli_steps]: "reply_errno err s = Some (Inr s') \<Longrightarrow> step_ok s s'"
  by (auto simp: reply_errno_def split: if_splits dest: reply_error_replied)

lemma parse_fail:
  "bind_run (reply_error msg s) (\<lambda>s. Some (Inr (None, rest, s))) = Some (Inr (r, arg', s')) \<Longrightarrow>
    r = None \<and> replied s s'"
  by (auto simp: bind_run_returns dest: reply_error_replied)

lemma parse_task_result [cli_steps]:
  assumes "parse_task E arg usage s = Some (Inr (r, arg', s'))"
  shows "(r = None \<and> replied s s') \<or>
    (s' = s \<and> (\<exists>p. r = Some p \<and> p \<in> set (cl_tasks s) \<and> \<not> ck_exit_state (en_kern E) (cl_m s) (fst p)))"
proof -
  obtain num rest where t: "take_arg arg = (num, rest)" by fastforce
  show ?thesis
  proof (cases "Option.bind num (kstrtoint (en_lib E))")
    case None
    then show ?thesis using assms
      by (auto simp: parse_task_def t Let_def split: option.splits dest!: parse_fail)
  next
    case (Some n)
    then obtain num_s where n: "num = Some num_s" "kstrtoint (en_lib E) num_s = Some n"
      by (cases num) auto
    show ?thesis
    proof (cases "n \<le> 0 \<or> n > int (length (cl_tasks s)) \<or>
        ck_exit_state (en_kern E) (cl_m s) (fst (cl_tasks s ! nat (n - 1)))")
      case True
      then show ?thesis using assms
        by (auto simp: parse_task_def t n split: if_splits dest!: parse_fail)
    next
      case False
      then have "cl_tasks s ! nat (n - 1) \<in> set (cl_tasks s)" by (intro nth_mem) linarith
      moreover have "r = Some (cl_tasks s ! nat (n - 1))" "s' = s"
        using assms False by (auto simp: parse_task_def t n)
      ultimately show ?thesis using False by blast
    qed
  qed
qed

lemma parse_cgroup_result [cli_steps]:
  assumes "parse_cgroup E arg usage create s = Some (Inr (r, arg', s'))"
  shows "(r = None \<and> replied s s') \<or>
    (s' = s \<and> (\<exists>nm. r = Some nm \<and> length nm < 47 \<and> \<not> strstr (CHR ''/'' # nm) ''..''))"
proof -
  obtain path rest where t: "take_arg arg = (path, rest)" by fastforce
  show ?thesis
  proof (cases path)
    case None
    then show ?thesis using assms by (auto simp: parse_cgroup_def t dest!: parse_fail)
  next
    case (Some p)
    show ?thesis
    proof (cases "p = [] \<or> hd p \<noteq> CHR ''/'' \<or> strstr p ''..'' \<or> length p \<ge> 48")
      case True
      then show ?thesis using assms Some by (auto simp: parse_cgroup_def t dest!: parse_fail)
    next
      case False
      then obtain q where q: "p = CHR ''/'' # q" "length q < 47" by (cases p) auto
      show ?thesis using assms Some False
        by (auto simp: parse_cgroup_def t q(2) simp del: strstr.simps split: if_splits dest!: parse_fail)
          (simp_all add: q del: strstr.simps)
    qed
  qed
qed

text \<open>
  Every command in the same style: \<open>ok s r\<close> says that where \<open>r\<close> returns, what it did since
  \<open>s\<close> is such a step. The rules follow the shape of the commands.
\<close>

definition ok :: "'m cli \<Rightarrow> 'm cli run \<Rightarrow> bool" where
  "ok s r \<longleftrightarrow> (\<forall>s'. r = Some (Inr s') \<longrightarrow> step_ok s s')"

named_theorems ok_rules \<open>rules for what a command did since a state\<close>

lemma ok_from: "quiet s u \<Longrightarrow> ok u r \<Longrightarrow> ok s r"
  unfolding ok_def using quiet_step_ok by blast

lemma ok_return [ok_rules]: "quiet s u \<Longrightarrow> ok s (Some (Inr u))"
  by (auto simp: ok_def)

lemma ok_error [ok_rules]: "quiet s u \<Longrightarrow> ok s (reply_error msg u)"
  by (rule ok_from, assumption) (auto simp: ok_def dest: reply_error_replied)

lemma ok_errno [ok_rules]: "quiet s u \<Longrightarrow> ok s (reply_errno err u)"
  by (rule ok_from, assumption) (auto simp: ok_def dest: reply_errno_ok)

lemma ok_quiet: "(\<And>u. r = Some (Inr u) \<Longrightarrow> quiet s u) \<Longrightarrow> ok s r"
  by (auto simp: ok_def)

lemma ok_bind: "(\<And>x. r = Some (Inr x) \<Longrightarrow> ok s (f x)) \<Longrightarrow> ok s (bind_run r f)"
  by (auto simp: ok_def bind_run_returns)

lemma ok_bind_Some [ok_rules]: "(\<And>x. r = Inr x \<Longrightarrow> ok s (f x)) \<Longrightarrow> ok s (bind_run (Some r) f)"
  by (rule ok_bind) simp

lemma ok_parse_task [ok_rules]:
  assumes "\<And>arg' u. f (None, arg', u) = Some (Inr u)"
    "\<And>p arg'. p \<in> set (cl_tasks s) \<Longrightarrow> \<not> ck_exit_state (en_kern E) (cl_m s) (fst p) \<Longrightarrow> ok s (f (Some p, arg', s))"
  shows "ok s (bind_run (parse_task E arg usage s) f)"
proof (rule ok_bind)
  fix x assume x: "parse_task E arg usage s = Some (Inr x)"
  obtain r arg' u where e: "x = (r, arg', u)" by (cases x)
  show "ok s (f x)" using parse_task_result [OF x [unfolded e]] assms by (auto simp: e ok_def)
qed

lemma ok_parse_cgroup [ok_rules]:
  assumes "\<And>arg' u. f (None, arg', u) = Some (Inr u)" "\<And>nm arg'. length nm < 47 \<Longrightarrow> ok s (f (Some nm, arg', s))"
  shows "ok s (bind_run (parse_cgroup E arg usage create s) f)"
proof (rule ok_bind)
  fix x assume x: "parse_cgroup E arg usage create s = Some (Inr x)"
  obtain r arg' u where e: "x = (r, arg', u)" by (cases x)
  show "ok s (f x)" using parse_cgroup_result [OF x [unfolded e]] assms by (auto simp: e ok_def)
qed

lemma ok_result [ok_rules]: "ok s (reply_result f s)"
  unfolding reply_result_def by (rule ok_bind) (auto intro: ok_rules)

lemma quiet_with_m2 [simp]: "quiet s (with_m f (with_m g s))"
  by (rule quiet_trans [OF quiet_with_m quiet_with_m])

lemma cli_task_ctrl_quiet: "cli_task_ctrl E act p s = Some (Inr s') \<Longrightarrow> quiet s s'"
proof -
  assume a: "cli_task_ctrl E act p s = Some (Inr s')"
  then obtain u where "cli_settle E u = Some (Inr s')" "quiet s u"
    unfolding cli_task_ctrl_def bind_run_returns Let_def by (auto split: if_splits)
  then show ?thesis using cli_settle_quiet quiet_trans by blast
qed

lemma kstep_task_wakeup_quiet: "kstep_task_wakeup E p s = Some (Inr s') \<Longrightarrow> quiet s s'"
  unfolding kstep_task_wakeup_def using cli_settle_quiet quiet_trans [OF quiet_with_m] by blast

lemmas ok_splits = option.split prod.split if_split

lemma cmd_tick_ok: "ok s (cmd_tick E arg s)"
  unfolding cmd_tick_def by (auto split: ok_splits intro!: ok_rules ok_bind)

lemma cmd_affinity_ok: "ok s (cmd_affinity E arg s)"
  unfolding cmd_affinity_def Let_def kstep_task_set_affinity_def
  by (auto split: ok_splits intro!: ok_rules)

lemma cmd_policy_fair_ok: "ok s (cmd_policy_fair E arg s)"
  unfolding cmd_policy_fair_def Let_def kstep_task_set_fair_def
  by (auto split: ok_splits intro!: ok_rules)

lemma cmd_policy_rt_ok: "ok s (cmd_policy_rt E arg s)"
  unfolding cmd_policy_rt_def Let_def kstep_task_set_rt_def
  by (auto split: ok_splits intro!: ok_rules)

lemma cmd_cgroup_create_ok: "ok s (cmd_cgroup_create E arg s)"
  unfolding cmd_cgroup_create_def by (auto split: ok_splits intro!: ok_rules)

lemma cmd_cgroup_weight_ok: "ok s (cmd_cgroup_weight E arg s)"
  unfolding cmd_cgroup_weight_def Let_def by (auto split: ok_splits intro!: ok_rules)

lemma cmd_cgroup_cpus_ok: "ok s (cmd_cgroup_cpus E arg s)"
  unfolding cmd_cgroup_cpus_def Let_def by (auto split: ok_splits intro!: ok_rules)

lemma cmd_cgroup_destroy_ok: "ok s (cmd_cgroup_destroy E arg s)"
  unfolding cmd_cgroup_destroy_def by (auto split: ok_splits intro!: ok_rules)

lemma cmd_cgroup_attach_ok: "ok s (cmd_cgroup_attach E arg s)"
  unfolding cmd_cgroup_attach_def Let_def by (auto split: ok_splits intro!: ok_rules)

lemma cmd_check_ok: "ok s (cmd_check E arg s)"
  unfolding cmd_check_def Let_def by (auto split: ok_splits intro!: ok_rules)

lemma cmd_cpu_freq_ok: "ok s (cmd_cpu_freq E arg s)"
  unfolding cmd_cpu_freq_def cmd_cpu_scale_def by (auto split: ok_splits intro!: ok_rules)

lemma cmd_cpu_topo_ok: "ok s (cmd_cpu_topo E arg s)"
  unfolding cmd_cpu_topo_def Let_def by (auto split: ok_splits intro!: ok_rules)

text \<open>Creating tasks: each is appended to the table, never past its 64 entries.\<close>

lemma quiet_task: "quiet s (s\<lparr>cl_tasks := cl_tasks s @ [p]\<rparr>)"
  if "int (length (cl_tasks s)) < KSTEP_SHM_TASKS"
  using that by (auto simp: quiet_def)

lemma cli_settle_tasks: "cli_settle E s = Some (Inr s') \<Longrightarrow> cl_tasks s' = cl_tasks s"
  by (auto simp: cli_settle_def bind_run_returns)

lemma with_m_tasks [simp]: "cl_tasks (with_m f s) = cl_tasks s"
  by (simp add: with_m_def)

lemma kstep_task_wakeup_tasks: "kstep_task_wakeup E p s = Some (Inr s') \<Longrightarrow> cl_tasks s' = cl_tasks s"
  unfolding kstep_task_wakeup_def using cli_settle_tasks by fastforce

lemma refused_task_ok:
  assumes "bind_run (cli_task_ctrl E act p u) (\<lambda>s. bind_run (reply_errno err s) (\<lambda>s. Some (Inr (False, s)))) =
      Some (Inr (go, s'))" "quiet s u"
  shows "\<not> go \<and> step_ok s s'"
proof -
  obtain v where v: "cli_task_ctrl E act p u = Some (Inr v)" "reply_errno err v = Some (Inr s')" "\<not> go"
    using assms(1) by (auto simp: bind_run_returns)
  then have "quiet s v" using assms(2) cli_task_ctrl_quiet quiet_trans by blast
  then show ?thesis using v reply_errno_ok quiet_step_ok by blast
qed

lemma numbered_task_ok:
  assumes "(if int (length (cl_tasks u)) \<ge> KSTEP_SHM_TASKS then Some (Inl e)
      else bind_run (kstep_task_wakeup E p (u\<lparr>cl_tasks := cl_tasks u @ [p]\<rparr>)) (\<lambda>s. Some (Inr (True, s)))) =
      Some (Inr (go, s'))" "quiet s u"
  shows "go \<and> quiet s s' \<and> cl_tasks s' = cl_tasks u @ [p]"
proof -
  have lt: "int (length (cl_tasks u)) < KSTEP_SHM_TASKS" using assms(1) by (simp split: if_splits)
  then have w: "kstep_task_wakeup E p (u\<lparr>cl_tasks := cl_tasks u @ [p]\<rparr>) = Some (Inr s')" "go"
    using assms(1) by (auto simp: bind_run_returns)
  have "quiet s s'"
    using quiet_trans [OF assms(2) quiet_trans [OF quiet_task [OF lt] kstep_task_wakeup_quiet [OF w(1)]]] .
  then show ?thesis using w kstep_task_wakeup_tasks [OF w(1)] by simp
qed

lemma create_parked_quiet:
  "create_parked E name s = Some (Inr (err, p, u)) \<Longrightarrow> quiet s u \<and> cl_tasks u = cl_tasks s"
  unfolding create_parked_def
  by (cases "ck_create (en_kern E) (cl_m s)") (auto simp: bind_run_returns Let_def split: option.splits)

lemma cmd_create_one_result:
  assumes "cmd_create_one E name s = Some (Inr (go, s'))"
  shows "if go then quiet s s' \<and> length (cl_tasks s') = Suc (length (cl_tasks s)) else step_ok s s'"
proof -
  obtain err p u where c: "create_parked E name s = Some (Inr (err, p, u))"
    using assms by (auto simp: cmd_create_one_def bind_run_returns)
  note u = create_parked_quiet [OF c, THEN conjunct1] create_parked_quiet [OF c, THEN conjunct2]
  have r: "(if err \<noteq> 0 then bind_run (cli_task_ctrl E kstep_task_exit p u)
          (\<lambda>s. bind_run (reply_errno err s) (\<lambda>s. Some (Inr (False, s))))
       else if int (length (cl_tasks u)) \<ge> KSTEP_SHM_TASKS then Some (Inl ''out of bounds: tasks[]'')
       else bind_run (kstep_task_wakeup E p (u\<lparr>cl_tasks := cl_tasks u @ [p]\<rparr>))
          (\<lambda>s. Some (Inr (True, s)))) = Some (Inr (go, s'))"
    using assms unfolding cmd_create_one_def c bind_run_simps by simp
  show ?thesis
  proof (cases "err = 0")
    case True
    then have "\<not> err \<noteq> 0" by simp
    from numbered_task_ok [OF r [unfolded if_not_P [OF this]] u(1)] show ?thesis using u(2) by simp
  next
    case False
    show ?thesis using refused_task_ok [OF r [unfolded if_P [OF False]] u(1)] by simp
  qed
qed

lemma cmd_create_loop_result:
  "cmd_create_loop E name n s = Some (Inr (go, s')) \<Longrightarrow>
    if go then quiet s s' \<and> length (cl_tasks s') = length (cl_tasks s) + n else step_ok s s'"
proof (induction n arbitrary: s)
  case (Suc n)
  then obtain g u where one: "cmd_create_one E name s = Some (Inr (g, u))"
    and rest: "(if g then cmd_create_loop E name n u else Some (Inr (False, u))) = Some (Inr (go, s'))"
    by (auto simp: bind_run_returns)
  show ?case
  proof (cases g)
    case True
    then show ?thesis using Suc.IH [of u] rest cmd_create_one_result [OF one]
      by (auto split: if_splits intro: quiet_trans quiet_step_ok)
  next
    case False
    then show ?thesis using rest cmd_create_one_result [OF one] by simp
  qed
qed simp

lemma cmd_create_n_ok [ok_rules]: "ok s (cmd_create_n E name n s)"
proof -
  have "step_ok s s'" if l: "cmd_create_loop E name (nat n) s = Some (Inr (go, u))"
    and r: "(if \<not> go then Some (Inr u)
      else bind_run (Some (kstep_json_field_s64 ''task'' (of_nat (length (cl_tasks u))) (cl_reply u)))
        (\<lambda>json. Some (Inr (u\<lparr>cl_reply := json\<rparr>)))) = Some (Inr s')" for go u s'
  proof (cases go)
    case True
    then have "replied u s'" using r appends_field_s64 [of "''task''"]
      by (auto simp: bind_run_returns appends_def replied_def intro!: exI [of _ u])
    then show ?thesis using cmd_create_loop_result [OF l] True quiet_replied by auto
  next
    case False
    then show ?thesis using cmd_create_loop_result [OF l] r by simp
  qed
  then show ?thesis
    unfolding cmd_create_n_def by (auto intro!: ok_error ok_bind) (auto simp: ok_def)
qed

lemma cmd_create_ok: "ok s (cmd_create E arg s)"
  unfolding cmd_create_def Let_def by (auto split: ok_splits intro!: ok_rules)

lemmas command_ok = cmd_create_ok cmd_tick_ok cmd_cpu_topo_ok cmd_cpu_freq_ok cmd_policy_fair_ok
  cmd_policy_rt_ok cmd_affinity_ok cmd_cgroup_create_ok cmd_cgroup_weight_ok cmd_cgroup_cpus_ok
  cmd_cgroup_destroy_ok cmd_cgroup_attach_ok cmd_check_ok

lemma commands_ok: "map_of (commands E) verb = Some f \<Longrightarrow> ok s (f arg s)"
  by (drule map_of_SomeD) (auto simp: commands_def command_ok)

lemma task_verbs_quiet: "map_of (task_verbs E) verb = Some f \<Longrightarrow> f p s = Some (Inr s') \<Longrightarrow> quiet s s'"
  by (drule map_of_SomeD) (auto simp: task_verbs_def dest: cli_task_ctrl_quiet kstep_task_wakeup_quiet)

lemma task_verb_ok:
  assumes "map_of (task_verbs E) verb = Some f" "parse_task E arg usage s = Some (Inr (r, arg', u))"
    "(case r of None \<Rightarrow> Some (Inr (True, u)) | Some p \<Rightarrow> bind_run (f p u) (\<lambda>s. Some (Inr (True, s)))) = Some (Inr (continue, s'))"
  shows "step_ok s s'"
  using parse_task_result [OF assms(2)]
proof
  assume "r = None \<and> replied s u"
  then show ?thesis using assms(3) by auto
next
  assume "u = s \<and> (\<exists>p. r = Some p \<and> p \<in> set (cl_tasks s) \<and> \<not> ck_exit_state (en_kern E) (cl_m s) (fst p))"
  then obtain p where "u = s" "f p s = Some (Inr s')" using assms(3) by (auto simp: bind_run_returns)
  then show ?thesis using task_verbs_quiet [OF assms(1)] by blast
qed

lemma execute_ok:
  assumes "execute E line s = Some (Inr (continue, s'))"
  shows "step_ok s s'"
proof -
  obtain verb rest where v: "strsep blanks line = (verb, rest)" by fastforce
  define arg where "arg = (case map_option strim rest of Some [] \<Rightarrow> None | a \<Rightarrow> a)"
  note ex = assms [unfolded execute_def v Let_def prod.case arg_def [symmetric]]
  show ?thesis
  proof (cases "map_of (commands E) verb")
    case (Some f)
    then have "f arg s = Some (Inr s')" using ex by (auto simp: bind_run_returns)
    then show ?thesis using commands_ok [OF Some, of s arg] by (simp add: ok_def)
  next
    case no_command: None
    show ?thesis
    proof (cases "map_of (task_verbs E) verb")
      case (Some f)
      then show ?thesis using ex task_verb_ok [OF Some]
        by (auto simp: no_command bind_run_returns simp del: map_of.simps)
    next
      case None
      then show ?thesis using ex
        by (auto simp: no_command bind_run_returns split: if_splits dest: reply_error_replied)
    qed
  qed
qed

text \<open>A report is at most one record, and a session's reports come before its reply.\<close>

lemma kstep_io_write_record:
  "send_record now add_ok body tx = Inr tx' \<Longrightarrow> tx_inv tx \<Longrightarrow>
    \<exists>r. tx_inv tx' \<and> tx_in_flight tx' = tx_in_flight tx @ [r]"
  by (auto simp: send_record_eq bind_outcome_Inr_iff dest: kstep_io_write_Inr)

lemma send_report_one:
  assumes "send_report tasks r tx = Inr tx'" "tx_inv tx"
  shows "\<exists>rs. tx_inv tx' \<and> tx_in_flight tx' = tx_in_flight tx @ rs \<and> length rs \<le> 1"
proof -
  have "tx' = tx \<or> (\<exists>r. tx_inv tx' \<and> tx_in_flight tx' = tx_in_flight tx @ [r])"
    using assms kstep_io_write_record [OF _ assms(2)]
    by (cases r) (auto simp: report_migrate_def Let_def kstep_output_migrate_def
        kstep_output_balance_def kstep_warn_def split: if_splits)
  then show ?thesis using assms(2) by fastforce
qed

lemma send_reports:
  "fold_outcome (send_report tasks) rs tx = Inr tx' \<Longrightarrow> tx_inv tx \<Longrightarrow>
    \<exists>recs. tx_inv tx' \<and> tx_in_flight tx' = tx_in_flight tx @ recs \<and> length recs \<le> length rs"
proof (induction rs arbitrary: tx)
  case (Cons r rs)
  then obtain t where t: "send_report tasks r tx = Inr t" "fold_outcome (send_report tasks) rs t = Inr tx'"
    by (auto simp: bind_outcome_Inr_iff)
  obtain a where a: "tx_inv t" "tx_in_flight t = tx_in_flight tx @ a" "length a \<le> 1"
    using send_report_one [OF t(1) Cons.prems(2)] by blast
  obtain b where "tx_inv tx'" "tx_in_flight tx' = tx_in_flight t @ b" "length b \<le> length rs"
    using Cons.IH [OF t(2) a(1)] by blast
  then show ?case using a by (intro exI [of _ "a @ b"]) simp
qed simp

lemma run_line_Inr:
  assumes "run_line E line s = Some (Inr (continue, s'))"
    and "strim (cstr line) \<noteq> []" "hd (strim (cstr line)) \<noteq> CHR ''#''"
  obtains u v tx where "step_ok (s\<lparr>cl_reply := ''{'' @ field_text ''timestamp'' (dec (unat (kstep_jiffies_get (t_clock (cl_ts s)))))\<rparr>) u"
    "quiet u v" "fold_outcome (send_report (cl_tasks v)) (en_reports E (cl_m s) (cl_m v)) (cl_tx v) = Inr tx"
    "kstep_json_end True (cl_reply v) tx = Inr (cl_tx s')" "cl_tasks s' = cl_tasks v" "cl_tasks v = cl_tasks u"
proof -
  let ?j = "''{'' @ field_text ''timestamp'' (dec (unat (kstep_jiffies_get (t_clock (cl_ts s)))))"
  obtain u v tx tx' where "execute E (strim (cstr line)) (s\<lparr>cl_reply := ?j\<rparr>) = Some (Inr (continue, u))"
    and v: "cli_settle E u = Some (Inr v)"
      "fold_outcome (send_report (cl_tasks v)) (en_reports E (cl_m s) (cl_m v)) (cl_tx v) = Inr tx"
      "kstep_json_end True (cl_reply v) tx = Inr tx'"
      "s' = v\<lparr>cl_shm := region_of E v (cl_shm v), cl_tx := tx'\<rparr>"
    using assms by (auto simp: run_line_def bind_run_returns Let_def kstep_json_begin_Inr with_m_def)
  then show ?thesis
    using that [OF execute_ok cli_settle_quiet] cli_settle_tasks [OF v(1)] by (auto simp: with_m_def)
qed

text \<open>An environment for the witnesses: tasks made in turn, a machine that settles.\<close>

definition demo_fs0 :: "nat kfs" where
  "demo_fs0 = \<lparr>fs_open = (\<lambda>_ _. 0), fs_kwrite = (\<lambda>_ _ m. (0, m)), fs_create = (\<lambda>_ _. 0), fs_vmkdir = (\<lambda>_ m. (0, m)),
     fs_lookup = (\<lambda>_ _. False), fs_want_write = (\<lambda>_ _. 0), fs_vrmdir = (\<lambda>_ m. (0, m))\<rparr>"

definition demo_ckern :: "nat ckern" where
  "demo_ckern = \<lparr>ck_kern = demo_kern slow_cpus, ck_fs = demo_fs0, ck_exit_state = (\<lambda>_ _. False),
     ck_nice = (\<lambda>_ _. 0), ck_setattr = (\<lambda>_ _ _ _ m. m), ck_setaffinity = (\<lambda>_ _ m. (0, m)),
     ck_create = (\<lambda>m. (m, 100 + m, Suc m)), ck_set_tasks = (\<lambda>_ m. m), ck_ipi = (\<lambda>_ m. m),
     ck_signal = (\<lambda>_ m. m), ck_freeze = (\<lambda>_ m. m), ck_thaw = (\<lambda>_ m. m), ck_cgroup = (\<lambda>_ _. None),
     ck_unregister = (\<lambda>_ m. m), ck_check = (\<lambda>_ m. (0, m)), ck_freq = (\<lambda>_ _ m. m)\<rparr>"

definition demo_shm_view :: "nat shm_view" where
  "demo_shm_view = \<lparr>sv_conf = Shm.demo_conf, sv_rq = (\<lambda>_ _. demo_cpu), sv_cgroups = (\<lambda>_. Some [demo_cg]), sv_task = (\<lambda>_ p. demo_shm_task p 0 False)\<rparr>"

definition demo_env :: "nat env" where
  "demo_env = \<lparr>en_lib = demo_klib, en_machine = demo_machine, en_kern = demo_ckern, en_nsec = 4000000,
     en_interval = 0, en_rt = False, en_reports = (\<lambda>_ _. []),
     en_view = demo_shm_view\<rparr>"

definition demo_cli :: "nat \<Rightarrow> nat cli" where
  "demo_cli n = \<lparr>cl_ts = demo_tsys, cl_tasks = map (\<lambda>i. (i, 100 + i)) [0..<n], cl_topo = demo_topo,
     cl_reply = [], cl_tx = chan_tx_init (\<lambda>_. []), cl_shm = demo_shm\<rparr>"

lemma demo_cli_tx: "tx_inv (cl_tx (demo_cli n))" "tx_in_flight (cl_tx (demo_cli n)) = []"
  by (simp_all add: demo_cli_def tx_inv_def chan_tx_init_def tx_in_flight_def)

section \<open>One reply per command\<close>

lemma step_ok_fields:
  assumes "step_ok s u" "quiet u v"
  shows "\<exists>fs. (fs = [] \<or> (\<exists>key val. fs = [(key, val)] \<and> key \<in> {''error'', ''task''})) \<and>
    cl_reply v = cl_reply s @ commas fs \<and> cl_tx v = cl_tx s"
proof (cases "quiet s u")
  case True
  then show ?thesis using assms(2) by (intro exI [of _ "[]"]) (simp add: quiet_def)
next
  case False
  then obtain w key val where "key \<in> {''error'', ''task''}" "quiet s w" "u = w\<lparr>cl_reply := cl_reply w @ field_text key val\<rparr>"
    using assms(1) by (auto simp: step_ok_def replied_def)
  then show ?thesis using assms(2) by (intro exI [of _ "[(key, val)]"]) (auto simp: quiet_def)
qed


lemma demo_settles: "settles (ck_kern (en_kern demo_env)) n"
  by (simp add: demo_env_def demo_ckern_def slow_settles)

lemma cli_settle_returns:
  "settles (ck_kern (en_kern E)) (tp_ncpus (cl_topo s)) \<Longrightarrow> \<exists>ts. cli_settle E s = Some (Inr (s\<lparr>cl_ts := ts\<rparr>))"
  using settles_settle [of "ck_kern (en_kern E)" "tp_ncpus (cl_topo s)" "cl_ts s"]
  by (auto simp: cli_settle_def)

lemma demo_exit_record: "\<exists>tx. kstep_json_end True (''{'' @ field_text ''timestamp'' (dec 0)) (chan_tx_init (\<lambda>_. [])) = Inr tx"
proof -
  have "dec 0 = ''0''" by code_simp
  then have c: "kstep_json_close (''{'' @ field_text ''timestamp'' (dec 0)) = Inr (''{\"timestamp\":0}'' @ [newline])"
    using kstep_json_close_Inr [of "''{\"timestamp\":0''"] by (simp add: field_text_def quoted_def)
  show ?thesis unfolding kstep_json_end_def c by (simp add: kstep_io_write_def chan_tx_init_def Let_def)
qed

lemma demo_env_reports: "en_reports demo_env m m' = []"
  by (simp add: demo_env_def)

lemma demo_exit_returns:
  "\<exists>s'. run_line demo_env ''exit'' (demo_cli 1) = Some (Inr (False, s')) \<and> cl_topo s' = cl_topo (demo_cli 1) \<and> cl_tasks s' = cl_tasks (demo_cli 1)"
proof -
  have l: "strim (cstr ''exit'') = ''exit''" by (simp add: strim_def cstr_def isspace_def)
  have "strsep blanks ''exit'' = (''exit'', None)" by (simp add: strsep_def blanks_def)
  moreover have "map_of (commands demo_env) ''exit'' = None" "map_of (task_verbs demo_env) ''exit'' = None"
    by (simp_all add: commands_def task_verbs_def)
  ultimately have ex: "execute demo_env ''exit'' s = Some (Inr (False, s))" for s by (simp add: execute_def)
  obtain tx where tx: "kstep_json_end True (''{'' @ field_text ''timestamp'' (dec 0)) (chan_tx_init (\<lambda>_. [])) = Inr tx"
    using demo_exit_record by blast
  define s0 where "s0 = (demo_cli 1)\<lparr>cl_reply := CHR ''{'' # field_text ''timestamp'' (dec 0)\<rparr>"
  obtain ts where ts: "cli_settle demo_env s0 = Some (Inr (s0\<lparr>cl_ts := ts\<rparr>))"
    using cli_settle_returns [OF demo_settles] by blast
  have "kstep_json_begin (kstep_jiffies_get (t_clock (cl_ts (demo_cli 1)))) = Inr (''{'' @ field_text ''timestamp'' (dec 0))"
    by (simp add: kstep_json_begin_Inr kstep_jiffies_get_def demo_cli_def demo_tsys_def)
  moreover have "cl_tx s0 = chan_tx_init (\<lambda>_. [])" "cl_reply s0 = ''{'' @ field_text ''timestamp'' (dec 0)"
    by (simp_all add: s0_def demo_cli_def)
  ultimately show ?thesis
    using tx ts by (simp add: run_line_def l ex s0_def [symmetric] demo_env_reports del: One_nat_def) (simp add: s0_def)
qed


section \<open>The tasks of a session\<close>

lemma find_append: "List.find P (xs @ ys) = (case List.find P xs of None \<Rightarrow> List.find P ys | Some x \<Rightarrow> Some x)"
  by (induction xs) auto

lemma task_number_append: "p \<in> fst ` set ts \<Longrightarrow> task_number (ts @ new) p = task_number ts p"
proof -
  assume "p \<in> fst ` set ts"
  then obtain i where i: "i < length ts" "fst (ts ! i) = p" by (auto simp: in_set_conv_nth)
  then have "List.find (\<lambda>i. fst (ts ! i) = p) [0..<length ts] \<noteq> None" by (auto simp: find_None_iff)
  then obtain k where k: "List.find (\<lambda>i. fst (ts ! i) = p) [0..<length ts] = Some k" by blast
  have "List.find (\<lambda>i. fst ((ts @ new) ! i) = p) [0..<length ts] = Some k"
    unfolding k [symmetric] by (rule find_cong) (auto simp: nth_append)
  moreover have "[0..<length (ts @ new)] = [0..<length ts] @ [length ts..<length ts + length new]"
    by (simp only: length_append upt_add_eq_append [OF le0])
  ultimately have "List.find (\<lambda>i. fst ((ts @ new) ! i) = p) [0..<length (ts @ new)] = Some k"
    by (simp only: find_append option.case)
  then show ?thesis unfolding task_number_def k by (simp only: option.case)
qed

lemma run_line_tasks:
  assumes "run_line E line s = Some (Inr (continue, s'))"
  shows "\<exists>new. cl_tasks s' = cl_tasks s @ new \<and> (new = [] \<or> int (length (cl_tasks s')) \<le> KSTEP_SHM_TASKS)"
proof (cases "strim (cstr line) = [] \<or> hd (strim (cstr line)) = CHR ''#''")
  case True
  then have "s' = s" using assms by (auto simp: run_line_def Let_def)
  then show ?thesis by simp
next
  case False
  let ?s = "s\<lparr>cl_reply := ''{'' @ field_text ''timestamp'' (dec (unat (kstep_jiffies_get (t_clock (cl_ts s)))))\<rparr>"
  obtain u where u: "step_ok ?s u" "cl_tasks s' = cl_tasks u"
    by (rule run_line_Inr [OF assms]) (use False in \<open>simp_all del: append_Cons\<close>)
  have "\<exists>w. quiet ?s w \<and> cl_tasks u = cl_tasks w"
    using u(1) by (auto simp: step_ok_def replied_def)
  then show ?thesis using u(2) by (auto simp: quiet_def)
qed

lemma run_lines_tasks:
  assumes "run_lines E lines s = Some (Inr (continue, s'))" "length (cl_tasks s) \<le> 64"
  shows "(\<exists>new. cl_tasks s' = cl_tasks s @ new) \<and> length (cl_tasks s') \<le> 64"
  using assms
proof (induction lines arbitrary: s)
  case (Cons l ls)
  then obtain c u where l: "run_line E l s = Some (Inr (c, u))"
    and r: "(if c then run_lines E ls u else Some (Inr (False, u))) = Some (Inr (continue, s'))"
    by (auto simp: bind_run_returns)
  obtain new where n: "cl_tasks u = cl_tasks s @ new" "length (cl_tasks u) \<le> 64"
    using run_line_tasks [OF l] Cons.prems(2) by auto
  show ?case using r n Cons.IH [of u] by (cases c) auto
qed simp



lemma sint_small: "0 \<le> k \<Longrightarrow> k < 2 ^ (LENGTH('a) - 1) \<Longrightarrow> sint (word_of_int k :: 'a::len word) = k"
  by (simp add: signed_of_int signed_take_bit_int_eq_self_iff order.trans [of _ 0])

lemma int_add_exact: "0 \<le> a + b \<Longrightarrow> a + b < 2 ^ 31 \<Longrightarrow> int_add a b = a + b"
  unfolding int_add_def by (rule sint_small) simp_all

lemma cmd_create_one_returns:
  assumes "settles (ck_kern (en_kern E)) (tp_ncpus (cl_topo s))" "length (cl_tasks s) < 64"
  shows "\<exists>s' p. cmd_create_one E None s = Some (Inr (True, s')) \<and> cl_tasks s' = cl_tasks s @ [p] \<and>
    cl_topo s' = cl_topo s \<and> cl_reply s' = cl_reply s"
proof -
  obtain p pid m where c: "ck_create (en_kern E) (cl_m s) = (p, pid, m)" by (metis prod_cases3)
  define u where "u = with_m (ck_signal (en_kern E) p) ((with_m (\<lambda>_. m) s)\<lparr>cl_tasks := cl_tasks s @ [(p, pid)]\<rparr>)"
  have u: "cl_topo u = cl_topo s" "cl_tasks u = cl_tasks s @ [(p, pid)]" "cl_reply u = cl_reply s"
    by (simp_all add: u_def with_m_def)
  obtain ts where "cli_settle E u = Some (Inr (u\<lparr>cl_ts := ts\<rparr>))"
    using cli_settle_returns [of E u] assms(1) u(1) by auto
  then have "cmd_create_one E None s = Some (Inr (True, u\<lparr>cl_ts := ts\<rparr>))"
    using assms(2) by (simp add: cmd_create_one_def create_parked_def c Let_def kstep_task_wakeup_def u_def)
  then show ?thesis using u by simp
qed

lemma cmd_create_loop_returns:
  assumes "settles (ck_kern (en_kern E)) (tp_ncpus (cl_topo s))" "length (cl_tasks s) + n \<le> 64"
  shows "\<exists>s' new. cmd_create_loop E None n s = Some (Inr (True, s')) \<and> cl_tasks s' = cl_tasks s @ new \<and>
    length new = n \<and> cl_reply s' = cl_reply s"
  using assms
proof (induction n arbitrary: s)
  case (Suc n)
  obtain u p where u: "cmd_create_one E None s = Some (Inr (True, u))" "cl_tasks u = cl_tasks s @ [p]"
      "cl_topo u = cl_topo s" "cl_reply u = cl_reply s"
    using cmd_create_one_returns [OF Suc.prems(1)] Suc.prems(2) by auto
  obtain s' new where "cmd_create_loop E None n u = Some (Inr (True, s'))" "cl_tasks s' = cl_tasks u @ new"
      "length new = n" "cl_reply s' = cl_reply u"
    using Suc.IH [of u] Suc.prems u by auto
  then show ?case using u by (intro exI [of _ s'] exI [of _ "p # new"]) simp
qed simp

lemma task_field:
  assumes "k \<le> 64" "length json < 450"
  shows "kstep_json_field_s64 ''task'' (of_nat k) json = Inr (json @ field_text ''task'' (dec k))"
proof -
  have "sint (of_nat k :: u64) = int k" using sint_small [of "int k", where 'a = 64] assms(1) by simp
  moreover have "length (dec k) \<le> 2" using assms(1) by (intro length_dec) simp_all
  ultimately show ?thesis using appends_field_s64 [of "''task''" "of_nat k"] assms(2)
    by (simp add: appends_def sdec_def field_text_def quoted_def)
qed

text \<open>
  On a machine that settles, \<open>create n\<close> within the 64 entries does what it says: it returns
  with exactly \<open>n\<close> new tasks numbered after the others, and the reply names the last one.
\<close>

theorem create_numbers_n_tasks:
  assumes "settles (ck_kern (en_kern E)) (tp_ncpus (cl_topo s))"
    and "1 \<le> n" "int (length (cl_tasks s)) + n \<le> 64" "length (cl_reply s) < 450"
  shows "\<exists>s' new. cmd_create_n E None n s = Some (Inr s') \<and> cl_tasks s' = cl_tasks s @ new \<and>
    int (length new) = n \<and> cl_reply s' = cl_reply s @ field_text ''task'' (dec (length (cl_tasks s) + nat n))"
proof -
  have l: "length (cl_tasks s) + nat n \<le> 64" using assms(2,3) by linarith
  obtain u new where u: "cmd_create_loop E None (nat n) s = Some (Inr (True, u))" "cl_tasks u = cl_tasks s @ new"
      "length new = nat n" "cl_reply u = cl_reply s"
    using cmd_create_loop_returns [OF assms(1) l] by blast
  let ?k = "length (cl_tasks s) + nat n"
  have "kstep_json_field_s64 ''task'' (of_nat ?k) (cl_reply u) = Inr (cl_reply s @ field_text ''task'' (dec ?k))"
    unfolding u(4) by (rule task_field [OF l assms(4)])
  moreover have "\<not> int_add (int (length (cl_tasks s))) n > 64"
    using assms(2,3) by (subst int_add_exact) simp_all
  ultimately show ?thesis
    using assms(2) u by (simp add: cmd_create_n_def)
qed

theorem create_numbers_n_tasks_witness:
  "\<exists>s' new. cmd_create_n demo_env None 2 (demo_cli 1) = Some (Inr s') \<and> cl_tasks s' = (0, 100) # new \<and>
    length new = 2"
  using create_numbers_n_tasks [OF demo_settles, of 2 "demo_cli 1"] by (force simp: demo_cli_def)

text \<open>
  The guard adds in 32 bits: with the table full, \<open>create 2147483647\<close> is not refused as too
  many tasks but passes, as the sum wraps to a negative number, and the first task it makes is
  written past the table's end.
\<close>

theorem create_guard_wraps:
  assumes "length (cl_tasks s) = 64"
  shows "int_add (int (length (cl_tasks s))) 2147483647 \<le> KSTEP_SHM_TASKS \<and>
    cmd_create_n E None 2147483647 s = Some (Inl ''out of bounds: tasks[]'')"
proof -
  have w: "int_add 64 2147483647 \<le> KSTEP_SHM_TASKS" by (simp add: int_add_def)
  obtain k where k: "nat 2147483647 = Suc k" by (metis nat_numeral Suc_eq_numeral pred_numeral_def numeral_eq_Suc)
  obtain p pid m where c: "ck_create (en_kern E) (cl_m s) = (p, pid, m)" by (metis prod_cases3)
  have "cmd_create_one E None s = Some (Inl ''out of bounds: tasks[]'')"
    using assms by (simp add: cmd_create_one_def create_parked_def c Let_def)
  then show ?thesis using w assms unfolding cmd_create_n_def k by simp
qed

theorem create_guard_wraps_witness:
  "cmd_create_n demo_env None 2147483647 (demo_cli 64) = Some (Inl ''out of bounds: tasks[]'')"
  using create_guard_wraps [of "demo_cli 64" demo_env] by (simp add: demo_cli_def)

end
