(* ===== verification/Checkers.thy ===== *)
theory Checkers
  imports Complex_Main Kernel Trace
begin

text \<open>
  The rules (kmod/checkers/): what each reads of the machine when the event it watches is raised,
  what it keeps between events, and when it warns; and the table the \<open>check\<close> command enables them
  from. What the rules read of the kernel is an observation (\<open>obs\<close>), an argument. A warning is the
  rule's name and its message, which \<open>kstep_warn\<close> sends as a record.
\<close>

section \<open>What the rules read\<close>

text \<open>Fields of a runqueue: its load as the scheduler counts it, its clock, its signals.\<close>

record rq_obs =
  ro_nr_running :: u32
  ro_h_nr_queued :: u32
  ro_h_nr_runnable :: u32
  ro_clock_task :: u64
  ro_rt_util :: u64
  ro_dl_util :: u64
  ro_rt_sum :: u32
  ro_dl_sum :: u32
  ro_cfs_util :: u64
  ro_cfs_removed :: u64
  ro_leaf_removed :: "u64 list"

text \<open>A level of a task's hierarchy: the entity's slice and vruntime, its queue's minimum.\<close>

record se_obs =
  so_slice :: u64
  so_vruntime :: u64
  so_min_vruntime :: u64

record task_obs =
  to_pid :: int
  to_cpu :: nat
  to_policy :: int
  to_exit :: bool
  to_state :: u32
  to_cpus :: "nat set"
  to_ses :: "se_obs list"

record obs =
  ob_rq :: "nat \<Rightarrow> rq_obs"
  ob_task :: "tptr \<Rightarrow> task_obs"
  ob_ncpus :: nat
  ob_online :: nat
  ob_tasks :: "tptr list"

type_synonym warning = "string \<times> string"

text \<open>\<open>%#x\<close>.\<close>

definition hex :: "u32 \<Rightarrow> string" where
  "hex w = (if w = 0 then ''0'' else ''0x'' @ hex_digits (unat w))"

section \<open>balance\<close>

text \<open>\<open>grp\<close> is the span of the domain's first group, in CPU order.\<close>

definition on_balance :: "obs \<Rightarrow> nat \<Rightarrow> nat list \<Rightarrow> warning list" where
  "on_balance ob cpu grp = (if ro_nr_running (ob_rq ob cpu) = 0 \<or> cpu \<notin> set grp then []
     else case List.find (\<lambda>i. ro_nr_running (ob_rq ob i) = 0) grp of None \<Rightarrow> []
       | Some i \<Rightarrow> [(''balance'', ''cpu '' @ dec cpu @ '' ('' @ dec (unat (ro_nr_running (ob_rq ob cpu))) @
           '' running) balances while cpu '' @ dec i @ '' in its group is idle'')])"

text \<open>The reproducer's form of the rule: the record of the balance, and whether it logs.\<close>

definition kstep_check_extra_balance :: "u64 \<Rightarrow> bool \<Rightarrow> obs \<Rightarrow> nat \<Rightarrow> nat list \<Rightarrow> string \<Rightarrow> string \<Rightarrow> tx_state \<Rightarrow>
    (bool \<times> tx_state) outcome" where
  "kstep_check_extra_balance now ok ob cpu grp sd_span name tx =
     bind_outcome (kstep_output_balance now ok (int cpu) sd_span name tx) (\<lambda>tx.
       if ro_nr_running (ob_rq ob cpu) = 0 \<or> cpu \<notin> set grp then Inr (False, tx)
       else Inr (\<exists>i \<in> set grp. ro_nr_running (ob_rq ob i) = 0, tx))"

section \<open>frozen\<close>

unbundle bit_operations_syntax

definition on_freeze :: "obs \<Rightarrow> tptr \<Rightarrow> u32 \<Rightarrow> warning list" where
  "on_freeze ob p state_before = (let sleeper = state_before AND TASK_FREEZABLE \<noteq> 0 \<and> state_before AND TASK_FROZEN = 0 in
     if sleeper \<and> to_state (ob_task ob p) AND TASK_FROZEN = 0
     then [(''frozen'', ''task '' @ sdec (to_pid (ob_task ob p)) @ '' was a freezable sleeper (state '' @ hex state_before @
       '') but freeze_task() left it at '' @ hex (to_state (ob_task ob p)))] else [])"

section \<open>pelt\<close>

record pelt_obs =
  po_util :: u64
  po_clock_task :: u64
  po_saturated :: bool

abbreviation LOAD_AVG_MAX :: u32 where "LOAD_AVG_MAX \<equiv> 47742"
abbreviation PELT_HALF_LIFE :: u64 where "PELT_HALF_LIFE \<equiv> 32000000"

definition pelt_divider :: u32 where
  "pelt_divider = push_bit 10 (LOAD_AVG_MAX - 1024) - LOAD_AVG_MAX"

definition pelt_read :: "rq_obs \<Rightarrow> pelt_obs" where
  "pelt_read rq = \<lparr>po_util = ro_rt_util rq + ro_dl_util rq, po_clock_task = ro_clock_task rq,
     po_saturated = (pelt_divider \<le> ro_rt_sum rq + ro_dl_sum rq)\<rparr>"

text \<open>The least the signal may have decayed to \<open>dt\<close> nanoseconds after it was \<open>util\<close>.\<close>

definition pelt_floor :: "u64 \<Rightarrow> u64 \<Rightarrow> u64" where
  "pelt_floor util dt = (let halves = dt div PELT_HALF_LIFE; rem = dt mod PELT_HALF_LIFE;
     base = (if halves \<ge> 64 then 0 else drop_bit (unat halves) util) in
     drop_bit 10 (base * (1024 - rem * 1024 div PELT_HALF_LIFE)))"

definition pelt_check :: "nat \<Rightarrow> pelt_obs \<Rightarrow> pelt_obs \<Rightarrow> warning list" where
  "pelt_check cpu prev cur =
     (if po_saturated prev \<and> po_clock_task cur > po_clock_task prev then
        let dt = po_clock_task cur - po_clock_task prev; floor = pelt_floor (po_util prev) dt in
        if po_util cur + 16 + floor div 16 < floor
        then [(''pelt'', ''rt+dl util on saturated cpu '' @ dec cpu @ '' fell '' @ dec (unat (po_util prev)) @ '' -> '' @
          dec (unat (po_util cur)) @ '' over '' @ dec (unat dt) @ '' ns, under the '' @ dec (unat floor) @ '' decay floor'')]
        else []
      else [])"

definition pelt_on_tick_end :: "obs \<Rightarrow> (nat \<Rightarrow> pelt_obs) \<Rightarrow> warning list \<times> (nat \<Rightarrow> pelt_obs)" where
  "pelt_on_tick_end ob prev =
     (concat (map (\<lambda>cpu. pelt_check cpu (prev cpu) (pelt_read (ob_rq ob cpu))) (test_cpus (ob_ncpus ob))),
      \<lambda>cpu. if cpu \<in> set (test_cpus (ob_ncpus ob)) then pelt_read (ob_rq ob cpu) else prev cpu)"

section \<open>sync_wakeup\<close>

abbreviation KSTEP_WAKEUPS :: nat where "KSTEP_WAKEUPS \<equiv> 16"
abbreviation WF_SYNC :: u32 where "WF_SYNC \<equiv> 0x10"

text \<open>The slots, how many placements were sampled, and the task references the rule holds.\<close>

record sync_state =
  sy_pending :: "(tptr \<times> nat) list"
  sy_n :: nat
  sy_refs :: "tptr \<Rightarrow> nat"

definition sync_zero :: sync_state where
  "sync_zero = \<lparr>sy_pending = replicate KSTEP_WAKEUPS (0, 0), sy_n = 0, sy_refs = \<lambda>_. 0\<rparr>"

text \<open>
  What the placement of a wakeup sees on the waker's CPU: the jiffy, the CPU, the task, the flags,
  the waker's runqueue and the CPUs the task may run on. \<open>delayed_dequeue\<close>: kernels from 6.14 count
  the delayed entities apart.
\<close>

record placement =
  pl_now :: u64
  pl_cpu :: nat
  pl_task :: tptr
  pl_flags :: u32
  pl_rq :: rq_obs
  pl_cpus :: "nat set"

definition sync_owed :: "bool \<Rightarrow> placement \<Rightarrow> bool" where
  "sync_owed delayed_dequeue a \<longleftrightarrow> pl_now a \<noteq> 0 \<and> pl_flags a AND WF_SYNC \<noteq> 0 \<and> pl_cpu a \<noteq> 0 \<and> pl_cpu a \<in> pl_cpus a \<and>
     ro_nr_running (pl_rq a) -
       (if delayed_dequeue then ro_h_nr_queued (pl_rq a) - ro_h_nr_runnable (pl_rq a) else 0) = 1"

definition on_select :: "bool \<Rightarrow> placement \<Rightarrow> sync_state \<Rightarrow> sync_state" where
  "on_select delayed_dequeue a s =
     (if \<not> sync_owed delayed_dequeue a then s
      else let i = sy_n s; s = s\<lparr>sy_n := i + 1\<rparr> in
        if i < KSTEP_WAKEUPS then
          s\<lparr>sy_refs := (sy_refs s)(pl_task a := sy_refs s (pl_task a) + 1),
            sy_pending := (sy_pending s)[i := (pl_task a, pl_cpu a)]\<rparr>
        else s)"

definition sync_verdict :: "obs \<Rightarrow> tptr \<times> nat \<Rightarrow> warning list" where
  "sync_verdict ob pw = (case pw of (p, waker_cpu) \<Rightarrow>
     if to_cpu (ob_task ob p) \<noteq> waker_cpu
     then [(''sync_wakeup'', ''sync wakeup of task '' @ sdec (to_pid (ob_task ob p)) @ '' was owed waker cpu '' @ dec waker_cpu @
       '', landed on '' @ dec (to_cpu (ob_task ob p)))] else [])"

fun sync_loop :: "obs \<Rightarrow> (tptr \<times> nat) list \<Rightarrow> (tptr \<Rightarrow> nat) \<Rightarrow> warning list \<times> (tptr \<Rightarrow> nat)" where
  "sync_loop ob [] refs = ([], refs)"
| "sync_loop ob (pw # pws) refs = (let (ws, refs') = sync_loop ob pws (refs(fst pw := refs (fst pw) - 1)) in
     (sync_verdict ob pw @ ws, refs'))"

definition sync_on_settle :: "obs \<Rightarrow> sync_state \<Rightarrow> warning list \<times> sync_state" where
  "sync_on_settle ob s = (let n = min (sy_n s) KSTEP_WAKEUPS;
     (ws, refs) = sync_loop ob (take n (sy_pending s)) (sy_refs s) in
     (ws, s\<lparr>sy_n := 0, sy_refs := refs\<rparr>))"

section \<open>util_decay\<close>

record util_obs =
  uo_cfs :: int
  uo_rt :: int
  uo_valid :: bool

record util_seen =
  us_pid :: int
  us_cpu :: nat
  us_policy :: int

record util_state =
  ut_last :: "nat \<Rightarrow> util_obs"
  ut_seen :: "util_seen list"

definition cfs_util :: "rq_obs \<Rightarrow> int" where
  "cfs_util rq = sint (ro_cfs_util rq) - sint (ro_cfs_removed rq) - sum_list (map sint (ro_leaf_removed rq))"

definition util_invalidate :: "nat \<Rightarrow> util_state \<Rightarrow> util_state" where
  "util_invalidate cpu s = s\<lparr>ut_last := (ut_last s)(cpu := (ut_last s cpu)\<lparr>uo_valid := False\<rparr>)\<rparr>"

definition util_task :: "obs \<Rightarrow> nat \<times> tptr \<Rightarrow> util_state \<Rightarrow> util_state" where
  "util_task ob ip s = (case ip of (i, p) \<Rightarrow> let t = ob_task ob p; seen = ut_seen s ! i in
     if us_pid seen \<noteq> to_pid t then
       util_invalidate (to_cpu t) (s\<lparr>ut_seen := (ut_seen s)[i := \<lparr>us_pid = to_pid t, us_cpu = to_cpu t, us_policy = to_policy t\<rparr>]\<rparr>)
     else if us_cpu seen \<noteq> to_cpu t \<or> us_policy seen \<noteq> to_policy t \<or> to_exit t then
       (util_invalidate (to_cpu t) (util_invalidate (us_cpu seen) s))
         \<lparr>ut_seen := (ut_seen s)[i := seen\<lparr>us_cpu := to_cpu t, us_policy := to_policy t\<rparr>]\<rparr>
     else s)"

definition util_read :: "rq_obs \<Rightarrow> util_obs" where
  "util_read rq = \<lparr>uo_cfs = cfs_util rq, uo_rt = sint (ro_rt_util rq), uo_valid = True\<rparr>"

definition util_check :: "nat \<Rightarrow> util_obs \<Rightarrow> util_obs \<Rightarrow> warning list" where
  "util_check cpu prev cur =
     (if uo_valid prev \<and> (uo_cfs prev - uo_cfs cur \<ge> 1024 \<or> uo_rt prev - uo_rt cur \<ge> 1024 \<or>
        uo_cfs prev + uo_rt prev - uo_cfs cur - uo_rt cur \<ge> 1024)
      then [(''util_decay'', ''util on cpu '' @ dec cpu @ '' fell in one tick: cfs '' @ sdec (uo_cfs prev) @ '' -> '' @ sdec (uo_cfs cur) @
        '', rt '' @ sdec (uo_rt prev) @ '' -> '' @ sdec (uo_rt cur))]
      else [])"

definition util_void :: "obs \<Rightarrow> util_state \<Rightarrow> util_state" where
  "util_void ob s = fold (util_task ob) (enumerate 0 (take 64 (ob_tasks ob))) s"

definition util_on_tick_end :: "obs \<Rightarrow> util_state \<Rightarrow> warning list \<times> util_state" where
  "util_on_tick_end ob s = (let s = util_void ob s; cpus = test_cpus (ob_ncpus ob) in
     (concat (map (\<lambda>cpu. util_check cpu (ut_last s cpu) (util_read (ob_rq ob cpu))) cpus),
      s\<lparr>ut_last := \<lambda>cpu. if cpu \<in> set cpus then util_read (ob_rq ob cpu) else ut_last s cpu\<rparr>))"

section \<open>vruntime\<close>

abbreviation NSEC_PER_SEC :: int where "NSEC_PER_SEC \<equiv> 1000000000"

definition se_lag :: "se_obs \<Rightarrow> int" where
  "se_lag se = sint (so_vruntime se - so_min_vruntime se)"

definition se_insane :: "se_obs \<Rightarrow> bool" where
  "se_insane se \<longleftrightarrow> uint (so_slice se) > 100 * NSEC_PER_SEC \<or> se_lag se > 1000 * NSEC_PER_SEC \<or> se_lag se < - 1000 * NSEC_PER_SEC"

definition vruntime_check :: "task_obs \<Rightarrow> warning list" where
  "vruntime_check t = (case List.find se_insane (to_ses t) of None \<Rightarrow> []
     | Some se \<Rightarrow> [(''vruntime'', ''task '' @ sdec (to_pid t) @ '' on cpu '' @ dec (to_cpu t) @ '': slice '' @
         dec (unat (so_slice se)) @ '', vruntime '' @ sdec (se_lag se) @ '' from its queue's min'')])"

definition vruntime_on_settle :: "obs \<Rightarrow> warning list" where
  "vruntime_on_settle ob = concat (map (\<lambda>p. if to_exit (ob_task ob p) then [] else vruntime_check (ob_task ob p)) (ob_tasks ob))"

section \<open>work_conserve\<close>

abbreviation KSTEP_IDLE_TICKS :: nat where "KSTEP_IDLE_TICKS \<equiv> 4"

definition idle_cpus :: "obs \<Rightarrow> nat list" where
  "idle_cpus ob = filter (\<lambda>cpu. ro_nr_running (ob_rq ob cpu) = 0) (test_cpus (ob_ncpus ob))"

definition wc_running :: "obs \<Rightarrow> tptr list" where
  "wc_running ob = filter (\<lambda>p. \<not> to_exit (ob_task ob p) \<and> to_state (ob_task ob p) = 0) (ob_tasks ob)"

definition wc_waiting :: "obs \<Rightarrow> tptr option" where
  "wc_waiting ob = List.find (\<lambda>p. ro_nr_running (ob_rq ob (to_cpu (ob_task ob p))) > 1 \<and>
     to_cpus (ob_task ob p) \<inter> set (idle_cpus ob) \<noteq> {}) (wc_running ob)"

definition work_on_tick_end :: "obs \<Rightarrow> nat \<Rightarrow> warning list \<times> nat" where
  "work_on_tick_end ob idle_streak =
     (if idle_cpus ob = [] \<or> wc_waiting ob = None \<or> int (length (wc_running ob)) < int (ob_online ob) - 1 then ([], 0)
      else let w = ob_task ob (the (wc_waiting ob)); n = idle_streak + 1 in
        (if n \<ge> KSTEP_IDLE_TICKS then
           [(''work_conserve'', ''task '' @ sdec (to_pid w) @ '' queued on cpu '' @ dec (to_cpu w) @ '' behind '' @
             dec (unat (ro_nr_running (ob_rq ob (to_cpu w)) - 1)) @ '' others while cpu '' @ dec (hd (idle_cpus ob)) @
             '' has been idle for '' @ dec n @ '' ticks'')]
         else [], n))"

section \<open>The table\<close>

text \<open>The callbacks the rules and the session register, and every event's list.\<close>

datatype callback = Cb_output_balance | Cb_report_migrate | Cb_on_select | Cb_sync_settle | Cb_vruntime_settle
  | Cb_pelt_tick | Cb_on_freeze | Cb_on_balance | Cb_work_tick | Cb_util_tick

record watch =
  wa_trace :: "callback trace_state"
  wa_tick_end :: "callback kstep_event"
  wa_settle :: "callback kstep_event"
  wa_freeze :: "callback kstep_event"

definition kstep_on_tick_end :: "callback \<Rightarrow> watch \<Rightarrow> watch" where
  "kstep_on_tick_end fn w = w\<lparr>wa_tick_end := snd (kstep_event_add (wa_tick_end w) fn)\<rparr>"

definition kstep_on_settle :: "callback \<Rightarrow> watch \<Rightarrow> watch" where
  "kstep_on_settle fn w = w\<lparr>wa_settle := snd (kstep_event_add (wa_settle w) fn)\<rparr>"

definition kstep_on_freeze :: "callback \<Rightarrow> watch \<Rightarrow> watch" where
  "kstep_on_freeze fn w = w\<lparr>wa_freeze := snd (kstep_event_add (wa_freeze w) fn)\<rparr>"

definition on_trace :: "(callback trace_state \<Rightarrow> callback trace_state outcome) \<Rightarrow> watch \<Rightarrow> watch outcome" where
  "on_trace f w = bind_outcome (f (wa_trace w)) (\<lambda>t. Inr (w\<lparr>wa_trace := t\<rparr>))"

definition kstep_check_sync_wakeup_enable :: "ktrace \<Rightarrow> watch \<Rightarrow> watch outcome" where
  "kstep_check_sync_wakeup_enable K w =
     bind_outcome (on_trace (kstep_on_select_task_rq K Cb_on_select) w) (\<lambda>w. Inr (kstep_on_settle Cb_sync_settle w))"

definition checks :: "ktrace \<Rightarrow> (string \<times> (watch \<Rightarrow> watch outcome)) list" where
  "checks K = [(''sync_wakeup'', kstep_check_sync_wakeup_enable K),
     (''vruntime'', Inr \<circ> kstep_on_settle Cb_vruntime_settle),
     (''pelt'', Inr \<circ> kstep_on_tick_end Cb_pelt_tick),
     (''frozen'', Inr \<circ> kstep_on_freeze Cb_on_freeze),
     (''balance'', on_trace (kstep_on_balance_selected K Cb_on_balance)),
     (''work_conserve'', Inr \<circ> kstep_on_tick_end Cb_work_tick),
     (''util_decay'', Inr \<circ> kstep_on_tick_end Cb_util_tick)]"

definition kstep_check_enable :: "ktrace \<Rightarrow> string \<Rightarrow> watch \<Rightarrow> (int \<times> watch) outcome" where
  "kstep_check_enable K name w = (case map_of (checks K) name of None \<Rightarrow> Inr (- 2, w)
     | Some enable \<Rightarrow> bind_outcome (enable w) (\<lambda>w. Inr (0, w)))"

text \<open>The session's own reporting (\<open>setup\<close> of kmod/cli.c).\<close>

definition cli_setup :: "ktrace \<Rightarrow> watch \<Rightarrow> watch outcome" where
  "cli_setup K w = bind_outcome (on_trace (kstep_on_balance_selected K Cb_output_balance) w)
     (on_trace (kstep_on_task_migrate K Cb_report_migrate))"

section \<open>The pelt rule is silent on a signal that decays as it may\<close>

lemma pelt_floor_nat:
  assumes "unat util \<le> 2 ^ 50"
  shows "unat (pelt_floor util dt) =
    unat util div 2 ^ (unat dt div 32000000) * (1024 - unat dt mod 32000000 * 1024 div 32000000) div 1024"
proof -
  define h r where "h = unat dt div 32000000" and "r = unat dt mod 32000000"
  have r: "r < 32000000" by (simp add: r_def)
  have rem: "unat (dt mod PELT_HALF_LIFE * 1024 div PELT_HALF_LIFE) = r * 1024 div 32000000"
  proof -
    have "unat (dt mod PELT_HALF_LIFE) = r" by (simp add: unat_mod_distrib r_def)
    then have "unat (dt mod PELT_HALF_LIFE * 1024) = r * 1024" using r by (simp add: unat_word_ariths)
    then show ?thesis by (simp add: unat_div_distrib)
  qed
  have k: "r * 1024 div 32000000 < 1024" using r by simp
  have fac: "unat (1024 - dt mod PELT_HALF_LIFE * 1024 div PELT_HALF_LIFE) = 1024 - r * 1024 div 32000000"
    using k rem by (subst unat_sub) (simp_all add: word_le_nat_alt)
  define base where "base = (if dt div PELT_HALF_LIFE \<ge> 64 then 0 else drop_bit (unat (dt div PELT_HALF_LIFE)) util)"
  have hh: "unat (dt div PELT_HALF_LIFE) = h" by (simp add: unat_div_distrib h_def)
  have base: "unat base = unat util div 2 ^ h"
  proof (cases "64 \<le> h")
    case True
    have "unat util < 2 ^ 64" using unsigned_less [of util, where ?'a = nat] by simp
    also have "\<dots> \<le> 2 ^ h" using True by (rule power_increasing) simp
    finally have "unat util div 2 ^ h = 0" by simp
    then show ?thesis using True hh by (simp add: base_def word_le_nat_alt)
  next
    case False
    then show ?thesis using hh
      by (simp add: base_def word_le_nat_alt unat_drop_bit_eq flip: drop_bit_eq_div)
  qed
  have "unat base * (1024 - r * 1024 div 32000000) \<le> 2 ^ 50 * 1024"
    unfolding base using assms by (intro mult_le_mono order.trans [OF div_le_dividend]) simp_all
  then have "unat base * (1024 - r * 1024 div 32000000) < 2 ^ 64" by simp
  then have "unat (base * (1024 - dt mod PELT_HALF_LIFE * 1024 div PELT_HALF_LIFE)) = unat base * (1024 - r * 1024 div 32000000)"
    unfolding unat_word_ariths(2) fac by simp
  then have "unat (drop_bit 10 (base * (1024 - dt mod PELT_HALF_LIFE * 1024 div PELT_HALF_LIFE))) =
      drop_bit 10 (unat util div 2 ^ h * (1024 - r * 1024 div 32000000))"
    unfolding unat_drop_bit_eq base by (rule arg_cong)
  then show ?thesis unfolding pelt_floor_def Let_def base_def [symmetric] r_def [symmetric] h_def [symmetric]
    by (simp only: drop_bit_eq_div [where ?'a = nat]) simp
qed

lemma half_powr_ge: "0 \<le> x \<Longrightarrow> 1 - x \<le> 2 powr (- x :: real)"
proof -
  assume x: "0 \<le> x"
  have "ln (2 :: real) \<le> 1" using ln_le_minus_one [of 2] by simp
  then have "1 - x \<le> 1 + - x * ln 2" using x by (simp add: mult_left_le)
  also have "\<dots> \<le> exp (- x * ln 2)" by (rule exp_ge_add_one_self)
  also have "\<dots> = 2 powr (- x)" by (simp add: powr_def)
  finally show ?thesis .
qed

lemma pelt_floor_bound:
  assumes "unat util \<le> 15000"
  shows "real (unat (pelt_floor util dt)) \<le> real (unat util) * 2 powr (- real (unat dt) / 32000000) + 15"
proof -
  define U h r where "U = unat util" and "h = unat dt div 32000000" and "r = unat dt mod 32000000"
  define k where "k = r * 1024 div 32000000"
  define A where "A = real U / 2 ^ h"
  define x where "x = real r / 32000000"
  have A: "0 \<le> A" "A \<le> 15000"
  proof -
    show "0 \<le> A" by (simp add: A_def)
    have "A \<le> real U / 1" unfolding A_def by (rule divide_left_mono) simp_all
    moreover have "U \<le> 15000" using assms by (simp only: U_def)
    ultimately show "A \<le> 15000" by linarith
  qed
  have d: "real (unat dt) / 32000000 = real h + x"
  proof -
    have "unat dt = h * 32000000 + r" by (simp add: h_def r_def)
    then show ?thesis by (simp add: x_def field_simps)
  qed
  have p: "real U * 2 powr (- real (unat dt) / 32000000) = A * 2 powr (- x)"
  proof -
    have "- real (unat dt) / 32000000 = - real h + - x" using d by linarith
    then have "2 powr (- real (unat dt) / 32000000) = 2 powr (- real h) * 2 powr (- x)" by (simp only: powr_add)
    moreover have "2 powr (- real h) = inverse (2 ^ h)" by (simp add: powr_minus powr_realpow)
    ultimately show ?thesis by (simp only: A_def divide_inverse mult.assoc)
  qed
  have x0: "0 \<le> x" by (simp add: x_def)
  have "x * 1024 < real k + 1"
  proof -
    have "r * 1024 < (k + 1) * 32000000" unfolding k_def by (simp add: dividend_less_div_times)
    then have "real (r * 1024) < real ((k + 1) * 32000000)" by (simp only: of_nat_less_iff)
    then show ?thesis by (simp add: x_def)
  qed
  then have kx: "1 - real k / 1024 \<le> 1 - x + 1 / 1024" by simp
  have k: "k < 1024" by (simp add: k_def r_def)
  have "unat (pelt_floor util dt) = U div 2 ^ h * (1024 - k) div 1024"
    using pelt_floor_nat [of util dt] assms by (simp add: U_def h_def r_def k_def)
  then have "real (unat (pelt_floor util dt)) \<le> real (U div 2 ^ h * (1024 - k)) / 1024"
    using of_nat_div_le_of_nat [of "U div 2 ^ h * (1024 - k)" 1024, where ?'a = real] by (simp only: of_nat_numeral)
  also have "\<dots> = real (U div 2 ^ h) * (1 - real k / 1024)" using k by (simp add: of_nat_diff field_simps)
  also have "\<dots> \<le> A * (1 - real k / 1024)"
    using k of_nat_div_le_of_nat [of U "2 ^ h", where ?'a = real] by (intro mult_right_mono) (simp_all add: A_def)
  also have "\<dots> \<le> A * (1 - x + 1 / 1024)" using kx A(1) by (rule mult_left_mono)
  also have "\<dots> = A * (1 - x) + A / 1024" by (simp add: algebra_simps)
  also have "\<dots> \<le> A * 2 powr (- x) + 15"
    using mult_left_mono [OF half_powr_ge [OF x0] A(1)] A(2) by simp
  finally show ?thesis using p by (simp add: U_def)
qed

text \<open>
  C23. The rule never warns on a legal decay: where the signal has fallen no faster than with a
  half-life of 32 ms, up to its truncation to an integer, the integer floor the rule computes,
  with its shift and chord, stays under it, however long the interval.
\<close>

theorem pelt_rule_sound:
  assumes "unat (po_util prev) \<le> 15000"
    and "real (unat (po_util prev)) * 2 powr (- real (unat (po_clock_task cur - po_clock_task prev)) / 32000000)
      \<le> real (unat (po_util cur)) + 1"
    and "unat (po_util cur) < 2 ^ 63"
  shows "pelt_check cpu prev cur = []"
proof -
  define fl where "fl = pelt_floor (po_util prev) (po_clock_task cur - po_clock_task prev)"
  have "real (unat fl) \<le> real (unat (po_util cur)) + 16"
    using pelt_floor_bound [OF assms(1), of "po_clock_task cur - po_clock_task prev"] assms(2) unfolding fl_def by linarith
  then have f: "unat fl \<le> unat (po_util cur) + 16" by linarith
  have "unat (fl div 16) \<le> unat fl" by (simp add: unat_div_distrib)
  then have "unat (po_util cur) + 16 + unat (fl div 16) < 2 ^ 64" using f assms(3) by (simp add: unat_div_distrib)
  then have "unat (po_util cur + 16 + fl div 16) = unat (po_util cur) + 16 + unat (fl div 16)"
    by (simp add: unat_word_ariths)
  then have "\<not> po_util cur + 16 + fl div 16 < fl" using f by (simp add: word_less_nat_alt)
  then show ?thesis by (simp add: pelt_check_def fl_def [symmetric] Let_def)
qed

theorem pelt_rule_sound_witness:
  "pelt_check 1 \<lparr>po_util = 1024, po_clock_task = 0, po_saturated = True\<rparr>
     \<lparr>po_util = 512, po_clock_task = 32000000, po_saturated = True\<rparr> = []"
  by (rule pelt_rule_sound) (simp_all add: powr_minus)

section \<open>The balance rule and its reproducer agree\<close>

text \<open>
  The rule and the reproducer's own check of the same property are written apart and agree: on
  any observation the reproducer, after sending the record of the balance, logs exactly when the
  rule would warn.
\<close>

theorem extra_balance_is_the_rule:
  "kstep_check_extra_balance now add_ok ob cpu grp sd_span name tx =
     bind_outcome (kstep_output_balance now add_ok (int cpu) sd_span name tx) (\<lambda>tx. Inr (on_balance ob cpu grp \<noteq> [], tx))"
proof -
  have "(on_balance ob cpu grp \<noteq> []) \<longleftrightarrow> ro_nr_running (ob_rq ob cpu) \<noteq> 0 \<and> cpu \<in> set grp \<and> (\<exists>i \<in> set grp. ro_nr_running (ob_rq ob i) = 0)"
    using find_None_iff [of "\<lambda>i. ro_nr_running (ob_rq ob i) = 0" grp]
    by (cases "List.find (\<lambda>i. ro_nr_running (ob_rq ob i) = 0) grp") (auto simp: on_balance_def)
  then show ?thesis
    unfolding kstep_check_extra_balance_def by (intro arg_cong2 [where f = bind_outcome]) auto
qed

section \<open>The work conservation rule waits\<close>

text \<open>What the rule calls a stall at one tick.\<close>

definition wc_stalled :: "obs \<Rightarrow> bool" where
  "wc_stalled ob \<longleftrightarrow> idle_cpus ob \<noteq> [] \<and> wc_waiting ob \<noteq> None \<and> int (ob_online ob) - 1 \<le> int (length (wc_running ob))"

lemma work_on_tick_end_streak: "snd (work_on_tick_end ob n) = (if wc_stalled ob then n + 1 else 0)"
  by (auto simp: work_on_tick_end_def wc_stalled_def Let_def)

lemma work_on_tick_end_warns: "fst (work_on_tick_end ob n) \<noteq> [] \<longleftrightarrow> wc_stalled ob \<and> KSTEP_IDLE_TICKS \<le> n + 1"
  by (auto simp: work_on_tick_end_def wc_stalled_def Let_def)

lemma work_streak: "fold (\<lambda>ob n. snd (work_on_tick_end ob n)) obs 0 = length (takeWhile wc_stalled (rev obs))"
proof (induction obs rule: rev_induct)
  case (snoc ob obs)
  then show ?case by (simp add: work_on_tick_end_streak)
qed simp

lemma takeWhile_length_ge: "n \<le> length (takeWhile P xs) \<longleftrightarrow> n \<le> length xs \<and> (\<forall>x \<in> set (take n xs). P x)"
proof (induction xs arbitrary: n)
  case (Cons x xs)
  then show ?case by (cases n) auto
qed simp

text \<open>
  C35. The rule warns at a tick exactly when that tick and the three before it were each a stall:
  one tick in which no CPU is idle, nothing waits, or there is too little work starts it over.
\<close>

theorem work_conserve_needs_four_ticks:
  "fst (work_on_tick_end ob (fold (\<lambda>ob n. snd (work_on_tick_end ob n)) obs 0)) \<noteq> [] \<longleftrightarrow>
    3 \<le> length obs \<and> (\<forall>o' \<in> set (ob # drop (length obs - 3) obs). wc_stalled o')"
proof -
  have "3 \<le> length (takeWhile wc_stalled (rev obs)) \<longleftrightarrow> 3 \<le> length obs \<and> (\<forall>o' \<in> set (drop (length obs - 3) obs). wc_stalled o')"
    by (simp add: takeWhile_length_ge take_rev)
  then show ?thesis by (auto simp: work_on_tick_end_warns work_streak)
qed

definition demo_rq :: "u32 \<Rightarrow> rq_obs" where
  "demo_rq n = \<lparr>ro_nr_running = n, ro_h_nr_queued = n, ro_h_nr_runnable = n, ro_clock_task = 0, ro_rt_util = 0,
     ro_dl_util = 0, ro_rt_sum = 0, ro_dl_sum = 0, ro_cfs_util = 0, ro_cfs_removed = 0, ro_leaf_removed = []\<rparr>"

definition demo_task :: "nat \<Rightarrow> task_obs" where
  "demo_task cpu = \<lparr>to_pid = 7, to_cpu = cpu, to_policy = 0, to_exit = False, to_state = 0, to_cpus = {1, 2}, to_ses = []\<rparr>"

text \<open>Two tasks on CPU 1, CPU 2 idle.\<close>

definition demo_obs :: obs where
  "demo_obs = \<lparr>ob_rq = (\<lambda>cpu. demo_rq (if cpu = 1 then 2 else 0)), ob_task = (\<lambda>_. demo_task 1), ob_ncpus = 2,
     ob_online = 3, ob_tasks = [10, 11]\<rparr>"

lemma demo_stalled: "wc_stalled demo_obs"
proof -
  have "idle_cpus demo_obs = [2]" by (simp add: idle_cpus_def demo_obs_def demo_rq_def test_cpus_def upt_rec)
  moreover have r: "wc_running demo_obs = [10, 11]" by (simp add: wc_running_def demo_obs_def demo_task_def)
  ultimately show ?thesis by (simp add: wc_stalled_def wc_waiting_def r) (simp add: demo_obs_def demo_task_def demo_rq_def)
qed

theorem work_conserve_needs_four_ticks_witness:
  "fst (work_on_tick_end demo_obs (fold (\<lambda>ob n. snd (work_on_tick_end ob n)) [demo_obs, demo_obs, demo_obs] 0)) \<noteq> []"
  unfolding work_conserve_needs_four_ticks using demo_stalled by simp

section \<open>The sync wakeup rule samples and judges\<close>

text \<open>Between two commands: nothing pending, no reference held.\<close>

definition sync_idle :: "sync_state \<Rightarrow> bool" where
  "sync_idle s \<longleftrightarrow> length (sy_pending s) = KSTEP_WAKEUPS \<and> sy_n s = 0 \<and> (\<forall>p. sy_refs s p = 0)"

abbreviation sampled :: "bool \<Rightarrow> placement list \<Rightarrow> (tptr \<times> nat) list" where
  "sampled d as \<equiv> map (\<lambda>a. (pl_task a, pl_cpu a)) (filter (sync_owed d) as)"

lemma on_select_fold:
  assumes "sync_idle s"
  shows "let s' = fold (on_select d) as s in sy_n s' = length (sampled d as) \<and> length (sy_pending s') = KSTEP_WAKEUPS \<and>
    take (min (sy_n s') KSTEP_WAKEUPS) (sy_pending s') = take KSTEP_WAKEUPS (sampled d as) \<and>
    sy_refs s' = (\<lambda>p. count_list (map fst (take KSTEP_WAKEUPS (sampled d as))) p)"
proof (induction as rule: rev_induct)
  case Nil
  then show ?case using assms by (auto simp: sync_idle_def)
next
  case (snoc a as)
  define s1 where "s1 = fold (on_select d) as s"
  define k where "k = length (sampled d as)"
  have IH: "sy_n s1 = k" "length (sy_pending s1) = KSTEP_WAKEUPS"
      "take (min k KSTEP_WAKEUPS) (sy_pending s1) = take KSTEP_WAKEUPS (sampled d as)"
      "sy_refs s1 = (\<lambda>p. count_list (map fst (take KSTEP_WAKEUPS (sampled d as))) p)"
    using snoc unfolding s1_def [symmetric] Let_def by (auto simp: k_def)
  have f: "fold (on_select d) (as @ [a]) s = on_select d a s1" by (simp add: s1_def)
  show ?case
  proof (cases "sync_owed d a \<and> k < KSTEP_WAKEUPS")
    case True
    then have t: "take KSTEP_WAKEUPS (sampled d (as @ [a])) = sampled d as @ [(pl_task a, pl_cpu a)]"
        "take KSTEP_WAKEUPS (sampled d as) = sampled d as" by (auto simp: k_def)
    have s2: "on_select d a s1 = s1\<lparr>sy_n := Suc k, sy_refs := (sy_refs s1)(pl_task a := sy_refs s1 (pl_task a) + 1),
        sy_pending := (sy_pending s1)[k := (pl_task a, pl_cpu a)]\<rparr>"
      using True IH(1) by (simp add: on_select_def)
    have "take (Suc k) ((sy_pending s1)[k := (pl_task a, pl_cpu a)]) = sampled d as @ [(pl_task a, pl_cpu a)]"
      using IH(2,3) t(2) True by (simp add: take_Suc_conv_app_nth)
    moreover have "min (Suc k) KSTEP_WAKEUPS = Suc k" using True by simp
    moreover have "length (sampled d (as @ [a])) = Suc k" using True by (simp add: k_def)
    moreover have "(sy_refs s1)(pl_task a := sy_refs s1 (pl_task a) + 1) =
        (\<lambda>p. count_list (map fst (sampled d as @ [(pl_task a, pl_cpu a)])) p)"
      unfolding IH(4) t(2) by (rule ext) simp
    ultimately show ?thesis unfolding f s2 Let_def t(1) using IH(2) by (simp add: fun_eq_iff)
  next
    case False
    then have t: "take KSTEP_WAKEUPS (sampled d (as @ [a])) = take KSTEP_WAKEUPS (sampled d as)" by (auto simp: k_def)
    have s2: "on_select d a s1 = s1\<lparr>sy_n := length (sampled d (as @ [a]))\<rparr>"
      using False IH(1) by (auto simp: on_select_def k_def)
    have "min (length (sampled d (as @ [a]))) KSTEP_WAKEUPS = min k KSTEP_WAKEUPS" using False by (auto simp: k_def)
    then show ?thesis unfolding f s2 Let_def t using IH(2,3,4) by simp
  qed
qed

lemma sync_loop_eq:
  "(\<And>p. refs p = count_list (map fst pws) p) \<Longrightarrow>
    sync_loop ob pws refs = (concat (map (sync_verdict ob) pws), \<lambda>_. 0)"
proof (induction pws arbitrary: refs)
  case Nil
  then show ?case by auto
next
  case (Cons pw pws)
  have "sync_loop ob pws (refs(fst pw := refs (fst pw) - 1)) = (concat (map (sync_verdict ob) pws), \<lambda>_. 0)"
    by (rule Cons.IH) (simp add: Cons.prems)
  then show ?case by simp
qed

text \<open>
  C22. A step is judged on what its wakeups saw: when it settles, the rule warns of exactly those
  of the first sixteen owed placements whose task is not on the waker's CPU, in order; then nothing
  is pending and every task reference it took has been given back.
\<close>

theorem sync_wakeup_verdict:
  assumes "sync_idle s"
  shows "fst (sync_on_settle ob (fold (on_select d) as s)) = concat (map (sync_verdict ob) (take KSTEP_WAKEUPS (sampled d as))) \<and>
    sync_idle (snd (sync_on_settle ob (fold (on_select d) as s)))"
proof -
  define s1 where "s1 = fold (on_select d) as s"
  have s1: "length (sy_pending s1) = KSTEP_WAKEUPS"
      "take (min (sy_n s1) KSTEP_WAKEUPS) (sy_pending s1) = take KSTEP_WAKEUPS (sampled d as)"
      "sy_refs s1 = (\<lambda>p. count_list (map fst (take KSTEP_WAKEUPS (sampled d as))) p)"
    using on_select_fold [OF assms, of d as] unfolding s1_def [symmetric] Let_def by auto
  show ?thesis unfolding s1_def [symmetric] sync_on_settle_def Let_def s1(2,3)
    by (simp add: sync_loop_eq sync_idle_def s1(1))
qed

theorem sync_wakeup_verdict_witness:
  "fst (sync_on_settle demo_obs (fold (on_select True)
      [\<lparr>pl_now = 5, pl_cpu = 2, pl_task = 10, pl_flags = WF_SYNC, pl_rq = demo_rq 1, pl_cpus = {1, 2}\<rparr>] sync_zero)) \<noteq> []"
proof -
  have "sync_idle sync_zero" by (simp add: sync_idle_def sync_zero_def)
  from sync_wakeup_verdict [OF this, THEN conjunct1] show ?thesis
    by (simp only:) (simp add: sync_owed_def demo_rq_def sync_verdict_def demo_obs_def demo_task_def)
qed

section \<open>The utilization rule excuses what tasks take with them\<close>

lemma util_invalidate_fields [simp]: "ut_seen (util_invalidate cpu s) = ut_seen s"
  "uo_valid (ut_last (util_invalidate cpu s) c) \<longleftrightarrow> uo_valid (ut_last s c) \<and> c \<noteq> cpu"
  by (simp_all add: util_invalidate_def)

lemma util_task_void: "\<not> uo_valid (ut_last s c) \<Longrightarrow> \<not> uo_valid (ut_last (util_task ob ip s) c)"
  by (auto simp: util_task_def Let_def split: prod.splits)

lemma util_task_seen: "i \<noteq> fst jp \<Longrightarrow> ut_seen (util_task ob jp s) ! i = ut_seen s ! i"
  by (auto simp: util_task_def Let_def split: prod.splits)

lemma util_fold_void: "\<not> uo_valid (ut_last s c) \<Longrightarrow> \<not> uo_valid (ut_last (fold (util_task ob) ips s) c)"
  by (induction ips arbitrary: s) (auto dest: util_task_void)

lemma util_fold_seen: "i \<notin> fst ` set ips \<Longrightarrow> ut_seen (fold (util_task ob) ips s) ! i = ut_seen s ! i"
  by (induction ips arbitrary: s) (auto simp: util_task_seen)

lemma util_void_at:
  assumes "i < length (ob_tasks ob)" "i < 64"
  obtains s1 rest where "ut_seen s1 ! i = ut_seen s ! i"
    "util_void ob s = fold (util_task ob) rest (util_task ob (i, ob_tasks ob ! i) s1)"
proof -
  let ?e = "enumerate 0 (take 64 (ob_tasks ob))"
  have l: "i < length ?e" "?e ! i = (i, ob_tasks ob ! i)" using assms by (simp_all add: nth_enumerate_eq)
  then have e: "?e = take i ?e @ (i, ob_tasks ob ! i) # drop (Suc i) ?e" by (metis id_take_nth_drop)
  have "i \<notin> fst ` set (take i ?e)"
    using assms by (force simp: in_set_conv_nth nth_enumerate_eq)
  then have "ut_seen (fold (util_task ob) (take i ?e) s) ! i = ut_seen s ! i" by (rule util_fold_seen)
  moreover have "util_void ob s =
      fold (util_task ob) (drop (Suc i) ?e) (util_task ob (i, ob_tasks ob ! i) (fold (util_task ob) (take i ?e) s))"
    unfolding util_void_def by (subst e) simp
  ultimately show ?thesis by (rule that)
qed

text \<open>
  A task that is new, has moved to another CPU, has changed class or is dying excuses the CPU
  it is on, and in the last three cases also the CPU it was last seen on: whatever the signals have
  fallen by, the rule does not warn of those CPUs at that tick.
\<close>

theorem util_decay_excuses:
  assumes "i < length (ob_tasks ob)" "i < 64"
    and "t = ob_task ob (ob_tasks ob ! i)" "seen = ut_seen s ! i"
    and "us_pid seen \<noteq> to_pid t \<or> us_cpu seen \<noteq> to_cpu t \<or> us_policy seen \<noteq> to_policy t \<or> to_exit t"
    and "cpu = to_cpu t \<or> us_pid seen = to_pid t \<and> cpu = us_cpu seen"
  shows "util_check cpu (ut_last (util_void ob s) cpu) cur = []"
proof -
  obtain s1 rest where s1: "ut_seen s1 ! i = ut_seen s ! i"
      "util_void ob s = fold (util_task ob) rest (util_task ob (i, ob_tasks ob ! i) s1)"
    by (rule util_void_at [OF assms(1,2)])
  have "\<not> uo_valid (ut_last (util_task ob (i, ob_tasks ob ! i) s1) cpu)"
    using assms(3-6) s1(1) by (auto simp: util_task_def Let_def)
  then have "\<not> uo_valid (ut_last (util_void ob s) cpu)" unfolding s1(2) by (rule util_fold_void)
  then show ?thesis by (simp add: util_check_def)
qed

theorem util_decay_excuses_witness:
  "util_check 1 (ut_last (util_void demo_obs \<lparr>ut_last = \<lambda>_. \<lparr>uo_cfs = 5000, uo_rt = 0, uo_valid = True\<rparr>,
     ut_seen = replicate 64 \<lparr>us_pid = 0, us_cpu = 0, us_policy = 0\<rparr>\<rparr>) 1) \<lparr>uo_cfs = 0, uo_rt = 0, uo_valid = True\<rparr> = []"
  by (rule util_decay_excuses [of 0, OF _ _ refl refl]) (simp_all add: demo_obs_def demo_task_def)

section \<open>Enabling a rule is registering it\<close>

datatype watched = W_select | W_balance | W_migrate | W_tick_end | W_settle | W_freeze

fun subs_of :: "watch \<Rightarrow> watched \<Rightarrow> callback list" where
  "subs_of w W_select = event_subs (tr_select (wa_trace w))"
| "subs_of w W_balance = event_subs (tr_balance (wa_trace w))"
| "subs_of w W_migrate = event_subs (tr_migrate (wa_trace w))"
| "subs_of w W_tick_end = event_subs (wa_tick_end w)"
| "subs_of w W_settle = event_subs (wa_settle w)"
| "subs_of w W_freeze = event_subs (wa_freeze w)"

definition watchers :: "watch \<Rightarrow> (watched \<times> callback) set" where
  "watchers w = {(e, c). c \<in> set (subs_of w e)}"

text \<open>What each rule watches, by its name.\<close>

definition rule_watches :: "string \<Rightarrow> (watched \<times> callback) set" where
  "rule_watches name =
     (if name = ''sync_wakeup'' then {(W_select, Cb_on_select), (W_settle, Cb_sync_settle)}
      else if name = ''vruntime'' then {(W_settle, Cb_vruntime_settle)}
      else if name = ''pelt'' then {(W_tick_end, Cb_pelt_tick)}
      else if name = ''frozen'' then {(W_freeze, Cb_on_freeze)}
      else if name = ''balance'' then {(W_balance, Cb_on_balance)}
      else if name = ''work_conserve'' then {(W_tick_end, Cb_work_tick)}
      else if name = ''util_decay'' then {(W_tick_end, Cb_util_tick)} else {})"

definition session_watches :: "(watched \<times> callback) set" where
  "session_watches = {(W_balance, Cb_output_balance), (W_migrate, Cb_report_migrate)}"

definition all_watches :: "(watched \<times> callback) set" where
  "all_watches = session_watches \<union> (\<Union>name. rule_watches name)"

definition watch_inv :: "ktrace \<Rightarrow> watch \<Rightarrow> bool" where
  "watch_inv K w \<longleftrightarrow> trace_inv K (wa_trace w) \<and> event_inv (wa_tick_end w) \<and> event_inv (wa_settle w) \<and>
     event_inv (wa_freeze w) \<and> watchers w \<subseteq> all_watches"

text \<open>No list can fill up: at most three callbacks ever register for one event.\<close>

lemma event_room:
  assumes "event_inv e" "set (event_subs e) \<subseteq> S" "finite S" "card S < KSTEP_EVENT_SUBS"
  shows "event_inv (snd (kstep_event_add e f)) \<and> set (event_subs (snd (kstep_event_add e f))) = insert f (set (event_subs e))"
proof -
  have "length (event_subs e) = card (set (event_subs e))" using assms(1) event_inv_subs distinct_card by metis
  also have "\<dots> \<le> card S" by (rule card_mono [OF assms(3,2)])
  finally have "length (event_subs e) \<noteq> KSTEP_EVENT_SUBS" using assms(4) by simp
  then show ?thesis using ev.add_law [OF assms(1), of f] by (auto split: if_splits)
qed

lemma all_watches_eq: "all_watches = session_watches \<union> {(W_select, Cb_on_select), (W_settle, Cb_sync_settle),
    (W_settle, Cb_vruntime_settle), (W_tick_end, Cb_pelt_tick), (W_freeze, Cb_on_freeze), (W_balance, Cb_on_balance),
    (W_tick_end, Cb_work_tick), (W_tick_end, Cb_util_tick)}"
proof -
  have "(\<Union>name. rule_watches name) = {(W_select, Cb_on_select), (W_settle, Cb_sync_settle),
    (W_settle, Cb_vruntime_settle), (W_tick_end, Cb_pelt_tick), (W_freeze, Cb_on_freeze), (W_balance, Cb_on_balance),
    (W_tick_end, Cb_work_tick), (W_tick_end, Cb_util_tick)}" (is "?U = ?S")
  proof
    show "?U \<subseteq> ?S" by (auto simp: rule_watches_def split: if_splits)
    have "\<forall>x \<in> ?S. \<exists>n \<in> {''sync_wakeup'', ''vruntime'', ''pelt'', ''frozen'', ''balance'', ''work_conserve'', ''util_decay''}. x \<in> rule_watches n"
      by (simp add: rule_watches_def)
    then show "?S \<subseteq> ?U" by blast
  qed
  then show ?thesis by (simp only: all_watches_def)
qed

lemma watch_room:
  assumes "watch_inv K w" "event_inv ev" "event_subs ev = subs_of w e"
  shows "event_inv (snd (kstep_event_add ev f)) \<and> set (event_subs (snd (kstep_event_add ev f))) = insert f (set (subs_of w e))"
proof -
  let ?S = "{c. (e, c) \<in> all_watches}"
  have "?S \<subseteq> snd ` all_watches" by force
  moreover have f: "finite all_watches" by (simp add: all_watches_eq session_watches_def)
  ultimately have fin: "finite ?S" by (meson finite_imageI finite_subset)
  have "?S \<subseteq> (if e = W_tick_end then {Cb_pelt_tick, Cb_work_tick, Cb_util_tick} else if e = W_settle then {Cb_sync_settle, Cb_vruntime_settle}
      else if e = W_balance then {Cb_on_balance, Cb_output_balance} else {if e = W_select then Cb_on_select else
        if e = W_migrate then Cb_report_migrate else Cb_on_freeze})" (is "_ \<subseteq> ?T")
    by (cases e) (auto simp: all_watches_eq session_watches_def)
  then have "card ?S \<le> card ?T" by (rule card_mono [rotated]) simp
  also have "\<dots> < KSTEP_EVENT_SUBS" by simp
  finally have "card ?S < KSTEP_EVENT_SUBS" .
  moreover have "set (event_subs ev) \<subseteq> ?S" using assms by (auto simp: watch_inv_def watchers_def)
  ultimately show ?thesis using event_room [OF assms(2) _ fin] assms(3) by simp
qed

text \<open>One callback registered for one event, whatever the event.\<close>

definition registers :: "ktrace \<Rightarrow> watch \<Rightarrow> watched \<Rightarrow> callback \<Rightarrow> watch \<Rightarrow> bool" where
  "registers K w e c w' \<longleftrightarrow> watch_inv K w' \<and> watchers w' = insert (e, c) (watchers w)"

lemma registersI:
  assumes "watch_inv K w" "(e, c) \<in> all_watches"
    and "trace_inv K (wa_trace w')" "event_inv (wa_tick_end w')" "event_inv (wa_settle w')" "event_inv (wa_freeze w')"
    and "\<And>e'. set (subs_of w' e') = (if e' = e then insert c (set (subs_of w e)) else set (subs_of w e'))"
  shows "registers K w e c w'"
proof -
  have "watchers w' = insert (e, c) (watchers w)" by (auto simp: watchers_def assms(7) split: if_splits)
  then show ?thesis using assms by (auto simp: registers_def watch_inv_def)
qed

lemma registers_tick_end:
  assumes "watch_inv K w" "(W_tick_end, c) \<in> all_watches"
  shows "registers K w W_tick_end c (kstep_on_tick_end c w)"
proof (rule registersI [OF assms])
  fix e' show "set (subs_of (kstep_on_tick_end c w) e') = (if e' = W_tick_end then insert c (set (subs_of w W_tick_end)) else set (subs_of w e'))"
    using watch_room [OF assms(1), of "wa_tick_end w" W_tick_end c] assms(1)
    by (cases e') (simp_all add: kstep_on_tick_end_def watch_inv_def)
qed (use watch_room [OF assms(1), of "wa_tick_end w" W_tick_end c] assms(1) in \<open>simp_all add: kstep_on_tick_end_def watch_inv_def\<close>)

lemma registers_settle:
  assumes "watch_inv K w" "(W_settle, c) \<in> all_watches"
  shows "registers K w W_settle c (kstep_on_settle c w)"
proof (rule registersI [OF assms])
  fix e' show "set (subs_of (kstep_on_settle c w) e') = (if e' = W_settle then insert c (set (subs_of w W_settle)) else set (subs_of w e'))"
    using watch_room [OF assms(1), of "wa_settle w" W_settle c] assms(1)
    by (cases e') (simp_all add: kstep_on_settle_def watch_inv_def)
qed (use watch_room [OF assms(1), of "wa_settle w" W_settle c] assms(1) in \<open>simp_all add: kstep_on_settle_def watch_inv_def\<close>)

lemma registers_freeze:
  assumes "watch_inv K w" "(W_freeze, c) \<in> all_watches"
  shows "registers K w W_freeze c (kstep_on_freeze c w)"
proof (rule registersI [OF assms])
  fix e' show "set (subs_of (kstep_on_freeze c w) e') = (if e' = W_freeze then insert c (set (subs_of w W_freeze)) else set (subs_of w e'))"
    using watch_room [OF assms(1), of "wa_freeze w" W_freeze c] assms(1)
    by (cases e') (simp_all add: kstep_on_freeze_def watch_inv_def)
qed (use watch_room [OF assms(1), of "wa_freeze w" W_freeze c] assms(1) in \<open>simp_all add: kstep_on_freeze_def watch_inv_def\<close>)

lemma kstep_hook_events:
  "kstep_hook K n f t = Inr t' \<Longrightarrow> tr_select t' = tr_select t \<and> tr_balance t' = tr_balance t \<and> tr_migrate t' = tr_migrate t"
  by (auto simp: kstep_hook_def kstep_hook_steps_def Let_def split: if_splits)

text \<open>A registration for a traced event: \<open>f\<close> adds to its list and may arm hooks.\<close>

lemma registers_trace:
  assumes "watch_inv K w" "(e, c) \<in> all_watches" "on_trace f w = Inr w'"
    and "\<And>t t'. f t = Inr t' \<Longrightarrow> trace_inv K t \<Longrightarrow> trace_inv K t'"
    and "\<And>t. f (wa_trace w) = Inr t \<Longrightarrow> event_subs (ev t) = event_subs (snd (kstep_event_add (ev (wa_trace w)) c)) \<and>
      (\<forall>e'. e' \<noteq> e \<longrightarrow> subs_of (w\<lparr>wa_trace := t\<rparr>) e' = subs_of w e')"
    and "\<And>w. subs_of w e = event_subs (ev (wa_trace w))" "event_inv (ev (wa_trace w))"
  shows "registers K w e c w'"
proof -
  obtain t where t: "f (wa_trace w) = Inr t" "w' = w\<lparr>wa_trace := t\<rparr>"
    using assms(3) by (auto simp: on_trace_def bind_outcome_Inr_iff)
  have i: "trace_inv K (wa_trace w)" using assms(1) by (simp add: watch_inv_def)
  note room = watch_room [OF assms(1,7) assms(6) [symmetric], of c]
  have "set (subs_of w' e) = insert c (set (subs_of w e))"
    using assms(5) [OF t(1)] room assms(6) by (simp add: t(2))
  then show ?thesis using assms(5) [OF t(1)] assms(4) [OF t(1) i] assms(1,2)
    by (intro registersI) (simp_all add: t(2) watch_inv_def)
qed

lemma subs_of_frame:
  "(e' = W_select \<Longrightarrow> tr_select t = tr_select (wa_trace w)) \<Longrightarrow> (e' = W_balance \<Longrightarrow> tr_balance t = tr_balance (wa_trace w)) \<Longrightarrow>
    (e' = W_migrate \<Longrightarrow> tr_migrate t = tr_migrate (wa_trace w)) \<Longrightarrow> subs_of (w\<lparr>wa_trace := t\<rparr>) e' = subs_of w e'"
  by (cases e') simp_all

lemma registers_select:
  assumes "watch_inv K w" "(W_select, c) \<in> all_watches" "on_trace (kstep_on_select_task_rq K c) w = Inr w'"
  shows "registers K w W_select c w'"
proof (rule registers_trace [OF assms, where ev = tr_select])
  fix t assume "kstep_on_select_task_rq K c (wa_trace w) = Inr t"
  then have "tr_select t = snd (kstep_event_add (tr_select (wa_trace w)) c)" "tr_balance t = tr_balance (wa_trace w)"
      "tr_migrate t = tr_migrate (wa_trace w)"
    by (auto simp: kstep_on_select_task_rq_def Let_def split: prod.splits if_splits dest!: kstep_hook_events)
  then show "event_subs (tr_select t) = event_subs (snd (kstep_event_add (tr_select (wa_trace w)) c)) \<and>
      (\<forall>e'. e' \<noteq> W_select \<longrightarrow> subs_of (w\<lparr>wa_trace := t\<rparr>) e' = subs_of w e')"
    by (auto intro!: subs_of_frame)
qed (use assms(1) in \<open>auto simp: watch_inv_def trace_inv_def dest: watch_select_inv\<close>)

lemma registers_balance:
  assumes "watch_inv K w" "(W_balance, c) \<in> all_watches" "on_trace (kstep_on_balance_selected K c) w = Inr w'"
  shows "registers K w W_balance c w'"
proof (rule registers_trace [OF assms, where ev = tr_balance])
  fix t assume "kstep_on_balance_selected K c (wa_trace w) = Inr t"
  then have "tr_balance t = snd (kstep_event_add (tr_balance (wa_trace w)) c)" "tr_select t = tr_select (wa_trace w)"
      "tr_migrate t = tr_migrate (wa_trace w)"
    by (auto simp: kstep_on_balance_selected_def Let_def bind_outcome_Inr_iff split: prod.splits if_splits dest!: kstep_hook_events)
  then show "event_subs (tr_balance t) = event_subs (snd (kstep_event_add (tr_balance (wa_trace w)) c)) \<and>
      (\<forall>e'. e' \<noteq> W_balance \<longrightarrow> subs_of (w\<lparr>wa_trace := t\<rparr>) e' = subs_of w e')"
    by (auto intro!: subs_of_frame)
qed (use assms(1) in \<open>auto simp: watch_inv_def trace_inv_def dest: watch_balance_inv\<close>)

lemma registers_migrate:
  assumes "watch_inv K w" "(W_migrate, c) \<in> all_watches" "on_trace (kstep_on_task_migrate K c) w = Inr w'"
  shows "registers K w W_migrate c w'"
proof (rule registers_trace [OF assms, where ev = tr_migrate])
  fix t assume "kstep_on_task_migrate K c (wa_trace w) = Inr t"
  then have "tr_migrate t = snd (kstep_event_add (tr_migrate (wa_trace w)) c)" "tr_select t = tr_select (wa_trace w)"
      "tr_balance t = tr_balance (wa_trace w)"
    by (auto simp: kstep_on_task_migrate_def Let_def split: prod.splits if_splits dest!: kstep_hook_events)
  then show "event_subs (tr_migrate t) = event_subs (snd (kstep_event_add (tr_migrate (wa_trace w)) c)) \<and>
      (\<forall>e'. e' \<noteq> W_migrate \<longrightarrow> subs_of (w\<lparr>wa_trace := t\<rparr>) e' = subs_of w e')"
    by (auto intro!: subs_of_frame)
qed (use assms(1) in \<open>auto simp: watch_inv_def trace_inv_def dest: watch_migrate_inv\<close>)

lemmas watches_eqs = all_watches_eq session_watches_def rule_watches_def

text \<open>Enabling a rule by its entry of the table registers what it watches and nothing else.\<close>

definition enables :: "ktrace \<Rightarrow> string \<Rightarrow> (watch \<Rightarrow> watch outcome) \<Rightarrow> bool" where
  "enables K name f \<longleftrightarrow> (\<forall>w w'. watch_inv K w \<longrightarrow> f w = Inr w' \<longrightarrow> watch_inv K w' \<and> watchers w' = rule_watches name \<union> watchers w)"

lemma enables_one:
  assumes "rule_watches name = {(e, c)}" "\<And>w w'. watch_inv K w \<Longrightarrow> f w = Inr w' \<Longrightarrow> registers K w e c w'"
  shows "enables K name f"
  using assms by (auto simp: enables_def registers_def)

lemma sync_wakeup_enables: "enables K ''sync_wakeup'' (kstep_check_sync_wakeup_enable K)"
  unfolding enables_def
proof (intro allI impI)
  fix w w' assume w: "watch_inv K w" "kstep_check_sync_wakeup_enable K w = Inr w'"
  then obtain u where u: "on_trace (kstep_on_select_task_rq K Cb_on_select) w = Inr u" "w' = kstep_on_settle Cb_sync_settle u"
    by (auto simp: kstep_check_sync_wakeup_enable_def bind_outcome_Inr_iff)
  have "registers K w W_select Cb_on_select u" by (rule registers_select [OF w(1) _ u(1)]) (simp add: watches_eqs)
  moreover from this have "registers K u W_settle Cb_sync_settle w'"
    unfolding u(2) by (intro registers_settle) (simp_all add: registers_def watches_eqs)
  ultimately show "watch_inv K w' \<and> watchers w' = rule_watches ''sync_wakeup'' \<union> watchers w"
    by (auto simp: registers_def rule_watches_def)
qed

lemma checks_enable: "list_all (\<lambda>(name, f). enables K name f) (checks K)"
proof -
  have "enables K ''vruntime'' (Inr \<circ> kstep_on_settle Cb_vruntime_settle)"
    by (rule enables_one [of _ W_settle Cb_vruntime_settle]) (auto simp: watches_eqs intro: registers_settle)
  moreover have "enables K ''pelt'' (Inr \<circ> kstep_on_tick_end Cb_pelt_tick)"
    by (rule enables_one [of _ W_tick_end Cb_pelt_tick]) (auto simp: watches_eqs intro: registers_tick_end)
  moreover have "enables K ''frozen'' (Inr \<circ> kstep_on_freeze Cb_on_freeze)"
    by (rule enables_one [of _ W_freeze Cb_on_freeze]) (auto simp: watches_eqs intro: registers_freeze)
  moreover have "enables K ''balance'' (on_trace (kstep_on_balance_selected K Cb_on_balance))"
    by (rule enables_one [of _ W_balance Cb_on_balance]) (auto simp: watches_eqs intro: registers_balance)
  moreover have "enables K ''work_conserve'' (Inr \<circ> kstep_on_tick_end Cb_work_tick)"
    by (rule enables_one [of _ W_tick_end Cb_work_tick]) (auto simp: watches_eqs intro: registers_tick_end)
  moreover have "enables K ''util_decay'' (Inr \<circ> kstep_on_tick_end Cb_util_tick)"
    by (rule enables_one [of _ W_tick_end Cb_util_tick]) (auto simp: watches_eqs intro: registers_tick_end)
  ultimately show ?thesis
    unfolding checks_def using sync_wakeup_enables by (simp only: list.pred_inject prod.case simp_thms)
qed

lemma enable_registers:
  assumes "kstep_check_enable K name w = Inr (r, w')" "watch_inv K w"
  shows "watch_inv K w' \<and> watchers w' = rule_watches name \<union> watchers w"
proof (cases "map_of (checks K) name")
  case None
  then have "w' = w" using assms(1) by (simp add: kstep_check_enable_def)
  moreover have "name \<notin> fst ` set (checks K)" using None by (simp only: map_of_eq_None_iff not_False_eq_True)
  then have "rule_watches name = {}" by (simp add: rule_watches_def checks_def)
  ultimately show ?thesis using assms(2) by simp
next
  case (Some f)
  then have f: "f w = Inr w'" using assms(1) by (auto simp: kstep_check_enable_def bind_outcome_Inr_iff)
  have "enables K name f" using checks_enable [of K] map_of_SomeD [OF Some] by (auto simp: list_all_iff)
  then show ?thesis using f assms(2) by (auto simp: enables_def)
qed

lemma enables_register:
  "fold_outcome (\<lambda>name w. bind_outcome (kstep_check_enable K name w) (\<lambda>(r, w). Inr w)) names w = Inr w' \<Longrightarrow>
    watch_inv K w \<Longrightarrow> watch_inv K w' \<and> watchers w' = (\<Union>name \<in> set names. rule_watches name) \<union> watchers w"
proof (induction names arbitrary: w)
  case (Cons name names)
  then obtain r u where u: "kstep_check_enable K name w = Inr (r, u)"
      "fold_outcome (\<lambda>name w. bind_outcome (kstep_check_enable K name w) (\<lambda>(r, w). Inr w)) names u = Inr w'"
    by (auto simp: bind_outcome_Inr_iff)
  note e = enable_registers [OF u(1) Cons.prems(2)]
  show ?case using Cons.IH [OF u(2)] e by auto
qed simp

definition watch_zero :: "callback trace_state \<Rightarrow> watch" where
  "watch_zero t = \<lparr>wa_trace = t, wa_tick_end = kstep_event_zero, wa_settle = kstep_event_zero, wa_freeze = kstep_event_zero\<rparr>"

lemma trace_init_events: "kstep_trace_init K trace_zero = Inr t \<Longrightarrow>
    tr_select t = kstep_event_zero \<and> tr_balance t = kstep_event_zero \<and> tr_migrate t = kstep_event_zero"
  by (auto simp: kstep_trace_init_def bind_outcome_Inr_iff trace_zero_def dest!: kstep_hook_events split: if_splits)

lemma session_start:
  assumes "kstep_trace_init K trace_zero = Inr t" "cli_setup K (watch_zero t) = Inr w"
  shows "watch_inv K w \<and> watchers w = session_watches"
proof -
  have "subs_of (watch_zero t) e = []" for e
    using trace_init_events [OF assms(1)] by (cases e) (simp_all add: watch_zero_def)
  then have z: "watchers (watch_zero t) = {}" by (simp add: watchers_def)
  then have i: "watch_inv K (watch_zero t)"
    using trace_init_inv [OF assms(1)] by (simp add: watch_inv_def) (simp add: watch_zero_def)
  obtain u where u: "on_trace (kstep_on_balance_selected K Cb_output_balance) (watch_zero t) = Inr u"
      "on_trace (kstep_on_task_migrate K Cb_report_migrate) u = Inr w"
    using assms(2) by (auto simp: cli_setup_def bind_outcome_Inr_iff)
  have a: "registers K (watch_zero t) W_balance Cb_output_balance u"
    by (rule registers_balance [OF i _ u(1)]) (simp add: watches_eqs)
  then have "registers K u W_migrate Cb_report_migrate w"
    by (intro registers_migrate [OF _ _ u(2)]) (simp_all add: registers_def watches_eqs)
  then show ?thesis using a z by (auto simp: registers_def session_watches_def)
qed

text \<open>
  After a session's own registrations and any sequence of \<open>check\<close> commands, known names and
  unknown, repeated or not: exactly the session's callbacks and those of the rules named are
  registered, each once; no registration is ever lost to a full list; and the kernel functions traced
  are exactly those someone watches.
\<close>

theorem enabled_rules_watch:
  assumes "kstep_trace_init K trace_zero = Inr t" "cli_setup K (watch_zero t) = Inr w"
    and "fold_outcome (\<lambda>name w. bind_outcome (kstep_check_enable K name w) (\<lambda>(r, w). Inr w)) names w = Inr w'"
  shows "watchers w' = (\<Union>name \<in> set names. rule_watches name) \<union> session_watches \<and>
    hook_pairs (tr_hooks (wa_trace w')) = wanted_hooks K (wa_trace w')"
  using session_start [OF assms(1,2)] enables_register [OF assms(3)]
  by (auto simp: watch_inv_def trace_inv_def)

lemma kstep_hook_returns: "hook_ip K n \<noteq> 0 \<Longrightarrow> kt_filter K (hook_ip K n) = 0 \<Longrightarrow> \<exists>t'. kstep_hook K n f t = Inr t'"
  by (simp add: kstep_hook_def kstep_hook_steps_def Let_def)

lemma demo_hook_returns:
  "n \<in> {''sched_balance_rq'', ''sched_balance_find_src_group'', ''set_task_cpu''} \<Longrightarrow> \<exists>t'. kstep_hook demo_ktrace n f t = Inr t'"
  by (rule kstep_hook_returns) (auto simp: hook_ip_def demo_ktrace_def Let_def)

lemma demo_setup_returns: "\<exists>w'. cli_setup demo_ktrace w = Inr w'"
proof -
  have s: "trace_sym demo_ktrace ''sched_balance_rq'' o1 = ''sched_balance_rq''"
      "trace_sym demo_ktrace ''sched_balance_find_src_group'' o1 = ''sched_balance_find_src_group''" for o1
    by (simp_all add: trace_sym_def demo_ktrace_def)
  have b: "\<exists>t'. kstep_on_balance_selected demo_ktrace c t = Inr t'" for c :: callback and t
    using demo_hook_returns [of "''sched_balance_rq''"] demo_hook_returns [of "''sched_balance_find_src_group''"]
    unfolding kstep_on_balance_selected_def s Let_def by (auto simp: bind_outcome_Inr_iff split: prod.split) blast
  have m: "\<exists>t'. kstep_on_task_migrate demo_ktrace c t = Inr t'" for c :: callback and t
    using demo_hook_returns [of "''set_task_cpu''"]
    unfolding kstep_on_task_migrate_def Let_def by (auto split: prod.split)
  obtain t1 where t1: "kstep_on_balance_selected demo_ktrace Cb_output_balance (wa_trace w) = Inr t1" using b by blast
  obtain t2 where "kstep_on_task_migrate demo_ktrace Cb_report_migrate t1 = Inr t2" using m by blast
  with t1 show ?thesis by (simp add: cli_setup_def on_trace_def)
qed

theorem enabled_rules_watch_witness:
  "\<exists>t w w'. kstep_trace_init demo_ktrace trace_zero = Inr t \<and> cli_setup demo_ktrace (watch_zero t) = Inr w \<and>
    fold_outcome (\<lambda>name w. bind_outcome (kstep_check_enable demo_ktrace name w) (\<lambda>(r, w). Inr w)) [''pelt'', ''nope'', ''pelt''] w = Inr w' \<and>
    watchers w' = {(W_tick_end, Cb_pelt_tick), (W_balance, Cb_output_balance), (W_migrate, Cb_report_migrate)}"
proof -
  have "\<exists>t. kstep_trace_init demo_ktrace trace_zero = Inr (t :: callback trace_state)"
    by (simp add: kstep_trace_init_def kstep_hook_def kstep_hook_steps_def hook_ip_def demo_ktrace_def trace_zero_def Let_def)
  then obtain t :: "callback trace_state" where t: "kstep_trace_init demo_ktrace trace_zero = Inr t" by blast
  have "\<exists>w. cli_setup demo_ktrace (watch_zero t) = Inr w" by (rule demo_setup_returns)
  then obtain w where w: "cli_setup demo_ktrace (watch_zero t) = Inr w" by blast
  have "\<exists>w'. fold_outcome (\<lambda>name w. bind_outcome (kstep_check_enable demo_ktrace name w) (\<lambda>(r, w). Inr w)) [''pelt'', ''nope'', ''pelt''] w = Inr w'"
    by (simp add: kstep_check_enable_def checks_def)
  then obtain w' where w': "fold_outcome (\<lambda>name w. bind_outcome (kstep_check_enable demo_ktrace name w) (\<lambda>(r, w). Inr w)) [''pelt'', ''nope'', ''pelt''] w = Inr w'"
    by blast
  show ?thesis using t w w' enabled_rules_watch [OF t w w'] by (auto simp: rule_watches_def session_watches_def)
qed

end
