(* ===== verification/Cov.thy ===== *)
theory Cov
  imports Prelude
begin

text \<open>
  Coverage (kmod/cov.c and the kernel's stub linux/cov.c): an edge map over the scheduler's code,
  hashed, with saturating byte counts. Where the pages are allocated and their address are the
  kernel's: arguments.
\<close>

unbundle bit_operations_syntax

section \<open>The map\<close>

abbreviation KSTEP_COV_SIZE :: nat where "KSTEP_COV_SIZE \<equiv> 2 ^ 16"

text \<open>\<open>cv_hook\<close>: whether the kernel's function pointer is set.\<close>

record cov =
  cv_map :: "u8 list"
  cv_prev :: "nat \<Rightarrow> u64"
  cv_controller :: bool
  cv_hook :: bool

definition cov_zero :: cov where
  "cov_zero = \<lparr>cv_map = [], cv_prev = \<lambda>_. 0, cv_controller = False, cv_hook = False\<rparr>"

text \<open>The byte an edge is counted in: the top 16 bits of a multiplicative hash.\<close>

definition cov_slot :: "u64 \<Rightarrow> u64 \<Rightarrow> nat" where
  "cov_slot prev ip = unat (ucast (drop_bit 48 ((prev XOR ip) * 0x9E3779B97F4A7C15)) :: u32) mod KSTEP_COV_SIZE"

definition cov_trace_pc :: "nat \<Rightarrow> nat \<Rightarrow> u64 \<Rightarrow> cov \<Rightarrow> cov" where
  "cov_trace_pc cpu pid ip s =
     (if cpu = 0 \<and> \<not> (cv_controller s \<and> pid = 1) then s
      else let i = cov_slot (cv_prev s cpu) ip; s = s\<lparr>cv_prev := (cv_prev s)(cpu := ip)\<rparr> in
        if cv_map s ! i \<noteq> 255 then s\<lparr>cv_map := (cv_map s)[i := cv_map s ! i + 1]\<rparr> else s)"

text \<open>The kernel's stub: nothing until a hook is set.\<close>

definition sanitizer_cov_trace_pc :: "nat \<Rightarrow> nat \<Rightarrow> u64 \<Rightarrow> cov \<Rightarrow> cov" where
  "sanitizer_cov_trace_pc cpu pid ip s = (if cv_hook s then cov_trace_pc cpu pid ip s else s)"

text \<open>
  \<open>hook\<close>: whether the kernel has the symbol; \<open>pages\<close>: the physical address of the zeroed pages,
  \<open>None\<close> where the allocation fails. The result is the address the ready line reports.
\<close>

definition kstep_cov_init :: "bool \<Rightarrow> u64 option \<Rightarrow> cov \<Rightarrow> (u64 \<times> cov) outcome" where
  "kstep_cov_init hook pages s =
     (if \<not> hook then Inr (0, s)
      else case pages of None \<Rightarrow> Inl ''Failed to allocate the coverage map''
        | Some phys \<Rightarrow> Inr (phys, s\<lparr>cv_map := replicate KSTEP_COV_SIZE 0, cv_hook := True\<rparr>))"

definition kstep_cov_controller :: "bool \<Rightarrow> cov \<Rightarrow> cov" where
  "kstep_cov_controller on s = s\<lparr>cv_controller := on\<rparr>"

section \<open>What a session records\<close>

datatype cov_op = Pc nat nat u64 | Controller bool

fun cov_do :: "cov_op \<Rightarrow> cov \<Rightarrow> cov" where
  "cov_do (Pc cpu pid ip) s = sanitizer_cov_trace_pc cpu pid ip s"
| "cov_do (Controller on) s = kstep_cov_controller on s"

text \<open>
  The specification: the edges taken, each two consecutive program counters recorded on one CPU; CPU 0
  is recorded only for process 1 while the controller's flag is on.
\<close>

fun cov_edges :: "cov_op list \<Rightarrow> (nat \<Rightarrow> u64) \<Rightarrow> bool \<Rightarrow> (u64 \<times> u64) list" where
  "cov_edges [] prev on = []"
| "cov_edges (Controller on' # ops) prev on = cov_edges ops prev on'"
| "cov_edges (Pc cpu pid ip # ops) prev on =
     (if cpu = 0 \<and> \<not> (on \<and> pid = 1) then cov_edges ops prev on
      else (prev cpu, ip) # cov_edges ops (prev(cpu := ip)) on)"

definition edge_count :: "(u64 \<times> u64) list \<Rightarrow> nat \<Rightarrow> nat" where
  "edge_count es i = length (filter (\<lambda>(p, ip). cov_slot p ip = i) es)"

lemma cov_slot_bound: "cov_slot prev ip < KSTEP_COV_SIZE"
  by (simp add: cov_slot_def)

lemma byte_max: "unat (b :: u8) \<le> 255"
  using unsigned_less [of b, where ?'a = nat] by simp

lemma byte_succ: "b \<noteq> (255 :: u8) \<Longrightarrow> unat (b + 1) = Suc (unat b)"
proof -
  assume "b \<noteq> 255"
  then have "unat b \<noteq> 255" by (simp add: word_unat_eq_iff)
  then have "unat b < 255" using byte_max [of b] by simp
  then show ?thesis by (simp add: unat_word_ariths)
qed

lemma cov_trace_pc_map:
  assumes "length (cv_map s) = KSTEP_COV_SIZE" "\<not> (cpu = 0 \<and> \<not> (cv_controller s \<and> pid = 1))" "i < KSTEP_COV_SIZE"
  shows "unat (cv_map (cov_trace_pc cpu pid ip s) ! i) =
    (if i = cov_slot (cv_prev s cpu) ip then min 255 (Suc (unat (cv_map s ! i))) else unat (cv_map s ! i))"
  using assms byte_succ [of "cv_map s ! i"] byte_max [of "cv_map s ! i + 1"]
  by (auto simp: cov_trace_pc_def Let_def)

lemma cov_trace_pc_fields:
  "length (cv_map (cov_trace_pc cpu pid ip s)) = length (cv_map s)" "cv_hook (cov_trace_pc cpu pid ip s) = cv_hook s"
  "cv_controller (cov_trace_pc cpu pid ip s) = cv_controller s"
  by (simp_all add: cov_trace_pc_def Let_def)

lemma cov_run_counts:
  assumes "length (cv_map s) = KSTEP_COV_SIZE" "cv_hook s" "i < KSTEP_COV_SIZE"
  shows "unat (cv_map (fold cov_do ops s) ! i) =
    min 255 (unat (cv_map s ! i) + edge_count (cov_edges ops (cv_prev s) (cv_controller s)) i)"
  using assms
proof (induction ops arbitrary: s)
  case Nil
  then show ?case using byte_max [of "cv_map s ! i"] by (simp add: edge_count_def)
next
  case (Cons x ops)
  show ?case
  proof (cases x)
    case (Controller on)
    then show ?thesis using Cons.IH [of "kstep_cov_controller on s"] Cons.prems by (simp add: kstep_cov_controller_def)
  next
    case (Pc cpu pid ip)
    let ?s = "cov_trace_pc cpu pid ip s"
    have IH: "unat (cv_map (fold cov_do ops ?s) ! i) = min 255 (unat (cv_map ?s ! i) + edge_count (cov_edges ops (cv_prev ?s) (cv_controller ?s)) i)"
      using Cons.prems by (intro Cons.IH) (simp_all add: cov_trace_pc_fields)
    show ?thesis
    proof (cases "cpu = 0 \<and> \<not> (cv_controller s \<and> pid = 1)")
      case True
      then have "?s = s" by (simp add: cov_trace_pc_def)
      then show ?thesis using IH True Pc Cons.prems by (simp add: sanitizer_cov_trace_pc_def)
    next
      case False
      then have "cv_prev ?s = (cv_prev s)(cpu := ip)" by (auto simp: cov_trace_pc_def Let_def)
      then show ?thesis using IH False Pc Cons.prems cov_trace_pc_map [OF Cons.prems(1) False Cons.prems(3), of ip]
        by (auto simp: sanitizer_cov_trace_pc_def cov_trace_pc_fields edge_count_def)
    qed
  qed
qed



end
