(* ===== verification/Symbols.thy ===== *)
theory Symbols
  imports Cstr
begin

text \<open>
  The module's start on the kernel's symbols (kmod/sym.c): every \<open>KSYM_\<close> variable of the module is
  set to the kernel's address of the name behind the prefix, and the driver is found by its name. The
  kernel's table is an argument, \<open>lookup\<close>, 0 for a name it does not have; \<open>drv\<close> gives the name in
  the driver record at an address; the pointer variables are a store of words.
\<close>

section \<open>The code\<close>

abbreviation MAX_SYM_NAME_LENGTH :: nat where "MAX_SYM_NAME_LENGTH \<equiv> 64"

record elf_sym =
  sy_name :: string
  sy_addr :: u64

text \<open>The name without the suffix a compiler adds to a static variable, from its dot on.\<close>

definition ksym_name :: "string \<Rightarrow> string outcome" where
  "ksym_name name = (if length name = 0 \<or> length name \<ge> MAX_SYM_NAME_LENGTH then Inl ''failed to format ksym name for %s: %d''
     else Inr (takeWhile (\<lambda>c. c \<noteq> CHR ''.'') name))"

definition init_ksym :: "(string \<Rightarrow> u64) \<Rightarrow> string \<Rightarrow> u64 \<Rightarrow> (u64 \<Rightarrow> u64) \<Rightarrow> (u64 \<Rightarrow> u64) outcome" where
  "init_ksym lookup name addr mem = bind_outcome (ksym_name name) (\<lambda>buf.
     let p = lookup buf; mem = mem(addr := p) in if p = 0 then Inl ''Symbol %s not found'' else Inr mem)"

fun sym_loop :: "(string \<Rightarrow> u64) \<Rightarrow> (u64 \<Rightarrow> string) \<Rightarrow> string \<Rightarrow> elf_sym list \<Rightarrow> u64 option \<Rightarrow> (u64 \<Rightarrow> u64) \<Rightarrow>
    (u64 option \<times> (u64 \<Rightarrow> u64)) outcome" where
  "sym_loop lookup drv name [] driver mem = Inr (driver, mem)"
| "sym_loop lookup drv name (s # ss) driver mem =
     (if strstarts (sy_name s) ''KSYM_''
      then bind_outcome (init_ksym lookup (drop 5 (sy_name s)) (sy_addr s) mem) (sym_loop lookup drv name ss driver)
      else if sy_name s = ''DRIVER'' \<and> drv (sy_addr s) = name
      then (if driver \<noteq> None then Inl ''Driver %s already found'' else sym_loop lookup drv name ss (Some (sy_addr s)) mem)
      else sym_loop lookup drv name ss driver mem)"

text \<open>The kernel's own lookup, found at the address of a probe on it; the probe may not register.\<close>

definition get_kallsyms_lookup_name :: "int \<Rightarrow> (string \<Rightarrow> u64) \<Rightarrow> (string \<Rightarrow> u64) outcome" where
  "get_kallsyms_lookup_name ret lookup = (if ret < 0 then Inl ''Failed to register kprobe: %d'' else Inr lookup)"

definition kstep_sym_init :: "int \<Rightarrow> (string \<Rightarrow> u64) \<Rightarrow> (u64 \<Rightarrow> string) \<Rightarrow> elf_sym list \<Rightarrow> string \<Rightarrow> (u64 \<Rightarrow> u64) \<Rightarrow>
    (u64 \<times> (u64 \<Rightarrow> u64)) outcome" where
  "kstep_sym_init kprobe lookup drv symtab name mem =
     bind_outcome (get_kallsyms_lookup_name kprobe lookup) (\<lambda>lookup_fn.
     bind_outcome (sym_loop lookup_fn drv name symtab None mem) (\<lambda>(driver, mem).
        case driver of None \<Rightarrow> Inl ''Driver %s not found'' | Some d \<Rightarrow> Inr (d, mem)))"

section \<open>What it leaves\<close>

definition is_ksym :: "elf_sym \<Rightarrow> bool" where
  "is_ksym s \<longleftrightarrow> strstarts (sy_name s) ''KSYM_''"

definition is_driver :: "(u64 \<Rightarrow> string) \<Rightarrow> string \<Rightarrow> elf_sym \<Rightarrow> bool" where
  "is_driver drv name s \<longleftrightarrow> sy_name s = ''DRIVER'' \<and> drv (sy_addr s) = name"

text \<open>The kernel's name for a \<open>KSYM_\<close> variable, and whether it can be looked up.\<close>

definition kernel_name :: "elf_sym \<Rightarrow> string" where
  "kernel_name s = takeWhile (\<lambda>c. c \<noteq> CHR ''.'') (drop 5 (sy_name s))"

definition resolves :: "(string \<Rightarrow> u64) \<Rightarrow> elf_sym \<Rightarrow> bool" where
  "resolves lookup s \<longleftrightarrow> 5 < length (sy_name s) \<and> length (sy_name s) < 5 + MAX_SYM_NAME_LENGTH \<and> lookup (kernel_name s) \<noteq> 0"

lemma init_ksym_Inr:
  "init_ksym lookup (drop 5 (sy_name s)) (sy_addr s) mem = Inr mem' \<longleftrightarrow>
    resolves lookup s \<and> mem' = mem(sy_addr s := lookup (kernel_name s))"
  by (auto simp: init_ksym_def ksym_name_def resolves_def kernel_name_def Let_def not_le split: if_splits)

lemma driver_not_ksym: "is_driver drv name s \<Longrightarrow> \<not> is_ksym s"
  by (auto simp: is_driver_def is_ksym_def strstarts_def)

lemma sym_loop_Cons:
  "sym_loop lookup drv name (s # ss) driver mem = Inr r \<longleftrightarrow>
    (if is_ksym s then resolves lookup s \<and> sym_loop lookup drv name ss driver (mem(sy_addr s := lookup (kernel_name s))) = Inr r
     else if is_driver drv name s then driver = None \<and> sym_loop lookup drv name ss (Some (sy_addr s)) mem = Inr r
     else sym_loop lookup drv name ss driver mem = Inr r)"
  by (auto simp: is_ksym_def is_driver_def bind_outcome_Inr_iff init_ksym_Inr)

declare sym_loop.simps(2) [simp del]

text \<open>The pointers after the table: each symbol's write in turn.\<close>

abbreviation set_ksyms :: "(string \<Rightarrow> u64) \<Rightarrow> elf_sym list \<Rightarrow> (u64 \<Rightarrow> u64) \<Rightarrow> u64 \<Rightarrow> u64" where
  "set_ksyms lookup ss mem \<equiv> fold (\<lambda>s mem. mem(sy_addr s := lookup (kernel_name s))) (filter is_ksym ss) mem"

lemma sym_loop_iff:
  "sym_loop lookup drv name ss driver mem = Inr r \<longleftrightarrow>
    list_all (resolves lookup) (filter is_ksym ss)
    \<and> (case filter (is_driver drv name) ss of [] \<Rightarrow> r = (driver, set_ksyms lookup ss mem)
        | [s] \<Rightarrow> driver = None \<and> r = (Some (sy_addr s), set_ksyms lookup ss mem) | _ \<Rightarrow> False)"
proof (induction ss arbitrary: driver mem)
  case (Cons s ss)
  then show ?case by (auto simp: sym_loop_Cons driver_not_ksym split: list.splits)
qed auto

lemma set_ksyms_other:
  "a \<notin> sy_addr ` set (filter is_ksym ss) \<Longrightarrow> set_ksyms lookup ss mem a = mem a"
  by (induction ss arbitrary: mem) auto

lemma set_ksyms_in:
  "distinct (map sy_addr (filter is_ksym ss)) \<Longrightarrow> s \<in> set (filter is_ksym ss) \<Longrightarrow> set_ksyms lookup ss mem (sy_addr s) = lookup (kernel_name s)"
  by (induction ss arbitrary: mem) (auto simp: set_ksyms_other)

lemma sym_init_Inr:
  "kstep_sym_init kprobe lookup drv symtab name mem = Inr (d, mem') \<longleftrightarrow>
    0 \<le> kprobe \<and> list_all (resolves lookup) (filter is_ksym symtab) \<and> map sy_addr (filter (is_driver drv name) symtab) = [d]
    \<and> mem' = set_ksyms lookup symtab mem"
proof -
  have "kstep_sym_init kprobe lookup drv symtab name mem = Inr (d, mem') \<longleftrightarrow>
      0 \<le> kprobe \<and> sym_loop lookup drv name symtab None mem = Inr (Some d, mem')"
    by (cases "sym_loop lookup drv name symtab None mem") (auto simp: kstep_sym_init_def get_kallsyms_lookup_name_def split: option.splits)
  then show ?thesis
    by (cases "filter (is_driver drv name) symtab" rule: remdups_adj.cases) (auto simp: sym_loop_iff)
qed

text \<open>
  The module starts exactly when the kernel lets it read its symbols, every kernel name it needs
  is there under 64 characters, and one driver has the name asked for; and then that driver is the
  one returned.
\<close>
theorem sym_init_starts_iff:
  "(\<exists>mem'. kstep_sym_init kprobe lookup drv symtab name mem = Inr (d, mem')) \<longleftrightarrow>
    0 \<le> kprobe \<and> list_all (resolves lookup) (filter is_ksym symtab) \<and> map sy_addr (filter (is_driver drv name) symtab) = [d]"
  by (simp add: sym_init_Inr)

text \<open>
  C36. After the start every symbol variable of the module, each at an address of its own, holds the
  kernel's address of its name, never a null pointer, and no other variable has changed.
\<close>
theorem symbols_resolved:
  assumes "kstep_sym_init kprobe lookup drv symtab name mem = Inr (d, mem')" "distinct (map sy_addr (filter is_ksym symtab))"
    "s \<in> set symtab" "is_ksym s"
  shows "mem' (sy_addr s) = lookup (kernel_name s) \<and> mem' (sy_addr s) \<noteq> 0
    \<and> (a \<notin> sy_addr ` set (filter is_ksym symtab) \<longrightarrow> mem' a = mem a)"
proof -
  have "mem' = set_ksyms lookup symtab mem" "list_all (resolves lookup) (filter is_ksym symtab)"
    using assms(1) by (simp_all add: sym_init_Inr)
  then show ?thesis using set_ksyms_in[OF assms(2)] set_ksyms_other assms(3,4) by (auto simp: list_all_iff resolves_def)
qed

section \<open>A module\<close>

definition demo_symtab :: "elf_sym list" where
  "demo_symtab = [\<lparr>sy_name = ''KSYM_runqueues'', sy_addr = 8\<rparr>, \<lparr>sy_name = ''DRIVER'', sy_addr = 100\<rparr>,
     \<lparr>sy_name = ''KSYM_cd.4'', sy_addr = 16\<rparr>, \<lparr>sy_name = ''DRIVER'', sy_addr = 200\<rparr>]"

definition demo_lookup :: "string \<Rightarrow> u64" where
  "demo_lookup n = (if n = ''runqueues'' then 4096 else if n = ''cd'' then 8192 else 0)"

definition demo_drv :: "u64 \<Rightarrow> string" where
  "demo_drv a = (if a = 100 then ''cli'' else ''freeze'')"

theorem symbols_resolved_witness:
  "\<exists>mem'. kstep_sym_init 0 demo_lookup demo_drv demo_symtab ''freeze'' (\<lambda>_. 0) = Inr (200, mem') \<and> mem' 16 = 8192"
proof -
  obtain mem' where m: "kstep_sym_init 0 demo_lookup demo_drv demo_symtab ''freeze'' (\<lambda>_. 0) = Inr (200, mem')"
    by (simp add: kstep_sym_init_def get_kallsyms_lookup_name_def demo_symtab_def sym_loop.simps(2) init_ksym_def ksym_name_def strstarts_def demo_lookup_def demo_drv_def Let_def)
  have "distinct (map sy_addr (filter is_ksym demo_symtab))" by (simp add: demo_symtab_def is_ksym_def strstarts_def)
  from symbols_resolved[OF m this, of "\<lparr>sy_name = ''KSYM_cd.4'', sy_addr = 16\<rparr>"] m show ?thesis
    by (simp add: demo_symtab_def is_ksym_def strstarts_def kernel_name_def demo_lookup_def)
qed

end
