(* ===== verification/Isolation.thy ===== *)
theory Isolation
  imports Cstr Json
begin

text \<open>
  Clearing the test CPUs of the kernel's own work before a session (kmod/isolation.c): workers
  started ahead of time, the workqueues of the test CPUs taken offline, kernel threads moved to the
  controller's CPU.
\<close>

section \<open>Workqueues\<close>

text \<open>
  What the code asks of the workqueue code, in order: a work item queued on a CPU, the wait until one
  has started, the release of all of them, the wait until an item is done, a CPU taken offline. A
  queue is one of the kernel's three.
\<close>

datatype workqueue = System_wq | System_highpri_wq | System_unbound_wq

datatype wq_op = Queue_work_on workqueue nat | Wait_started | Complete_all | Flush_work nat | Workqueue_offline_cpu nat

definition kstep_disable_workqueue :: "nat \<Rightarrow> wq_op list" where
  "kstep_disable_workqueue ncpus = map Workqueue_offline_cpu (test_cpus ncpus)"

definition prealloc_kworker :: "nat \<Rightarrow> workqueue \<Rightarrow> nat \<Rightarrow> wq_op list" where
  "prealloc_kworker num_cpus wq num_kworkers = (let num_works = num_kworkers * num_cpus in
     concat (map (\<lambda>i. [Queue_work_on wq (i div num_kworkers), Wait_started]) [0..<num_works])
     @ [Complete_all] @ map Flush_work [0..<num_works])"

definition kstep_prealloc_kworkers :: "nat \<Rightarrow> wq_op list" where
  "kstep_prealloc_kworkers num_cpus = prealloc_kworker num_cpus System_wq 2 @ prealloc_kworker num_cpus System_highpri_wq 2
     @ prealloc_kworker num_cpus System_unbound_wq 2"

section \<open>Kernel threads\<close>

record kthread =
  th_comm :: string
  th_kthread :: bool
  th_cpus :: "nat set"
  th_woken :: bool

definition sys_kthread_names :: "string list" where
  "sys_kthread_names = [''cpuhp/'', ''migration/'', ''ksoftirqd/'']"

definition kstep_is_sys_kthread :: "kthread \<Rightarrow> bool" where
  "kstep_is_sys_kthread p = list_ex (strstarts (th_comm p)) sys_kthread_names"

text \<open>
  \<open>accepts\<close>: whether \<open>set_cpus_allowed_ptr\<close> moves the thread. The code does not look at its answer.
\<close>

definition move_kthread :: "(kthread \<Rightarrow> bool) \<Rightarrow> kthread \<Rightarrow> kthread" where
  "move_kthread accepts p = (if th_cpus p = {0} then p
     else if \<not> th_kthread p \<or> kstep_is_sys_kthread p then p
     else (if accepts p then p\<lparr>th_cpus := {0}\<rparr> else p)\<lparr>th_woken := True\<rparr>)"

definition kstep_move_kthreads :: "(kthread \<Rightarrow> bool) \<Rightarrow> kthread list \<Rightarrow> kthread list" where
  "kstep_move_kthreads accepts ps = map (move_kthread accepts) ps"

section \<open>What is left on the test CPUs\<close>

text \<open>
  The workers a queue has on a CPU while the items are held: every item queued and not yet released
  keeps one, so the most items held at once on a CPU is what the kernel has had to start there.
\<close>

fun held :: "workqueue \<Rightarrow> nat \<Rightarrow> wq_op list \<Rightarrow> nat \<Rightarrow> nat \<Rightarrow> nat" where
  "held wq cpu [] n m = max n m"
| "held wq cpu (Queue_work_on q c # ops) n m = held wq cpu ops (if q = wq \<and> c = cpu then n + 1 else n) m"
| "held wq cpu (Complete_all # ops) n m = held wq cpu ops 0 (max n m)"
| "held wq cpu (_ # ops) n m = held wq cpu ops n m"

definition workers :: "workqueue \<Rightarrow> nat \<Rightarrow> wq_op list \<Rightarrow> nat" where
  "workers wq cpu ops = held wq cpu ops 0 0"

abbreviation queued_works :: "workqueue \<Rightarrow> nat \<Rightarrow> nat list \<Rightarrow> wq_op list" where
  "queued_works q k is \<equiv> concat (map (\<lambda>i. [Queue_work_on q (i div k), Wait_started]) is)"

lemma held_queue:
  "held wq cpu (queued_works q k is @ ops) n m = held wq cpu ops (n + (if q = wq then length (filter (\<lambda>i. i div k = cpu) is) else 0)) m"
  by (induction "is" arbitrary: n) auto

lemma held_flush: "held wq cpu (map Flush_work is @ ops) n m = held wq cpu ops n m"
  by (induction "is") auto

lemma count_div:
  assumes "0 < k" "cpu < c"
  shows "length (filter (\<lambda>i. i div k = cpu) [0..<k * c]) = k"
proof -
  have "{i. i < k * c \<and> i div k = cpu} = {k * cpu..<k * cpu + k}"
  proof (rule set_eqI)
    fix i
    have "k * cpu + k \<le> k * c" using assms(2) mult_le_mono2[of "cpu + 1" c k] by simp
    then show "i \<in> {i. i < k * c \<and> i div k = cpu} \<longleftrightarrow> i \<in> {k * cpu..<k * cpu + k}"
      using assms(1) dividend_less_times_div[OF assms(1), of i] by (auto simp: add.commute mult.commute intro: div_nat_eqI)
  qed
  moreover have "length (filter (\<lambda>i. i div k = cpu) [0..<k * c]) = card {i. i < k * c \<and> i div k = cpu}"
    by (subst distinct_length_filter) (auto intro: arg_cong[where f = card])
  ultimately show ?thesis by simp
qed

lemma held_prealloc:
  assumes "0 < k" "cpu < c"
  shows "held wq cpu (prealloc_kworker c q k @ ops) 0 m = held wq cpu ops 0 (if q = wq then max k m else m)"
  using count_div[OF assms] by (simp add: prealloc_kworker_def Let_def held_queue held_flush)

text \<open>
  Once the workers are started ahead of time, each of the three system workqueues has two
  workers on every CPU of the machine, and not more: the items queued on a CPU are all held at once
  before any is released.
\<close>
theorem prealloc_starts_two_workers:
  assumes "cpu < num_cpus"
  shows "workers wq cpu (kstep_prealloc_kworkers num_cpus) = 2"
  using held_prealloc[of 2 cpu num_cpus wq _ "[]"] held_prealloc[of 2 cpu num_cpus wq] assms
  by (cases wq) (simp_all add: workers_def kstep_prealloc_kworkers_def)

theorem prealloc_starts_two_workers_witness: "workers System_highpri_wq 2 (kstep_prealloc_kworkers 4) = 2"
  by (rule prealloc_starts_two_workers) simp

text \<open>
  Moving the kernel threads leaves every thread the kernel lets move, other than those that
  belong to a CPU, allowed on the controller's CPU alone, and changes no user process, no thread of a
  CPU and no thread already there.
\<close>
theorem kthreads_leave_the_test_cpus:
  assumes "p \<in> set ps" "p' = move_kthread accepts p"
  shows "p' \<in> set (kstep_move_kthreads accepts ps)
    \<and> (th_kthread p \<and> \<not> kstep_is_sys_kthread p \<and> accepts p \<longrightarrow> th_cpus p' = {0})
    \<and> (\<not> th_kthread p \<or> kstep_is_sys_kthread p \<or> th_cpus p = {0} \<longrightarrow> p' = p)
    \<and> (th_cpus p' = th_cpus p \<or> th_cpus p' = {0})"
  using assms by (auto simp: kstep_move_kthreads_def move_kthread_def)

definition demo_kthread :: kthread where
  "demo_kthread = \<lparr>th_comm = ''kworker/1:0'', th_kthread = True, th_cpus = {1}, th_woken = False\<rparr>"

theorem kthreads_leave_the_test_cpus_witness:
  "th_cpus (move_kthread (\<lambda>_. True) demo_kthread) = {0} \<and> \<not> kstep_is_sys_kthread demo_kthread"
proof -
  have s: "\<not> kstep_is_sys_kthread demo_kthread"
    by (simp add: demo_kthread_def kstep_is_sys_kthread_def sys_kthread_names_def strstarts_def)
  with kthreads_leave_the_test_cpus[of demo_kthread "[demo_kthread]" _ "\<lambda>_. True", OF _ refl] show ?thesis
    by (simp add: demo_kthread_def)
qed

end
