(* ===== verification/Userland.thy ===== *)
theory Userland
  imports Task_Ctrl Reset Topo
begin

text \<open>
  The guest's user side (user/user.c) up to the module, and the creation of a task (kmod/task.c). The
  system calls are arguments, given as what they answer; what the programs ask of the system is the
  list of the calls made, in order.
\<close>

section \<open>The first process\<close>

datatype sysop = Mkdir string | Mount string string | Mkfifo string | Set_affinity "nat list" | Finit_module string string | Reboot

text \<open>
  \<open>sy_mkdir\<close> answers 0 or an \<open>errno\<close>, \<open>sy_open\<close> whether the file opens, the others whether they
  succeed.
\<close>

record sys =
  sy_mkdir :: "string \<Rightarrow> int"
  sy_mount :: "string \<Rightarrow> string \<Rightarrow> bool"
  sy_mkfifo :: "string \<Rightarrow> bool"
  sy_affinity :: bool
  sy_open :: "string \<Rightarrow> bool"
  sy_finit :: "string \<Rightarrow> string \<Rightarrow> bool"

text \<open>A program's run so far: the calls made and, once it has panicked, its message.\<close>

type_synonym urun = "sysop list \<times> string option"

definition upanic :: "string \<Rightarrow> urun \<Rightarrow> urun" where
  "upanic msg r = (fst r @ [Reboot], Some msg)"

text \<open>One call: made unless the program has panicked, with a panic where it fails.\<close>

definition ucall :: "sysop \<Rightarrow> bool \<Rightarrow> string \<Rightarrow> urun \<Rightarrow> urun" where
  "ucall op ok' msg r = (if snd r \<noteq> None then r else let r = (fst r @ [op], None) in if ok' then r else upanic msg r)"

abbreviation EEXIST :: int where "EEXIST \<equiv> 17"

definition mount_fs :: "sys \<Rightarrow> string \<Rightarrow> string \<Rightarrow> urun \<Rightarrow> urun" where
  "mount_fs y dir fs r = (let e = sy_mkdir y dir;
     r = ucall (Mkdir dir) (\<not> (e \<noteq> 0 \<and> e \<noteq> EEXIST)) ''Failed to create directory %s'' r in
     ucall (Mount dir fs) (sy_mount y dir fs) ''Failed to mount %s as %s'' r)"

abbreviation MAX_PARAMS_LENGTH :: nat where "MAX_PARAMS_LENGTH \<equiv> 512"

text \<open>\<open>strlcat(dst, src, size)\<close>: as much of \<open>src\<close> as leaves room for the terminator.\<close>

definition strlcat :: "string \<Rightarrow> string \<Rightarrow> nat \<Rightarrow> string" where
  "strlcat dst src n = dst @ take (n - 1 - length dst) src"

definition kmod_params :: "string list \<Rightarrow> string list \<Rightarrow> string" where
  "kmod_params argv envp = (let
     params = fold (\<lambda>a ps. strlcat (strlcat ps a MAX_PARAMS_LENGTH) '' '' MAX_PARAMS_LENGTH) (drop 1 argv) [] in
     fold (\<lambda>e ps. strlcat (strlcat ps e MAX_PARAMS_LENGTH) '' '' MAX_PARAMS_LENGTH) (drop 2 envp) params)"

definition load_kmod :: "sys \<Rightarrow> string \<Rightarrow> string list \<Rightarrow> string list \<Rightarrow> urun \<Rightarrow> urun" where
  "load_kmod y path argv envp r = (if snd r \<noteq> None then r else let params = kmod_params argv envp in
     if \<not> sy_open y path then upanic ''Failed to open %s'' r
     else ucall (Finit_module path params) (sy_finit y path params) ''Failed to finit_module %s'' r)"

definition set_proc_affinity :: "sys \<Rightarrow> nat \<Rightarrow> nat \<Rightarrow> urun \<Rightarrow> urun" where
  "set_proc_affinity y begin' end' r =
     ucall (Set_affinity [begin'..<end' + 1]) (sy_affinity y) ''Failed to set CPU affinity for task %d to CPUs %d-%d'' r"

definition PIPE_PATH :: string where
  "PIPE_PATH = ''/pipe''"

definition init_main :: "sys \<Rightarrow> string list \<Rightarrow> string list \<Rightarrow> urun" where
  "init_main y argv envp = (let
     r = mount_fs y ''/dev'' ''devtmpfs'' ([], None);
     r = mount_fs y ''/proc'' ''proc'' r;
     r = mount_fs y ''/sys'' ''sysfs'' r;
     r = mount_fs y ''/sys/kernel/debug'' ''debugfs'' r;
     r = ucall (Mkfifo PIPE_PATH) (sy_mkfifo y PIPE_PATH) ''Failed to create %s'' r;
     r = mount_fs y ''/sys/fs/cgroup'' ''cgroup2'' r;
     r = set_proc_affinity y 0 0 r;
     r = load_kmod y ''kmod.ko'' argv envp r in
     if snd r \<noteq> None then r else upanic ''Kernel module exited unexpectedly'' r)"

text \<open>The entry point picks the program by the name it was started under.\<close>

datatype program = Task_main | Init_main

definition user_main :: "string list \<Rightarrow> program" where
  "user_main argv = (if argv \<noteq> [] \<and> hd argv = ''task'' then Task_main else Init_main)"

text \<open>A task's end of the channel: opened on first use and kept.\<close>

definition chan_fd :: "int \<Rightarrow> int \<Rightarrow> int outcome" where
  "chan_fd open_result fd = (if fd < 0 \<and> open_result < 0 then Inl ''Failed to open %s''
     else Inr (if fd < 0 then open_result else fd))"

section \<open>A new task\<close>

datatype tfile = Null_file | Console_file | Ctrl_file

text \<open>Whether each of the three files the tasks share opens.\<close>

definition kstep_task_init :: "bool \<Rightarrow> bool \<Rightarrow> bool \<Rightarrow> unit outcome" where
  "kstep_task_init console null ctrl = (if \<not> console then Inl ''Failed to open /dev/console''
     else if \<not> null then Inl ''Failed to open /dev/null''
     else if \<not> ctrl then Inl ''Failed to create the control file'' else Inr ())"

text \<open>
  What the kernel answers while a task is made: the descriptors in turn, whether the task is pinned,
  recorded and stored, what the helper process comes to (\<open>um_task\<close> is the process that ran the
  initialisation, if one did), what is pending at its first read, and the affinity call.
\<close>

record umh =
  um_fd :: "nat \<Rightarrow> int"
  um_pin :: bool
  um_alloc :: bool
  um_store :: bool
  um_setup :: bool
  um_exec :: int
  um_task :: "(tptr \<times> nat) option"
  um_resched :: bool
  um_signal :: bool
  um_affinity :: "nat set \<Rightarrow> int"
  um_struct :: task_struct

fun install_fds :: "(nat \<Rightarrow> int) \<Rightarrow> nat \<Rightarrow> tfile list \<Rightarrow> (nat \<rightharpoonup> tfile) \<Rightarrow> (nat \<rightharpoonup> tfile) outcome" where
  "install_fds fds i [] tab = Inr tab"
| "install_fds fds i (f # fs) tab = (let fd = fds i in
     if fd < 0 \<or> fd \<noteq> int i then Inl ''get_unused_fd_flags returned %d for %s''
     else install_fds fds (i + 1) fs (tab(nat fd \<mapsto> f)))"

definition task_init :: "umh \<Rightarrow> tptr \<Rightarrow> nat \<Rightarrow> kstep_tasks \<Rightarrow> ((nat \<rightharpoonup> tfile) \<times> kstep_tasks) outcome" where
  "task_init u p pid xa = bind_outcome (install_fds (um_fd u) 0 [Null_file, Console_file, Console_file, Ctrl_file] Map.empty) (\<lambda>tab.
     if \<not> um_pin u then Inl ''Failed to pin task %d to CPU 0''
     else bind_outcome (kstep_task_add (um_alloc u) (um_store u) p pid xa) (\<lambda>xa. Inr (tab, xa)))"

record new_task =
  nt_p :: tptr
  nt_pid :: nat
  nt_fds :: "nat \<rightharpoonup> tfile"
  nt_cpus :: "nat set"
  nt_struct :: task_struct
  nt_xa :: kstep_tasks

text \<open>
  \<open>None\<close>: the controller waits for ever for the task to park. The affinity call is \<open>kstep_task_set_affinity\<close>.
\<close>

definition task_affinity :: "klib \<Rightarrow> nat \<Rightarrow> umh \<Rightarrow> string \<Rightarrow> int \<times> nat set" where
  "task_affinity L ncpus u cpus = (case kstep_parse_cpus L ncpus (Some cpus) of None \<Rightarrow> (- 34, {0})
     | Some m \<Rightarrow> (um_affinity u m, m))"

definition kstep_task_create :: "klib \<Rightarrow> nat \<Rightarrow> reset_conf \<Rightarrow> umh \<Rightarrow> kstep_tasks \<Rightarrow> new_task outcome option" where
  "kstep_task_create L ncpus c u xa =
     (if \<not> um_setup u then Some (Inl ''Failed to setup user mode helper'')
      else case um_task u of
        None \<Rightarrow> Some (Inl (if um_exec u < 0 then ''Failed to run user mode helper'' else ''Failed to get task struct''))
      | Some (p, pid) \<Rightarrow> (case task_init u p pid xa of Inl e \<Rightarrow> Some (Inl e)
        | Inr (tab, xa) \<Rightarrow> if um_exec u < 0 then Some (Inl ''Failed to run user mode helper'')
          else case kstep_ctrl_read xa p pid 1 True (um_resched u) (um_signal u) of Inl e \<Rightarrow> Some (Inl e)
          | Inr (Read_park, xa) \<Rightarrow> (let (err, cpus) = task_affinity L ncpus u (take 15 (''1-'' @ dec ncpus)) in
              if err \<noteq> 0 then Some (Inl ''Failed to set CPU affinity for task %d to CPUs %s'')
              else Some (Inr \<lparr>nt_p = p, nt_pid = pid, nt_fds = tab, nt_cpus = cpus, nt_struct = kstep_reset_task c (um_struct u), nt_xa = xa\<rparr>))
          | Inr (_, xa) \<Rightarrow> None))"

section \<open>The module's parameters\<close>

lemma strlcat_take: "strlcat (take n s) t (Suc n) = take n (take n s @ t)"
  by (simp add: strlcat_def)

lemma fold_strlcat:
  "fold (\<lambda>a ps. strlcat (strlcat ps a (Suc n)) '' '' (Suc n)) as (take n s) = take n (s @ concat (map (\<lambda>a. a @ '' '') as))"
  by (induction as arbitrary: s) (simp_all only: fold.simps list.map concat.simps append_Nil2 append_assoc id_apply comp_apply strlcat_take take_take_append)

text \<open>
  The parameters the module is loaded with are the first 511 characters of the command line, every
  word but the program's name and every variable but the first two, each followed by a space: nothing
  is lost or reordered while it fits, and what does not fit is cut.
\<close>
theorem kmod_params_are_the_command_line:
  "kmod_params argv envp = take 511 (concat (map (\<lambda>a. a @ '' '') (drop 1 argv @ drop 2 envp)))"
  using fold_strlcat[of 511 "drop 1 argv" "[]"] fold_strlcat[of 511 "drop 2 envp"]
  by (simp add: kmod_params_def Let_def)

section \<open>The order of the boot\<close>

text \<open>The run along a list of calls: all of them made, or some of them and a reboot.\<close>

definition along :: "sysop list \<Rightarrow> urun \<Rightarrow> bool" where
  "along cs r \<longleftrightarrow> (snd r = None \<and> fst r = cs) \<or> (snd r \<noteq> None \<and> (\<exists>k\<le>length cs. fst r = take k cs @ [Reboot]))"

lemma along_stopped: "along cs r \<Longrightarrow> snd r \<noteq> None \<Longrightarrow> along (cs @ cs') r"
proof -
  assume "along cs r" "snd r \<noteq> None"
  then obtain k where "k \<le> length cs" "fst r = take k cs @ [Reboot]" by (auto simp: along_def)
  then show "along (cs @ cs') r" using \<open>snd r \<noteq> None\<close> unfolding along_def by (intro disjI2 conjI exI[of _ k]) simp_all
qed

lemma along_panic: "along cs r \<Longrightarrow> snd r = None \<Longrightarrow> along (cs @ cs') (upanic msg r)"
  unfolding along_def by (intro disjI2 conjI exI[of _ "length cs"]) (auto simp: upanic_def)

lemma along_ucall: "along cs r \<Longrightarrow> along (cs @ [op]) (ucall op ok' msg r)"
proof (cases "snd r = None")
  case True
  assume "along cs r"
  then have "along (cs @ [op]) (cs @ [op], None)" "fst r = cs" using True by (auto simp: along_def)
  then show ?thesis using True along_panic[of "cs @ [op]" "(cs @ [op], None)" "[]"] by (simp add: ucall_def Let_def)
qed (auto simp: ucall_def along_stopped)

lemma along_mount_fs: "along cs r \<Longrightarrow> along (cs @ [Mkdir d, Mount d fs]) (mount_fs y d fs r)"
  using along_ucall[OF along_ucall] by (simp add: mount_fs_def Let_def)

lemma along_load_kmod: "along cs r \<Longrightarrow> along (cs @ [Finit_module path (kmod_params argv envp)]) (load_kmod y path argv envp r)"
  using along_ucall[of cs r] along_stopped[of cs r] along_panic[of cs r] by (cases "snd r = None") (auto simp: load_kmod_def Let_def)

definition init_calls :: "string list \<Rightarrow> string list \<Rightarrow> sysop list" where
  "init_calls argv envp = [Mkdir ''/dev'', Mount ''/dev'' ''devtmpfs'', Mkdir ''/proc'', Mount ''/proc'' ''proc'',
     Mkdir ''/sys'', Mount ''/sys'' ''sysfs'', Mkdir ''/sys/kernel/debug'', Mount ''/sys/kernel/debug'' ''debugfs'', Mkfifo PIPE_PATH,
     Mkdir ''/sys/fs/cgroup'', Mount ''/sys/fs/cgroup'' ''cgroup2'', Set_affinity [0], Finit_module ''kmod.ko'' (kmod_params argv envp)]"


section \<open>A task begins parked\<close>

definition umh_fine :: "umh \<Rightarrow> tptr \<Rightarrow> nat \<Rightarrow> nat set \<Rightarrow> bool" where
  "umh_fine u p pid cpus \<longleftrightarrow> (\<forall>i<4. um_fd u i = int i) \<and> um_pin u \<and> um_alloc u \<and> um_store u \<and> um_setup u \<and> 0 \<le> um_exec u
     \<and> um_task u = Some (p, pid) \<and> um_affinity u cpus = 0"

lemma first_read_parks:
  assumes "kstep_task_add True True p pid xa = Inr xa'"
  shows "\<exists>t. kstep_ctrl_read xa' p pid 1 c nr sg = Inr (Read_park, xa'(pid \<mapsto> t)) \<and> kt_p t = p \<and> kt_head t = kt_tail t \<and> \<not> kt_settled t"
  using assms by (auto simp: kstep_task_add_def kstep_ctrl_put_def kstep_task_zalloc_def kstep_ctrl_read_def kstep_task_find_def kstep_ctrl_take_def Let_def)


definition demo_umh :: umh where
  "demo_umh = \<lparr>um_fd = int, um_pin = True, um_alloc = True, um_store = True, um_setup = True, um_exec = 0, um_task = Some (7, 42),
     um_resched = False, um_signal = False, um_affinity = (\<lambda>_. 0),
     um_struct = \<lparr>ts_cpu = 1, ts_nivcsw = 3, ts_nvcsw = 4, ts_se = demo_se 5\<rparr>\<rparr>"

definition demo_cpulist :: klib where
  "demo_cpulist = \<lparr>kstrtoint = (\<lambda>_. None), cpulist_parse = (\<lambda>s. if s = ''1-3'' then Some {1..3} else None)\<rparr>"


end
