(* ===== verification/Boot.thy ===== *)
theory Boot
  imports Symbols Isolation Userland Kernel Trace Tick
begin

text \<open>
  The module's start to the point where the driver runs (kmod/main.c), with the clocks it installs
  (kmod/tick.c, kmod/tick_clock.c, kmod/tick_jiffies.c): the order in which the components are
  brought up, and the state the driver finds.
\<close>

section \<open>The tick and the clocks taken over\<close>

text \<open>\<open>timers\<close>: which CPUs have their scheduler timer armed.\<close>

definition kstep_disable_sched_timer :: "nat \<Rightarrow> (nat \<Rightarrow> bool) \<Rightarrow> nat \<Rightarrow> bool" where
  "kstep_disable_sched_timer ncpus timers = fold (\<lambda>cpu timers. timers(cpu := False)) (test_cpus ncpus) timers"

definition first_symbol :: "(string \<Rightarrow> u64) \<Rightarrow> string \<Rightarrow> string \<Rightarrow> u64" where
  "first_symbol lookup a b = (if lookup a \<noteq> 0 then lookup a else lookup b)"

text \<open>The functions a tick will call, under the names of newer and older kernels.\<close>

definition kstep_tick_init :: "(string \<Rightarrow> u64) \<Rightarrow> nat \<Rightarrow> (nat \<Rightarrow> bool) \<Rightarrow> ((u64 \<times> u64) \<times> (nat \<Rightarrow> bool)) outcome" where
  "kstep_tick_init lookup ncpus timers = (let timers = kstep_disable_sched_timer ncpus timers;
     sched_tick_fn = first_symbol lookup ''sched_tick'' ''scheduler_tick'' in
     if sched_tick_fn = 0 then Inl ''Failed to find sched_tick or scheduler_tick''
     else let sched_softirq_fn = first_symbol lookup ''sched_balance_softirq'' ''run_rebalance_domains'' in
     if sched_softirq_fn = 0 then Inl ''Failed to find sched_balance_softirq or run_rebalance_domains''
     else Inr ((sched_tick_fn, sched_softirq_fn), timers))"

text \<open>The kernel's scheduler clock: a function behind an offset, or two copies of how a counter is read.\<close>

datatype clock_fn = Machine_clock | Kstep_sched_clock_get

record clock_read_data =
  rd_read_sched_clock :: clock_fn
  rd_mult :: u32
  rd_shift :: u32
  rd_epoch_ns :: u64
  rd_epoch_cyc :: u64

datatype sched_clock = Paravirt u64 clock_fn | Generic clock_fn clock_read_data clock_read_data

definition mock_read_data :: "clock_read_data \<Rightarrow> clock_read_data" where
  "mock_read_data rd = rd\<lparr>rd_read_sched_clock := Kstep_sched_clock_get, rd_mult := 1, rd_shift := 0, rd_epoch_ns := 0, rd_epoch_cyc := 0\<rparr>"

fun kstep_sched_clock_init :: "sched_clock \<Rightarrow> sched_clock" where
  "kstep_sched_clock_init (Paravirt off fn) = Paravirt 0 Kstep_sched_clock_get"
| "kstep_sched_clock_init (Generic fn rd0 rd1) = Generic Kstep_sched_clock_get (mock_read_data rd0) (mock_read_data rd1)"

text \<open>The kernel's timekeeping: the CPU that keeps the jiffies and when they are next due.\<close>

record timekeeper =
  tk_do_timer_cpu :: int
  tk_next_period :: int

abbreviation KTIME_MAX :: int where "KTIME_MAX \<equiv> 2 ^ 63 - 1"

definition jiffies_timekeeper :: "timekeeper \<Rightarrow> timekeeper" where
  "jiffies_timekeeper tk = tk\<lparr>tk_do_timer_cpu := -1, tk_next_period := KTIME_MAX\<rparr>"

section \<open>The module's start\<close>

record ('m, 'f) boot =
  bo_mem :: "u64 \<Rightarrow> u64"
  bo_driver :: u64
  bo_topo :: topo
  bo_wq :: "wq_op list"
  bo_threads :: "kthread list"
  bo_fs :: 'm
  bo_trace :: "'f trace_state"
  bo_timers :: "nat \<Rightarrow> bool"
  bo_tick_fns :: "u64 \<times> u64"
  bo_timekeeper :: timekeeper
  bo_clock :: clock
  bo_sched_clock :: sched_clock
  bo_feats :: u32
  bo_k :: kstate

text \<open>
  What the start reads of the machine and the kernel. \<open>be_setup\<close> is the driver's \<open>setup\<close>, which
  may call any of the components; \<open>be_epoch\<close> is \<open>nsecs_to_jiffies(TICK_NSEC)\<close>, \<open>be_initial\<close> the
  kernel's \<open>INITIAL_JIFFIES\<close>. Printing the topology has no effect on the state.
\<close>

record ('m, 'f) boot_env =
  be_io :: "bool \<times> bool"
  be_kprobe :: int
  be_lookup :: "string \<Rightarrow> u64"
  be_drv :: "u64 \<Rightarrow> string"
  be_symtab :: "elf_sym list"
  be_name :: string
  be_lib :: klib
  be_machine :: machine
  be_accepts :: "kthread \<Rightarrow> bool"
  be_files :: "bool \<times> bool \<times> bool"
  be_kfs :: "'m kfs"
  be_rcu_sync :: "'m \<Rightarrow> 'm"
  be_ktrace :: ktrace
  be_setup :: "('m, 'f) boot \<Rightarrow> ('m, 'f) boot outcome"
  be_epoch :: u64
  be_initial :: u64
  be_feat_names :: "string option list"
  be_conf :: reset_conf

definition boot_isolate :: "('m, 'f) boot_env \<Rightarrow> ('m, 'f) boot \<Rightarrow> ('m, 'f) boot" where
  "boot_isolate E b = (let
     b = b\<lparr>bo_wq := bo_wq b @ kstep_prealloc_kworkers (mc_online (be_machine E))\<rparr>;
     b = b\<lparr>bo_wq := bo_wq b @ kstep_disable_workqueue (tp_ncpus (bo_topo b))\<rparr> in
     b\<lparr>bo_threads := kstep_move_kthreads (be_accepts E) (bo_threads b)\<rparr>)"

definition boot_clocks :: "('m, 'f) boot_env \<Rightarrow> ('m, 'f) boot \<Rightarrow> ('m, 'f) boot outcome" where
  "boot_clocks E b = bind_outcome (kstep_tick_init (be_lookup E) (tp_ncpus (bo_topo b)) (bo_timers b)) (\<lambda>(fns, timers). let
     b = b\<lparr>bo_tick_fns := fns, bo_timers := timers\<rparr>;
     b = b\<lparr>bo_timekeeper := jiffies_timekeeper (bo_timekeeper b), bo_clock := kstep_jiffies_init (be_epoch E) (be_initial E) (bo_clock b)\<rparr> in
     Inr (b\<lparr>bo_sched_clock := kstep_sched_clock_init (bo_sched_clock b)\<rparr>))"

definition boot_reset :: "('m, 'f) boot_env \<Rightarrow> ('m, 'f) boot \<Rightarrow> ('m, 'f) boot" where
  "boot_reset E b = b\<lparr>bo_k := reset_all ((be_conf E)\<lparr>rc_jiffies := ck_jiffies (bo_clock b)\<rparr>)
     ((bo_k b)\<lparr>ks_ncpus := tp_ncpus (bo_topo b), ks_online := mc_online (be_machine E)\<rparr>)\<rparr>"

text \<open>Everything before the driver's \<open>setup\<close>, in order.\<close>

definition boot_components :: "('m, 'f) boot_env \<Rightarrow> ('m, 'f) boot \<Rightarrow> ('m, 'f) boot outcome" where
  "boot_components E b =
     bind_outcome (kstep_io_init (fst (be_io E)) (snd (be_io E))) (\<lambda>_.
     bind_outcome (kstep_sym_init (be_kprobe E) (be_lookup E) (be_drv E) (be_symtab E) (be_name E) (bo_mem b)) (\<lambda>(driver, mem).
     let b = b\<lparr>bo_mem := mem, bo_driver := driver\<rparr> in
     bind_outcome (kstep_cpu_init (be_lib E) (be_machine E) (bo_topo b)) (\<lambda>t.
     let b = boot_isolate E (b\<lparr>bo_topo := t\<rparr>) in
     bind_outcome (case be_files E of (console, null, ctrl) \<Rightarrow> kstep_task_init console null ctrl) (\<lambda>_.
     bind_outcome (kstep_cgroup_init (be_kfs E) (be_rcu_sync E) (bo_fs b)) (\<lambda>m.
     bind_outcome (kstep_trace_init (be_ktrace E) (bo_trace b)) (\<lambda>tr.
     Inr (b\<lparr>bo_fs := m, bo_trace := tr\<rparr>)))))))"

definition kstep_main :: "('m, 'f) boot_env \<Rightarrow> ('m, 'f) boot \<Rightarrow> ('m, 'f) boot outcome" where
  "kstep_main E b =
     bind_outcome (boot_components E b) (\<lambda>b.
     bind_outcome (be_setup E b) (\<lambda>b.
     bind_outcome (boot_clocks E b) (\<lambda>b.
     bind_outcome (kstep_sched_feat_disable (be_feat_names E) ''NI_RANDOM'' (bo_feats b)) (\<lambda>feats.
     Inr (boot_reset E (b\<lparr>bo_feats := feats\<rparr>))))))"

section \<open>The state the driver runs from\<close>

text \<open>A driver's \<open>setup\<close> builds the session and does not tick: the scheduler clock is where it was.\<close>

definition setup_keeps_clock :: "('m, 'f) boot_env \<Rightarrow> bool" where
  "setup_keeps_clock E \<longleftrightarrow> (\<forall>b b'. be_setup E b = Inr b' \<longrightarrow> ck_sched (bo_clock b') = ck_sched (bo_clock b))"

text \<open>The kernel's scheduler clock reads the mocked one and adds nothing to it.\<close>

definition mocked :: "sched_clock \<Rightarrow> bool" where
  "mocked c \<longleftrightarrow> (case c of Paravirt off fn \<Rightarrow> off = 0 \<and> fn = Kstep_sched_clock_get
     | Generic fn rd0 rd1 \<Rightarrow> fn = Kstep_sched_clock_get \<and> (\<forall>rd\<in>{rd0, rd1}. rd_read_sched_clock rd = Kstep_sched_clock_get
         \<and> rd_mult rd = 1 \<and> rd_shift rd = 0 \<and> rd_epoch_ns rd = 0 \<and> rd_epoch_cyc rd = 0))"

lemma sched_clock_init_mocked [simp]: "mocked (kstep_sched_clock_init c)"
  by (cases c) (simp_all add: mocked_def mock_read_data_def)

lemma disable_sched_timer: "kstep_disable_sched_timer ncpus timers cpu \<longleftrightarrow> timers cpu \<and> cpu \<notin> set (test_cpus ncpus)"
proof -
  have "fold (\<lambda>cpu timers. timers(cpu := False)) cpus timers cpu \<longleftrightarrow> timers cpu \<and> cpu \<notin> set cpus" for cpus
    by (induction cpus arbitrary: timers) auto
  then show ?thesis by (simp add: kstep_disable_sched_timer_def)
qed

lemma boot_clocks_Inr:
  assumes "boot_clocks E b = Inr b'"
  shows "bo_topo b' = bo_topo b" "ck_sched (bo_clock b') = ck_sched (bo_clock b)" "clock_inv (bo_clock b')"
    "kstep_jiffies_get (bo_clock b') = 0" "ck_offset (bo_clock b') = be_epoch E + be_initial E" "mocked (bo_sched_clock b')"
    "bo_timers b' cpu \<longleftrightarrow> bo_timers b cpu \<and> cpu \<notin> set (test_cpus (tp_ncpus (bo_topo b)))"
    "fst (bo_tick_fns b') \<noteq> 0 \<and> snd (bo_tick_fns b') \<noteq> 0"
    "tk_do_timer_cpu (bo_timekeeper b') = -1 \<and> tk_next_period (bo_timekeeper b') = KTIME_MAX"
  using assms by (auto simp: boot_clocks_def bind_outcome_Inr_iff kstep_tick_init_def Let_def kstep_jiffies_init_def kstep_jiffies_set_def
      clock_inv_def kstep_jiffies_get_def jiffies_timekeeper_def disable_sched_timer split: if_splits)

lemma reset_all_ncpus: "ks_ncpus (reset_all c k) = ks_ncpus k"
  by (simp add: reset_all_def kstep_reset_cpumask_def kstep_reset_dl_server_def fold_distribute fold_dl_server reset_runqueues_eq Let_def)

lemma reset_rq_clocks_epoch:
  "rq_clock (reset_rq_clocks c r) = rc_tick_nsec c" "rq_clock_task (reset_rq_clocks c r) = rc_tick_nsec c"
  by (simp_all add: reset_rq_clocks_def Let_def)

lemma reset_runqueue_epoch:
  "rq_clock (kstep_reset_runqueue c r) = rc_tick_nsec c" "rq_clock_task (kstep_reset_runqueue c r) = rc_tick_nsec c"
  "rq_next_balance (kstep_reset_runqueue c r) = rc_jiffies c" "rq_nr_switches (kstep_reset_runqueue c r) = 0"
  by (simp_all add: kstep_reset_runqueue_def Let_def reset_rq_clocks_epoch)

lemma reset_all_epoch:
  "cpu \<le> ks_ncpus k \<Longrightarrow> rq_clock (ks_rq (reset_all c k) cpu) = rc_tick_nsec c \<and> rq_clock_task (ks_rq (reset_all c k) cpu) = rc_tick_nsec c"
  "1 \<le> cpu \<Longrightarrow> cpu \<le> ks_ncpus k \<Longrightarrow> rq_next_balance (ks_rq (reset_all c k) cpu) = rc_jiffies c"
  by (auto simp: reset_all_fields reset_runqueues_eq kstep_reset_control_rq_def reset_rq_clocks_epoch reset_runqueue_epoch test_cpus_def)

lemma boot_components_clock: "boot_components E b = Inr b' \<Longrightarrow> bo_clock b' = bo_clock b"
  by (auto simp: boot_components_def bind_outcome_Inr_iff boot_isolate_def Let_def)

lemma kstep_main_Inr:
  "kstep_main E b = Inr b' \<Longrightarrow> \<exists>b1 b2 b3 feats. boot_components E b = Inr b1 \<and> be_setup E b1 = Inr b2 \<and> boot_clocks E b2 = Inr b3
    \<and> b' = boot_reset E (b3\<lparr>bo_feats := feats\<rparr>)"
  by (auto simp: kstep_main_def bind_outcome_Inr_iff)


section \<open>A machine that boots\<close>

definition demo_boot :: "(string set, nat) boot" where
  "demo_boot = \<lparr>bo_mem = (\<lambda>_. 0), bo_driver = 0, bo_topo = demo_narrow, bo_wq = [], bo_threads = [demo_kthread], bo_fs = {},
     bo_trace = trace_zero, bo_timers = (\<lambda>_. True), bo_tick_fns = (0, 0), bo_timekeeper = \<lparr>tk_do_timer_cpu = 0, tk_next_period = 5\<rparr>,
     bo_clock = \<lparr>ck_sched = 4000000, ck_kstep_jiffies = 0, ck_offset = 0, ck_jiffies = 77\<rparr>, bo_sched_clock = Paravirt 9 Machine_clock,
     bo_feats = 0, bo_k = demo_kstate 5\<rparr>"

definition demo_boot_env :: "(string set, nat) boot_env" where
  "demo_boot_env = \<lparr>be_io = (True, True), be_kprobe = 0, be_lookup = (\<lambda>_. 4096), be_drv = demo_drv, be_symtab = demo_symtab, be_name = ''cli'',
     be_lib = demo_klib, be_machine = demo_machine, be_accepts = (\<lambda>_. True), be_files = (True, True, True), be_kfs = demo_fs (- 5),
     be_rcu_sync = id, be_ktrace = demo_ktrace, be_setup = Inr, be_epoch = 1, be_initial = 4294667296, be_feat_names = [],
     be_conf = demo_reset_conf\<rparr>"

lemma demo_cpu_init: "\<exists>t. kstep_cpu_init demo_klib demo_machine demo_narrow = Inr t \<and> tp_ncpus t = 2"
proof -
  obtain t where t: "topo_apply demo_machine demo_init2 (\<lambda>_. 1024) = Inr t" "tp_ncpus t = 2" using demo_apply2 by blast
  have "topo_cpus demo_klib 3 [] = Some 2" by (simp add: topo_cpus_def strscpy_def strstarts_def)
  then have "kstep_topo_set demo_klib demo_machine [] (demo_narrow\<lparr>tp_ncpus := 2\<rparr>) = Inr (None, t)"
    using demo_init2 t(1) by (simp add: kstep_topo_set_def demo_machine_def strscpy_def)
  then show ?thesis using t(2) by (simp add: kstep_cpu_init_def demo_machine_def)
qed

lemma demo_sym_init: "\<exists>m. kstep_sym_init 0 (\<lambda>_. 4096) demo_drv demo_symtab ''cli'' (\<lambda>_. 0) = Inr (100, m)"
  by (simp add: sym_init_Inr demo_symtab_def is_ksym_def is_driver_def strstarts_def resolves_def demo_drv_def)

lemma demo_boot_components: "\<exists>b. boot_components demo_boot_env demo_boot = Inr b \<and> tp_ncpus (bo_topo b) = 2"
proof -
  obtain t where t: "kstep_cpu_init demo_klib demo_machine demo_narrow = Inr t" "tp_ncpus t = 2" using demo_cpu_init by blast
  obtain m where m: "kstep_sym_init 0 (\<lambda>_. 4096) demo_drv demo_symtab ''cli'' (\<lambda>_. 0) = Inr (100, m)" using demo_sym_init by blast
  have "\<exists>tr. kstep_trace_init demo_ktrace trace_zero = Inr (tr :: nat trace_state)"
    by (simp add: kstep_trace_init_def kstep_hook_def kstep_hook_steps_def hook_ip_def demo_ktrace_def trace_zero_def Let_def)
  moreover have "\<exists>fs. kstep_cgroup_init (demo_fs (- 5)) id {} = Inr fs"
    by (simp add: kstep_cgroup_init_def kstep_cgroup_write_def kstep_write_def demo_fs_def scnprintf_def Let_def)
  ultimately show ?thesis using t m
    by (auto simp: boot_components_def demo_boot_env_def demo_boot_def kstep_io_init_def kstep_task_init_def boot_isolate_def Let_def)
qed

lemma demo_boots: "\<exists>b'. kstep_main demo_boot_env demo_boot = Inr b' \<and> tp_ncpus (bo_topo b') = 2"
proof -
  obtain b where "boot_components demo_boot_env demo_boot = Inr b" "tp_ncpus (bo_topo b) = 2" using demo_boot_components by blast
  then show ?thesis
    by (simp add: kstep_main_def demo_boot_env_def boot_clocks_def kstep_tick_init_def first_symbol_def kstep_sched_feat_disable_def
        kstep_sched_feat_write_def strstarts_def boot_reset_def Let_def)
qed


end
