(* ===== verification/Topo_Report.thy ===== *)
theory Topo_Report
  imports Topo Kernel Shm
begin

text \<open>
  What kmod/cpu.c says of the machine in the log (\<open>kstep_topo_print\<close>) and the names of a domain's
  flags, with a CPU's frequency scale. The log is the text printed; the kernel's formatting of a CPU
  mask (\<open>pbl\<close>) and its list of flag names, from its own sd_flags.h, are arguments.
\<close>

section \<open>Frequencies\<close>

definition kstep_freq_set :: "nat \<Rightarrow> int \<Rightarrow> (nat \<Rightarrow> u64) \<Rightarrow> nat \<Rightarrow> u64" where
  "kstep_freq_set cpu scale arch_freq_scale = arch_freq_scale(cpu := word_of_int scale)"

definition kstep_freq_get :: "(nat \<Rightarrow> u64) \<Rightarrow> nat \<Rightarrow> u64" where
  "kstep_freq_get arch_freq_scale cpu = arch_freq_scale cpu"

section \<open>Flags\<close>

text \<open>One flag of the list: its name without \<open>SD_\<close>, after a comma unless it is the first.\<close>

definition sd_flag :: "u32 \<Rightarrow> nat \<Rightarrow> u32 \<times> string \<Rightarrow> string \<Rightarrow> string" where
  "sd_flag flags len f buf = (if flags AND fst f \<noteq> 0
     then buf @ scnprintf (len - length buf) ((if length buf \<noteq> 0 then '', '' else []) @ drop 3 (snd f)) else buf)"

definition kstep_sd_flags_str :: "(u32 \<times> string) list \<Rightarrow> u32 \<Rightarrow> nat \<Rightarrow> string" where
  "kstep_sd_flags_str names flags len = fold (sd_flag flags len) names []"

definition print_sd_flags :: "(u32 \<times> string) list \<Rightarrow> u32 \<Rightarrow> string" where
  "print_sd_flags names flags = kstep_sd_flags_str names flags 160"

section \<open>The log\<close>

definition pad_left :: "nat \<Rightarrow> string \<Rightarrow> string" where
  "pad_left w s = replicate (w - length s) (CHR '' '') @ s"

definition pad_right :: "nat \<Rightarrow> string \<Rightarrow> string" where
  "pad_right w s = s @ replicate (w - length s) (CHR '' '')"

record report =
  rp_pbl :: "nat set \<Rightarrow> string"
  rp_flag_names :: "(u32 \<times> string) list"
  rp_level_flags :: "string \<Rightarrow> u32 option"
  rp_capacity :: "nat \<Rightarrow> nat"
  rp_domains :: "nat \<Rightarrow> sd_src list"

definition print_cpumask :: "report \<Rightarrow> nat set \<Rightarrow> nat \<Rightarrow> string" where
  "print_cpumask R m width = pad_left width (take 31 (rp_pbl R m))"

definition print_topo_level :: "report \<Rightarrow> topo \<Rightarrow> string \<times> mask_fn \<Rightarrow> string" where
  "print_topo_level R t lv = ''- '' @ pad_right 5 (fst lv) @ ''| ''
     @ concat (map (\<lambda>cpu. print_cpumask R (topo_mask t (snd lv) cpu) 4 @ '' | '') (test_cpus (tp_ncpus t)))
     @ print_sd_flags (rp_flag_names R) (case rp_level_flags R (fst lv) of None \<Rightarrow> 0 | Some f \<Rightarrow> f) @ [newline]"

definition print_topo_levels :: "report \<Rightarrow> topo \<Rightarrow> string" where
  "print_topo_levels R t = ''Topology levels:'' @ [newline] @ concat (map (print_topo_level R t) (tp_table t))"

definition span_of :: "u64 \<Rightarrow> nat set" where
  "span_of w = set (filter (bit w) [0..<64])"

text \<open>The circle of groups, which is never empty, from the first back to it.\<close>

fun print_groups :: "report \<Rightarrow> group_src list \<Rightarrow> string" where
  "print_groups R [] = []"
| "print_groups R (sg # sgs) = print_cpumask R (span_of (go_span sg)) 0 @ '': '' @ dec (unat (go_capacity sg))
     @ (if sgs = [] then [] else '', '') @ print_groups R sgs"

definition print_sched_domain :: "report \<Rightarrow> sd_src \<Rightarrow> string" where
  "print_sched_domain R sd = ''mask='' @ rp_pbl R (span_of (dn_span sd)) @ '', groups={'' @ print_groups R (dn_groups sd)
     @ ''}, flags='' @ print_sd_flags (rp_flag_names R) (ucast (dn_flags sd)) @ [newline]"

definition print_level_domains :: "report \<Rightarrow> string \<Rightarrow> nat \<Rightarrow> string" where
  "print_level_domains R level cpu = concat (map (\<lambda>sd. if dn_name sd \<noteq> level then []
     else ''- '' @ level @ ''['' @ dec cpu @ '']: '' @ print_sched_domain R sd) (rp_domains R cpu))"

definition print_sched_domains :: "report \<Rightarrow> topo \<Rightarrow> string" where
  "print_sched_domains R t = ''Sched domains:'' @ [newline]
     @ concat (map (\<lambda>lv. concat (map (print_level_domains R (fst lv)) (test_cpus (tp_ncpus t)))) (tp_table t))"

definition print_capacities :: "report \<Rightarrow> topo \<Rightarrow> string" where
  "print_capacities R t = ''CPU capacities:'' @ [newline]
     @ concat (map (\<lambda>cpu. ''- CPU '' @ dec cpu @ '': '' @ dec (rp_capacity R cpu) @ [newline]) (test_cpus (tp_ncpus t)))"

definition kstep_topo_print :: "report \<Rightarrow> topo \<Rightarrow> string" where
  "kstep_topo_print R t = print_topo_levels R t @ print_sched_domains R t @ print_capacities R t"

section \<open>A list of flags too long for the buffer is cut\<close>

fun comma_list :: "string list \<Rightarrow> string" where
  "comma_list [] = []"
| "comma_list (s # ss) = s @ concat (map (\<lambda>s. '', '' @ s) ss)"

lemma comma_list_snoc: "comma_list (ss @ [s]) = comma_list ss @ (if ss = [] then [] else '', '') @ s"
  by (cases ss) simp_all

lemma comma_list_Nil_iff: "list_all (\<lambda>s. s \<noteq> []) ss \<Longrightarrow> comma_list ss = [] \<longleftrightarrow> ss = []"
  by (cases ss) simp_all

lemma take_more: "take n xs @ take (n - length (take n xs)) ys = take n (xs @ ys)"
  by (cases "length xs \<le> n") simp_all

definition flag_names :: "(u32 \<times> string) list \<Rightarrow> u32 \<Rightarrow> string list" where
  "flag_names names flags = map (drop 3 \<circ> snd) (filter (\<lambda>f. flags AND fst f \<noteq> 0) names)"

text \<open>
  The text of a set of flags is their names without \<open>SD_\<close>, separated by commas, cut to what the
  buffer holds: the buffer is never written past its end, and nothing else is lost.
\<close>
theorem sd_flags_cut:
  assumes "list_all (\<lambda>f. length (snd f) > 3) names"
  shows "kstep_sd_flags_str names flags len = take (len - 1) (comma_list (flag_names names flags))"
  using assms
proof (induction names rule: rev_induct)
  case (snoc f fs)
  let ?J = "comma_list (flag_names fs flags)" and ?b = "take (len - 1) (comma_list (flag_names fs flags))"
  have ne: "?J = [] \<longleftrightarrow> flag_names fs flags = []"
    using snoc.prems by (intro comma_list_Nil_iff) (auto simp: flag_names_def list_all_iff)
  have sep: "take (len - length ?b - 1) ((if length ?b \<noteq> 0 then '', '' else []) @ s)
      = take (len - 1 - length ?b) ((if ?J = [] then [] else '', '') @ s)" for s
    by (cases "len \<le> 1") auto
  have "sd_flag flags len f ?b = take (len - 1) (comma_list (flag_names (fs @ [f]) flags))"
  proof (cases "flags AND fst f \<noteq> 0")
    case True
    then have "sd_flag flags len f ?b = ?b @ take (len - 1 - length ?b) ((if ?J = [] then [] else '', '') @ drop 3 (snd f))"
      unfolding sd_flag_def scnprintf_def sep by simp
    then show ?thesis using True by (simp only: take_more) (simp add: flag_names_def comma_list_snoc ne[unfolded flag_names_def])
  qed (simp add: sd_flag_def flag_names_def)
  then show ?case using snoc by (simp add: kstep_sd_flags_str_def)
qed (simp add: kstep_sd_flags_str_def flag_names_def)

theorem sd_flags_cut_witness:
  "kstep_sd_flags_str [(1, ''SD_BALANCE_NEWIDLE''), (2, ''SD_BALANCE_EXEC''), (4, ''SD_NUMA'')] 5 160 = ''BALANCE_NEWIDLE, NUMA''
    \<and> kstep_sd_flags_str [(1, ''SD_BALANCE_NEWIDLE''), (2, ''SD_BALANCE_EXEC''), (4, ''SD_NUMA'')] 5 19 = ''BALANCE_NEWIDLE, N''"
  using sd_flags_cut[of "[(1, ''SD_BALANCE_NEWIDLE''), (2, ''SD_BALANCE_EXEC''), (4, ''SD_NUMA'')]" 5]
  by (simp add: flag_names_def)

section \<open>The log is lines\<close>

abbreviation newlines :: "string \<Rightarrow> nat" where "newlines s \<equiv> count_list s newline"

text \<open>What the kernel formats (masks, the names of flags and of levels) is without line breaks.\<close>

definition plain_report :: "report \<Rightarrow> topo \<Rightarrow> bool" where
  "plain_report R t \<longleftrightarrow> (\<forall>m. newline \<notin> set (rp_pbl R m)) \<and> list_all (\<lambda>f. length (snd f) > 3 \<and> newline \<notin> set (snd f)) (rp_flag_names R)
     \<and> list_all (\<lambda>lv. newline \<notin> set (fst lv)) (tp_table t)"

lemma newlines_concat: "newlines (concat ss) = (\<Sum>s\<leftarrow>ss. newlines s)"
  by (induction ss) simp_all

lemma set_comma_list: "set (comma_list ss) \<subseteq> set '', '' \<union> (\<Union>s \<in> set ss. set s)"
  by (cases ss) auto

lemma plain_flags:
  assumes "plain_report R t"
  shows "newline \<notin> set (print_sd_flags (rp_flag_names R) flags)"
proof -
  have "newline \<notin> set s" if "s \<in> set (flag_names (rp_flag_names R) flags)" for s
    using assms that by (auto simp: plain_report_def flag_names_def list_all_iff dest!: in_set_dropD)
  then have "newline \<notin> set (comma_list (flag_names (rp_flag_names R) flags))"
    using set_comma_list[of "flag_names (rp_flag_names R) flags"] by fastforce
  then show ?thesis
    using sd_flags_cut[of "rp_flag_names R" flags 160] assms
    by (auto simp: print_sd_flags_def plain_report_def list_all_iff dest: in_set_takeD)
qed

lemma plain_cpumask: "plain_report R t \<Longrightarrow> newline \<notin> set (print_cpumask R m w)"
  by (auto simp: print_cpumask_def pad_left_def plain_report_def dest: in_set_takeD)

lemma plain_groups: "plain_report R t \<Longrightarrow> newline \<notin> set (print_groups R gs)"
  by (induction gs) (simp_all add: plain_cpumask)

lemmas plain = plain_flags plain_cpumask plain_groups

lemma level_is_a_line:
  assumes "plain_report R t" "lv \<in> set (tp_table t)"
  shows "newlines (print_topo_level R t lv) = 1"
  using assms plain[OF assms(1)] by (auto simp: print_topo_level_def pad_right_def newlines_concat comp_def plain_report_def list_all_iff)

lemma domain_is_a_line:
  assumes "plain_report R t"
  shows "newlines (print_sched_domain R sd) = 1"
  using assms plain[OF assms] by (simp add: print_sched_domain_def plain_report_def)

definition domains_at :: "report \<Rightarrow> string \<Rightarrow> nat \<Rightarrow> nat" where
  "domains_at R level cpu = length (filter (\<lambda>sd. dn_name sd = level) (rp_domains R cpu))"

lemma level_domains_lines:
  assumes "plain_report R t" "newline \<notin> set level"
  shows "newlines (print_level_domains R level cpu) = domains_at R level cpu"
proof -
  have "newlines (concat (map (\<lambda>sd. if dn_name sd \<noteq> level then [] else ''- '' @ level @ ''['' @ dec cpu @ '']: '' @ print_sched_domain R sd) sds))
      = length (filter (\<lambda>sd. dn_name sd = level) sds)" for sds
    using assms by (induction sds) (simp_all add: domain_is_a_line[OF assms(1)])
  then show ?thesis by (simp add: print_level_domains_def domains_at_def)
qed

text \<open>
  The log of a topology is lines: three headings, one for every level of the kernel's table, one for
  every domain of a test CPU at a level, one for every test CPU.
\<close>
theorem topo_print_lines:
  assumes "plain_report R t"
  shows "newlines (kstep_topo_print R t) = 3 + length (tp_table t)
    + (\<Sum>lv\<leftarrow>tp_table t. \<Sum>cpu\<leftarrow>test_cpus (tp_ncpus t). domains_at R (fst lv) cpu) + length (test_cpus (tp_ncpus t))"
proof -
  have n: "newline \<notin> set (fst lv)" if "lv \<in> set (tp_table t)" for lv using assms that by (auto simp: plain_report_def list_all_iff)
  have "newlines (print_topo_levels R t) = 1 + length (tp_table t)"
    using level_is_a_line[OF assms] by (simp add: print_topo_levels_def newlines_concat comp_def sum_list_triv cong: map_cong)
  moreover have "newlines (print_sched_domains R t) = 1 + (\<Sum>lv\<leftarrow>tp_table t. \<Sum>cpu\<leftarrow>test_cpus (tp_ncpus t). domains_at R (fst lv) cpu)"
    using level_domains_lines[OF assms n] by (simp add: print_sched_domains_def newlines_concat comp_def cong: map_cong)
  moreover have "newlines (print_capacities R t) = 1 + length (test_cpus (tp_ncpus t))"
    by (simp add: print_capacities_def newlines_concat comp_def sum_list_triv)
  ultimately show ?thesis by (simp add: kstep_topo_print_def)
qed

theorem topo_print_lines_witness:
  "newlines (kstep_topo_print \<lparr>rp_pbl = (\<lambda>_. ''1-2''), rp_flag_names = [(1, ''SD_BALANCE_NEWIDLE'')], rp_level_flags = (\<lambda>_. Some 1), rp_capacity = (\<lambda>_. 1024),
      rp_domains = (\<lambda>_. [])\<rparr> \<lparr>tp_ncpus = 2, tp_masks = (\<lambda>_ _. {1, 2}), tp_table = [(''MC'', Kstep_masks KSTEP_TOPO_MC)], tp_caps = (\<lambda>_. 1024),
      tp_siblings = (\<lambda>_. {}), tp_rebuilds = 0, tp_slices = [], tp_looked_up = True\<rparr>) = 6"
  by (subst topo_print_lines) (simp_all add: plain_report_def domains_at_def test_cpus_def)

end
