(* ===== verification/Driver_Lang.thy ===== *)
theory Driver_Lang
  imports Tick Topo
begin

text \<open>
  The drivers' programs (kmod/drivers): a driver is a sequence of calls into the module, branching and
  waiting on what it reads of the kernel. Here are the calls of kmod/driver.h, the programs, their
  runs on a machine, and a check of a program that holds for every run of it.
\<close>

section \<open>Calls and programs\<close>

datatype watch_at = At_tick_begin | At_tick_end | At_softirq_begin | At_softirq_end | At_balance_selected

text \<open>
  Tasks are numbered in the order the driver creates them. \<open>Base_slice_times n\<close> is a driver writing
  the kernel's base slice itself, \<open>Verdict\<close> is \<open>kstep_pass\<close> or \<open>kstep_fail\<close> with its format.
\<close>

datatype call =
    Create | Wakeup nat | Pause nat | Block nat | Freeze nat | Chan_read nat | Chan_write nat
  | Affinity nat string | Fair nat int int | Rt nat int int | Uclamp nat nat nat
  | Cg_create string | Cg_weight string int | Cg_move string nat | Cg_write string string string | Cg_destroy string
  | Topo string | Freq nat nat | Sysctl string int | Base_slice_times nat
  | Watch watch_at string | Tick | Tick_repeat nat | Verdict bool string

text \<open>
  \<open>Branch\<close> and \<open>Until\<close> (\<open>kstep_tick_until\<close>) test the machine; \<open>Panic\<close> ends the run.
\<close>

datatype 'm step = Act call | Branch "'m \<Rightarrow> bool" "'m step list" "'m step list" | Until "'m \<Rightarrow> bool" | Panic string

record 'm driver =
  dv_name :: string
  dv_setup :: "'m step list"
  dv_run :: "'m step list"
  dv_tick_interval_ns :: u64
  dv_versions :: "nat \<Rightarrow> bool"

section \<open>Runs\<close>

text \<open>A machine is what each call does to it, which may panic or never return; a run keeps the calls made.\<close>

type_synonym 'm calls = "call \<Rightarrow> 'm \<Rightarrow> 'm run"

definition do_call :: "'m calls \<Rightarrow> call \<Rightarrow> 'm \<times> call list \<Rightarrow> ('m \<times> call list) run" where
  "do_call K c s = bind_run (K c (fst s)) (\<lambda>m. Some (Inr (m, snd s @ [c])))"

partial_function (option) tick_until :: "'m calls \<Rightarrow> ('m \<Rightarrow> bool) \<Rightarrow> 'm \<times> call list \<Rightarrow> ('m \<times> call list) run" where
  "tick_until K fn s = (if fn (fst s) then Some (Inr s)
     else (case do_call K Tick s of None \<Rightarrow> None | Some (Inl e) \<Rightarrow> Some (Inl e) | Some (Inr s') \<Rightarrow> tick_until K fn s'))"

fun exec :: "'m calls \<Rightarrow> 'm step list \<Rightarrow> 'm \<times> call list \<Rightarrow> ('m \<times> call list) run" where
  "exec K [] s = Some (Inr s)"
| "exec K (Act c # ss) s = bind_run (do_call K c s) (\<lambda>s. exec K ss s)"
| "exec K (Branch p a b # ss) s = bind_run (if p (fst s) then exec K a s else exec K b s) (\<lambda>s. exec K ss s)"
| "exec K (Until p # ss) s = bind_run (tick_until K p s) (\<lambda>s. exec K ss s)"
| "exec K (Panic e # ss) s = Some (Inl e)"

lemma tick_until_induct:
  fixes K :: "'m calls"
  assumes "tick_until K fn s = Some (Inr s')"
    and stop: "\<And>s. fn (fst s) \<Longrightarrow> P s s"
    and step: "\<And>s s1 s'. do_call K Tick s = Some (Inr s1) \<Longrightarrow> P s1 s' \<Longrightarrow> P s s'"
  shows "P s s'"
proof -
  let ?Q = "\<lambda>K' fn' s r. K' = K \<longrightarrow> fn' = fn \<longrightarrow> (\<forall>s'. r = (Inr s' :: ('m \<times> call list) outcome) \<longrightarrow> P s s')"
  have "?Q K fn s (Inr s')"
  proof (rule tick_until.raw_induct[of ?Q, OF _ assms(1)])
    fix f K' fn' s r
    assume ih: "\<And>K' fn' s r. f K' fn' s = Some r \<Longrightarrow> ?Q K' fn' s r"
      and run: "(if fn' (fst s) then Some (Inr s)
        else (case do_call K' Tick s of None \<Rightarrow> None | Some (Inl e) \<Rightarrow> Some (Inl e) | Some (Inr s') \<Rightarrow> f K' fn' s')) = Some r"
    have "P s s'" if k: "K' = K" "fn' = fn" "r = Inr s'" for s'
    proof (cases "fn (fst s)")
      case True
      then show ?thesis using run k stop by auto
    next
      case False
      then obtain s1 where "do_call K Tick s = Some (Inr s1)" "f K fn s1 = Some (Inr s')"
        using run k by (auto split: option.splits sum.splits)
      then show ?thesis using ih step by blast
    qed
    then show "?Q K' fn' s r" by blast
  qed
  then show ?thesis by blast
qed

text \<open>
  What holds of every call holds of every run: a client of a machine says what each call does, and
  that it composes.
\<close>

locale call_rule =
  fixes K :: "'m calls" and R :: "call list \<Rightarrow> 'm \<Rightarrow> 'm \<Rightarrow> bool"
  assumes rule_nil: "R [] m m"
    and rule_call: "K c m = Some (Inr m') \<Longrightarrow> R [c] m m'"
    and rule_trans: "R cs m m1 \<Longrightarrow> R ds m1 m2 \<Longrightarrow> R (cs @ ds) m m2"
begin

definition run_rule :: "'m \<times> call list \<Rightarrow> 'm \<times> call list \<Rightarrow> bool" where
  "run_rule s s' \<longleftrightarrow> (\<exists>cs. snd s' = snd s @ cs \<and> R cs (fst s) (fst s'))"

lemma run_rule_refl: "run_rule s s"
  using rule_nil by (simp add: run_rule_def)

lemma run_rule_trans: "run_rule s s1 \<Longrightarrow> run_rule s1 s2 \<Longrightarrow> run_rule s s2"
  unfolding run_rule_def using rule_trans by (metis append.assoc)

lemma do_call_rule: "do_call K c s = Some (Inr s') \<Longrightarrow> run_rule s s'"
  using rule_call by (auto simp: do_call_def bind_run_returns run_rule_def)

lemma tick_until_rule: "tick_until K fn s = Some (Inr s') \<Longrightarrow> run_rule s s'"
  by (erule tick_until_induct) (use run_rule_refl do_call_rule run_rule_trans in blast)+

lemma exec_rule: "exec K ss s = Some (Inr s') \<Longrightarrow> run_rule s s'"
proof -
  have "K' = K \<Longrightarrow> exec K' ss s = Some (Inr s') \<Longrightarrow> run_rule s s'" for K'
  proof (induction K' ss s arbitrary: s' rule: exec.induct)
    case (1 K' s)
    then show ?case using run_rule_refl by simp
  next
    case (2 K' c ss s)
    from 2(3) obtain s1 where "do_call K' c s = Some (Inr s1)" "exec K' ss s1 = Some (Inr s')" by (auto simp: bind_run_returns)
    then show ?case using 2(1)[OF 2(2)] do_call_rule run_rule_trans unfolding 2(2) by blast
  next
    case (3 K' p a b ss s)
    from 3(5) obtain s1 where s1: "(if p (fst s) then exec K' a s else exec K' b s) = Some (Inr s1)" "exec K' ss s1 = Some (Inr s')"
      by (auto simp: bind_run_returns)
    have "run_rule s s1" using s1(1) 3(1,2,4) by (simp split: if_splits)
    then show ?case using 3(3)[OF 3(4) s1(2)] run_rule_trans by blast
  next
    case (4 K' p ss s)
    from 4(3) obtain s1 where "tick_until K' p s = Some (Inr s1)" "exec K' ss s1 = Some (Inr s')" by (auto simp: bind_run_returns)
    then show ?case using 4(1)[OF 4(2)] tick_until_rule run_rule_trans unfolding 4(2) by blast
  qed simp
  then show "exec K ss s = Some (Inr s') \<Longrightarrow> run_rule s s'" by blast
qed

end

lemma tick_until_ticks:
  assumes "tick_until K fn s = Some (Inr s')"
  shows "\<exists>n. snd s' = snd s @ replicate n Tick \<and> fn (fst s')"
  using assms
proof (rule tick_until_induct)
  fix s :: "'a \<times> call list"
  assume "fn (fst s)"
  then show "\<exists>n. snd s = snd s @ replicate n Tick \<and> fn (fst s)" by (intro exI[of _ 0]) simp
next
  fix s s1 s' :: "'a \<times> call list"
  assume c: "do_call K Tick s = Some (Inr s1)" and "\<exists>n. snd s' = snd s1 @ replicate n Tick \<and> fn (fst s')"
  then obtain n where "snd s' = snd s1 @ replicate n Tick" "fn (fst s')" by blast
  then show "\<exists>n. snd s' = snd s @ replicate n Tick \<and> fn (fst s')"
    using c by (intro exI[of _ "Suc n"]) (auto simp: do_call_def bind_run_returns)
qed

section \<open>The check\<close>

text \<open>
  What a driver has built so far: the cgroup each task is in, the root's name being empty, and the
  cgroups that exist.
\<close>

record denv =
  de_tasks :: "string list"
  de_groups :: "string list"

definition denv_zero :: denv where
  "denv_zero = \<lparr>de_tasks = [], de_groups = []\<rparr>"

definition parent_group :: "string \<Rightarrow> string" where
  "parent_group g = rev (tl (dropWhile (\<lambda>c. c \<noteq> CHR ''/'') (rev g)))"

text \<open>
  When a call is in order: it names a task that has been created, a cgroup that exists, a new one
  below one that does, a removed one that is empty; CPUs that are test CPUs, policies, priorities,
  weights and scales in their ranges.
\<close>

fun call_ok :: "klib \<Rightarrow> nat \<Rightarrow> denv \<Rightarrow> call \<Rightarrow> bool" where
  "call_ok L n e (Wakeup t) = (t < length (de_tasks e))"
| "call_ok L n e (Pause t) = (t < length (de_tasks e))"
| "call_ok L n e (Block t) = (t < length (de_tasks e))"
| "call_ok L n e (Freeze t) = (t < length (de_tasks e))"
| "call_ok L n e (Chan_read t) = (t < length (de_tasks e))"
| "call_ok L n e (Chan_write t) = (t < length (de_tasks e))"
| "call_ok L n e (Affinity t cpus) = (t < length (de_tasks e) \<and> kstep_parse_cpus L n (Some cpus) \<noteq> None)"
| "call_ok L n e (Fair t policy nice) = (t < length (de_tasks e) \<and> policy \<in> {0, 3, 5} \<and> -20 \<le> nice \<and> nice \<le> 19)"
| "call_ok L n e (Rt t policy prio) = (t < length (de_tasks e) \<and> policy \<in> {1, 2} \<and> 1 \<le> prio \<and> prio \<le> 99)"
| "call_ok L n e (Uclamp t lo hi) = (t < length (de_tasks e) \<and> lo \<le> hi \<and> hi \<le> 1024)"
| "call_ok L n e (Cg_create g) = (g \<notin> set (de_groups e) \<and> g \<noteq> [] \<and> (parent_group g = [] \<or> parent_group g \<in> set (de_groups e)))"
| "call_ok L n e (Cg_weight g w) = (g \<in> set (de_groups e) \<and> 1 \<le> w \<and> w \<le> 10000)"
| "call_ok L n e (Cg_move g t) = ((g = [] \<or> g \<in> set (de_groups e)) \<and> t < length (de_tasks e))"
| "call_ok L n e (Cg_write g f v) = (g \<in> set (de_groups e))"
| "call_ok L n e (Cg_destroy g) = (g \<in> set (de_groups e) \<and> g \<notin> set (de_tasks e) \<and> list_all (\<lambda>h. parent_group h \<noteq> g) (de_groups e))"
| "call_ok L n e (Freq cpu scale) = (1 \<le> cpu \<and> cpu \<le> n \<and> 1 \<le> scale \<and> scale \<le> 1024)"
| "call_ok L n e (Base_slice_times k) = (0 < k)"
| "call_ok L n e _ = True"

fun call_env :: "denv \<Rightarrow> call \<Rightarrow> denv" where
  "call_env e Create = e\<lparr>de_tasks := de_tasks e @ [[]]\<rparr>"
| "call_env e (Cg_create g) = e\<lparr>de_groups := g # de_groups e\<rparr>"
| "call_env e (Cg_move g t) = e\<lparr>de_tasks := (de_tasks e)[t := g]\<rparr>"
| "call_env e (Cg_destroy g) = e\<lparr>de_groups := removeAll g (de_groups e)\<rparr>"
| "call_env e _ = e"

text \<open>A list of calls in order, one after the other.\<close>

fun calls_env :: "klib \<Rightarrow> nat \<Rightarrow> denv \<Rightarrow> call list \<Rightarrow> denv option" where
  "calls_env L n e [] = Some e"
| "calls_env L n e (c # cs) = (if call_ok L n e c then calls_env L n (call_env e c) cs else None)"

text \<open>
  A program in order: \<open>None\<close> where a call is not, \<open>Some None\<close> where it never goes on (it panics),
  else what it has built, the same on both branches.
\<close>

fun check :: "klib \<Rightarrow> nat \<Rightarrow> denv \<Rightarrow> 'm step list \<Rightarrow> denv option option" where
  "check L n e [] = Some (Some e)"
| "check L n e (Act c # ss) = (if call_ok L n e c then check L n (call_env e c) ss else None)"
| "check L n e (Branch p a b # ss) = (case (check L n e a, check L n e b) of
     (Some (Some e1), Some (Some e2)) \<Rightarrow> if e1 = e2 then check L n e1 ss else None
   | (Some (Some e1), Some None) \<Rightarrow> check L n e1 ss
   | (Some None, Some (Some e2)) \<Rightarrow> check L n e2 ss
   | (Some None, Some None) \<Rightarrow> Some None
   | _ \<Rightarrow> None)"
| "check L n e (Until p # ss) = check L n e ss"
| "check L n e (Panic msg # ss) = Some None"

lemma calls_env_append: "calls_env L n e (cs @ ds) = (case calls_env L n e cs of None \<Rightarrow> None | Some e \<Rightarrow> calls_env L n e ds)"
  by (induction cs arbitrary: e) auto

lemma calls_env_ticks [simp]: "calls_env L n e (replicate k Tick) = Some e"
  by (induction k) auto

text \<open>The calls a run adds are in order, and build what the check says.\<close>

definition in_order :: "klib \<Rightarrow> nat \<Rightarrow> denv \<Rightarrow> denv option \<Rightarrow> 'm \<times> call list \<Rightarrow> 'm \<times> call list \<Rightarrow> bool" where
  "in_order L n e r s s' \<longleftrightarrow> (\<exists>cs e'. snd s' = snd s @ cs \<and> calls_env L n e cs = Some e' \<and> r = Some e')"

lemma in_order_trans: "in_order L n e (Some e1) s s1 \<Longrightarrow> in_order L n e1 r s1 s2 \<Longrightarrow> in_order L n e r s s2"
  by (fastforce simp: in_order_def calls_env_append)

lemma in_order_call: "call_ok L n e c \<Longrightarrow> do_call K c s = Some (Inr s') \<Longrightarrow> in_order L n e (Some (call_env e c)) s s'"
  by (auto simp: in_order_def do_call_def bind_run_returns)

lemma check_sound:
  "check L n e ss = Some r \<Longrightarrow> exec K ss s = Some (Inr s') \<Longrightarrow> in_order L n e r s s'"
proof (induction K ss s arbitrary: e r s' rule: exec.induct)
  case (1 K s)
  then show ?case by (auto simp: in_order_def)
next
  case (2 K c ss s)
  then have c: "call_ok L n e c" "check L n (call_env e c) ss = Some r" by (auto split: if_splits)
  obtain s1 where s1: "do_call K c s = Some (Inr s1)" "exec K ss s1 = Some (Inr s')" using 2(3) by (auto simp: bind_run_returns)
  show ?case using in_order_trans[OF in_order_call[OF c(1) s1(1)] 2(1)[OF c(2) s1(2)]] .
next
  case (3 K p a b ss s)
  obtain s1 where s1: "(if p (fst s) then exec K a s else exec K b s) = Some (Inr s1)" "exec K ss s1 = Some (Inr s')"
    using 3(5) by (auto simp: bind_run_returns)
  obtain ra rb where c: "check L n e a = Some ra" "check L n e b = Some rb" using 3(4) by (auto split: option.splits)
  have o: "in_order L n e (if p (fst s) then ra else rb) s s1" using 3(1,2) c s1(1) by (auto split: if_splits)
  then obtain e1 where e1: "(if p (fst s) then ra else rb) = Some e1" by (auto simp: in_order_def)
  then have "check L n e1 ss = Some r" using 3(4) c by (auto split: if_splits option.splits)
  then show ?case using in_order_trans[OF o[unfolded e1]] 3(3) s1(2) by blast
next
  case (4 K p ss s)
  then obtain s1 where s1: "tick_until K p s = Some (Inr s1)" "exec K ss s1 = Some (Inr s')" by (auto simp: bind_run_returns)
  obtain k where "snd s1 = snd s @ replicate k Tick" using tick_until_ticks[OF s1(1)] by blast
  then have "in_order L n e (Some e) s s1" by (simp add: in_order_def)
  moreover have "in_order L n e r s1 s'" using 4(1)[OF _ s1(2)] 4(2) by simp
  ultimately show ?case by (rule in_order_trans)
next
  case (5 K msg ss s)
  then show ?case by simp
qed

lemma check_append:
  "check L n e (ss @ ts) = (case check L n e ss of None \<Rightarrow> None | Some None \<Rightarrow> Some None | Some (Some e) \<Rightarrow> check L n e ts)"
  by (induction L n e ss rule: check.induct) (auto split: option.splits)

lemma check_acts: "check L n e (map Act cs) = map_option Some (calls_env L n e cs)"
  by (induction cs arbitrary: e) auto

end
