(* ===== verification/Drivers.thy ===== *)
theory Drivers
  imports Driver_Lang Reset Json "HOL-Library.Tree"
begin

text \<open>
  The drivers of kmod/drivers, each a program of the calls it makes, in the order of its source. What
  a driver reads of the kernel is a view of the machine, an argument; messages are the formats of the
  code; tracing and printing to the log have no effect.
\<close>

section \<open>What a driver reads\<close>

text \<open>
  Of a task: whether it is on a CPU, which CPU, whether its own entity (0) or the group entities
  above it (1, 2) exist, are eligible or are delayed, its clamp, its slice and its vruntime, its
  group entity's vruntime. Of CPU 1: the task that is the fair queue's current one, whether it idles,
  its counters (\<open>h_nr_runnable\<close>, \<open>h_nr_running\<close>, \<open>h_nr_delayed\<close>), the tasks in its limbo list, its
  averages (\<open>avg_vruntime\<close>, \<open>avg_load\<close>), the weight and vruntime of its current entity when that is
  queued, its base vruntime, and its timeline as the red-black tree of deadlines and their minima.
\<close>

record 'm view =
  vw_on_cpu :: "nat \<Rightarrow> 'm \<Rightarrow> bool"
  vw_task_cpu :: "nat \<Rightarrow> 'm \<Rightarrow> nat"
  vw_eligible :: "nat \<Rightarrow> nat \<Rightarrow> 'm \<Rightarrow> bool"
  vw_has_parent :: "nat \<Rightarrow> 'm \<Rightarrow> bool"
  vw_delayed :: "nat \<Rightarrow> nat \<Rightarrow> 'm \<Rightarrow> bool"
  vw_uclamp :: "nat \<Rightarrow> 'm \<Rightarrow> bool \<times> bool"
  vw_vruntime :: "nat \<Rightarrow> nat \<Rightarrow> 'm \<Rightarrow> u64"
  vw_stale_slice :: "nat \<Rightarrow> 'm \<Rightarrow> bool"
  vw_curr :: "nat \<Rightarrow> 'm \<Rightarrow> bool"
  vw_h_nr :: "'m \<Rightarrow> u32 \<times> u32 \<times> u32"
  vw_limbo :: "nat \<Rightarrow> 'm \<Rightarrow> nat list"
  vw_avg :: "'m \<Rightarrow> u64 \<times> u64"
  vw_curr_entity :: "'m \<Rightarrow> (u64 \<times> u64) option"
  vw_min_vruntime :: "'m \<Rightarrow> u64"
  vw_zero_vruntime :: "'m \<Rightarrow> u64"
  vw_timeline :: "'m \<Rightarrow> (u64 \<times> u64) tree"

text \<open>
  Eligibility is asked through \<open>kstep_eligible\<close>, which panics on kernels before 6.6; \<open>vw_eligible\<close> is
  its answer on the others.
\<close>

definition kstep_eligible :: "nat \<Rightarrow> ('se \<Rightarrow> bool) \<Rightarrow> 'se \<Rightarrow> bool outcome" where
  "kstep_eligible v entity_eligible se = (if v \<ge> KERNEL_VERSION 6 6 0 then Inr (entity_eligible se) else Inl ''unsupported kernel'')"

abbreviation always :: "nat \<Rightarrow> bool" where "always \<equiv> \<lambda>_. True"

text \<open>A loop over the first \<open>n\<close> tasks.\<close>

definition for_tasks :: "nat \<Rightarrow> (nat \<Rightarrow> call list) \<Rightarrow> 'm step list" where
  "for_tasks n f = map Act (concat (map f [0..<n]))"

section \<open>The drivers\<close>

definition default_driver :: "'m driver" where
  "default_driver = \<lparr>dv_name = ''default'', dv_setup = [],
     dv_run = for_tasks 10 (\<lambda>i. [Create]) @ for_tasks 10 (\<lambda>i. [Wakeup i]) @ [Act Tick] @ map Act (replicate 100 Tick),
     dv_tick_interval_ns = 0, dv_versions = always\<rparr>"

definition extra_balance :: "'m driver" where
  "extra_balance = \<lparr>dv_name = ''extra_balance'',
     dv_setup = map Act [Watch At_tick_begin ''kstep_output_nr_running'', Watch At_balance_selected ''kstep_check_extra_balance'',
       Topo ''SMT=1,2|3,4;CLS=1-2|3-4''] @ for_tasks 5 (\<lambda>i. [Create]),
     dv_run = map Act [Affinity 0 ''1'', Affinity 1 ''3'', Affinity 2 ''3'', Affinity 3 ''3'', Affinity 4 ''4''] @ for_tasks 5 (\<lambda>i. [Wakeup i])
       @ map Act [Tick_repeat 500, Affinity 1 ''1-3'', Affinity 2 ''1-3'', Affinity 3 ''1-3'', Tick_repeat 500],
     dv_tick_interval_ns = 0, dv_versions = always\<rparr>"

text \<open>The task \<open>kstep_tick_until\<close> returns: the first of those the condition holds of.\<close>

fun first_of :: "nat list \<Rightarrow> (nat \<Rightarrow> 'm \<Rightarrow> bool) \<Rightarrow> (nat \<Rightarrow> 'm step list) \<Rightarrow> 'm step list \<Rightarrow> 'm step list" where
  "first_of [] p f g = g"
| "first_of (t # ts) p f g = [Branch (p t) (f t) (first_of ts p f g)]"

definition freeze_ineligible :: "'m view \<Rightarrow> nat \<Rightarrow> 'm \<Rightarrow> bool" where
  "freeze_ineligible V t m \<longleftrightarrow> vw_on_cpu V t m \<and> \<not> vw_eligible V t 0 m"

definition freeze :: "'m view \<Rightarrow> 'm driver" where
  "freeze V = \<lparr>dv_name = ''freeze'', dv_setup = Act (Watch At_tick_begin ''kstep_output_curr_task'') # for_tasks 3 (\<lambda>i. [Create]),
     dv_run = for_tasks 3 (\<lambda>i. [Wakeup i]) @ [Until (\<lambda>m. list_ex (\<lambda>t. freeze_ineligible V t m) [0, 1, 2])]
       @ first_of [0, 1, 2] (freeze_ineligible V) (\<lambda>t. map Act [Block t, Freeze t, Wakeup t]) [] @ [Act (Tick_repeat 30)],
     dv_tick_interval_ns = 0, dv_versions = always\<rparr>"

definition group_ineligible :: "'m view \<Rightarrow> 'm \<Rightarrow> bool" where
  "group_ineligible V m \<longleftrightarrow> vw_on_cpu V 0 m \<and> vw_has_parent V 0 m \<and> \<not> vw_delayed V 0 1 m \<and> \<not> vw_eligible V 0 1 m \<and> vw_eligible V 0 0 m"

definition nr_runnable :: "nat \<Rightarrow> 'm view \<Rightarrow> 'm \<Rightarrow> int" where
  "nr_runnable v V m = (case vw_h_nr V m of (runnable, running, delayed) \<Rightarrow>
     sint (if v \<ge> KERNEL_VERSION 6 14 0 then runnable else running - delayed))"

definition h_nr_runnable :: "nat \<Rightarrow> 'm view \<Rightarrow> 'm driver" where
  "h_nr_runnable v V = \<lparr>dv_name = ''h_nr_runnable'',
     dv_setup = map Act [Watch At_tick_begin ''on_tick_begin'', Cg_create ''g0'', Cg_create ''g1'', Create, Create, Cg_move ''g0'' 0, Cg_move ''g1'' 1],
     dv_run = map Act [Wakeup 0, Wakeup 1, Tick_repeat 5] @ [Until (group_ineligible V), Act (Pause 0),
       Branch (\<lambda>m. nr_runnable v V m = 1) [Act (Verdict True ''h_nr_runnable == %u'')] [Act (Verdict False ''h_nr_runnable == %u'')],
       Act (Tick_repeat 11)],
     dv_tick_interval_ns = 0, dv_versions = (\<lambda>v. v \<ge> KERNEL_VERSION 6 13 0)\<rparr>"

definition lag_vruntime :: "'m driver" where
  "lag_vruntime = \<lparr>dv_name = ''lag_vruntime'', dv_setup = map Act [Watch At_tick_begin ''on_tick_begin'', Create, Create],
     dv_run = map Act [Cg_create ''g0'', Cg_move ''g0'' 0, Fair 1 0 19, Wakeup 1, Wakeup 0, Tick_repeat 5, Cg_weight ''g0'' 10000, Tick_repeat 5],
     dv_tick_interval_ns = 0, dv_versions = always\<rparr>"

definition long_balance :: "'m driver" where
  "long_balance = \<lparr>dv_name = ''long_balance'',
     dv_setup = map Act [Watch At_softirq_begin ''on_sched_softirq_begin'', Watch At_softirq_end ''on_sched_softirq_end'']
       @ for_tasks 20000 (\<lambda>i. [Create, Affinity i ''1'', Wakeup i]),
     dv_run = [Act (Tick_repeat 2000)], dv_tick_interval_ns = 0, dv_versions = always\<rparr>"

definition even_idle_cpu :: "'m driver" where
  "even_idle_cpu = \<lparr>dv_name = ''even_idle_cpu'',
     dv_setup = map Act [Watch At_tick_begin ''kstep_output_nr_running'', Watch At_balance_selected ''kstep_output_balance'',
       Topo ''CLS=1-2|3-4;CAP=2,4:512''] @ for_tasks 4 (\<lambda>i. [Create]),
     dv_run = map Act [Affinity 0 ''1'', Affinity 1 ''3'', Affinity 2 ''3'', Affinity 3 ''4''] @ for_tasks 4 (\<lambda>i. [Wakeup i])
       @ map Act [Tick_repeat 50, Affinity 1 ''2-3'', Affinity 2 ''2-3'', Tick_repeat 250],
     dv_tick_interval_ns = 0, dv_versions = always\<rparr>"

definition local_group_imbalance :: "'m driver" where
  "local_group_imbalance = \<lparr>dv_name = ''local_group_imbalance'',
     dv_setup = map Act [Watch At_tick_end ''kstep_output_nr_running'', Watch At_balance_selected ''kstep_output_balance'', Topo ''CLS=1-2|3-4'']
       @ for_tasks 6 (\<lambda>i. [Create])
       @ map Act [Affinity 0 ''4'', Affinity 1 ''4'', Affinity 2 ''4'', Affinity 3 ''1-2'', Affinity 4 ''1-2'', Affinity 5 ''1-2''],
     dv_run = for_tasks 6 (\<lambda>i. [Wakeup i]) @ map Act [Tick_repeat 10, Affinity 3 ''1-4'', Affinity 4 ''1-4'', Affinity 5 ''1-4'', Tick_repeat 400],
     dv_tick_interval_ns = 0, dv_versions = always\<rparr>"

abbreviation WAKE_TICKS :: nat where "WAKE_TICKS \<equiv> 200"
abbreviation SLEEP_TICKS :: nat where "SLEEP_TICKS \<equiv> 1"
abbreviation CYCLES :: nat where "CYCLES \<equiv> 10"

definition util_avg_jump :: "'m driver" where
  "util_avg_jump = \<lparr>dv_name = ''util_avg_jump'', dv_setup = map Act [Watch At_tick_begin ''on_tick_begin'', Create, Freq 1 512],
     dv_run = map Act [Rt 0 1 80, Wakeup 0, Tick_repeat WAKE_TICKS]
       @ for_tasks CYCLES (\<lambda>i. [Pause 0, Tick_repeat SLEEP_TICKS, Wakeup 0] @ (if i < CYCLES - 1 then [Tick_repeat WAKE_TICKS] else [])),
     dv_tick_interval_ns = 0, dv_versions = (\<lambda>v. v \<ge> KERNEL_VERSION 6 18 0)\<rparr>"

definition rt_runtime_toggle :: "'m driver" where
  "rt_runtime_toggle = \<lparr>dv_name = ''rt_runtime_toggle'', dv_setup = map Act [Watch At_tick_begin ''kstep_output_curr_task'', Create],
     dv_run = map Act [Sysctl ''kernel.sched_rt_runtime_us'' (-1), Rt 0 1 80, Wakeup 0, Sysctl ''kernel.sched_rt_runtime_us'' 950000, Tick_repeat 1501],
     dv_tick_interval_ns = 0, dv_versions = always\<rparr>"

definition slice_update :: "'m view \<Rightarrow> 'm driver" where
  "slice_update V = \<lparr>dv_name = ''slice_update'', dv_setup = [Act Create],
     dv_run = map Act [Base_slice_times 10, Wakeup 0]
       @ [Branch (vw_stale_slice V 0) [Act (Verdict False ''stale slice: got=%llu expected=%u'')] [Act (Verdict True ''slice updated: got=%llu expected=%u'')]],
     dv_tick_interval_ns = 0, dv_versions = (\<lambda>v. v \<ge> KERNEL_VERSION 6 6 0)\<rparr>"

definition sync_wakeup :: "'m view \<Rightarrow> 'm driver" where
  "sync_wakeup V = \<lparr>dv_name = ''sync_wakeup'',
     dv_setup = map Act [Watch At_tick_begin ''kstep_output_curr_task'', Create, Create, Create, Affinity 1 ''1'', Affinity 2 ''2''],
     dv_run = map Act [Affinity 0 ''1'', Wakeup 0, Wakeup 1, Affinity 2 ''1-2'', Wakeup 2, Chan_read 2, Tick_repeat 20]
       @ [Until (\<lambda>m. vw_on_cpu V 0 m \<and> \<not> vw_eligible V 0 0 m)]
       @ map Act [Pause 0, Chan_write 1, Pause 1, Tick_repeat 1, Tick_repeat 9],
     dv_tick_interval_ns = 0, dv_versions = always\<rparr>"

text \<open>A loop of at most \<open>n\<close> ticks that stops after the tick at which the condition holds, or before it.\<close>

fun tick_then_break :: "nat \<Rightarrow> ('m \<Rightarrow> bool) \<Rightarrow> 'm step list" where
  "tick_then_break 0 p = []"
| "tick_then_break (Suc n) p = [Act Tick, Branch p [] (tick_then_break n p)]"

fun break_or_tick :: "nat \<Rightarrow> ('m \<Rightarrow> bool) \<Rightarrow> 'm step list" where
  "break_or_tick 0 p = []"
| "break_or_tick (Suc n) p = [Branch p [] (Act Tick # break_or_tick n p)]"

fun count_limbo :: "nat list \<Rightarrow> nat \<Rightarrow> nat" where
  "count_limbo [] n = n"
| "count_limbo (p # ps) n = count_limbo ps (n + 1)"

definition throttled_limbo_list :: "'m view \<Rightarrow> 'm driver" where
  "throttled_limbo_list V = \<lparr>dv_name = ''throttled_limbo_list'',
     dv_setup = for_tasks 3 (\<lambda>i. [Create]) @ map Act [Create, Cg_create ''A'', Cg_create ''A/B'', Cg_create ''A/B/C''],
     dv_run = for_tasks 3 (\<lambda>i. [Affinity i ''1'', Cg_move ''A/B/C'' i, Wakeup i])
       @ map Act [Affinity 3 ''2'', Cg_move ''A/B/C'' 3, Cg_write ''A'' ''cpu.max'' ''5000 100000'', Cg_write ''A/B/C'' ''cpu.max'' ''100000 100000'']
       @ tick_then_break 200 (\<lambda>m. count_limbo (vw_limbo V 0 m) 0 \<ge> 2)
       @ [Branch (\<lambda>m. count_limbo (vw_limbo V 0 m) 0 < 2) [Panic ''need >= 2 limbo tasks, got %d''] []]
       @ map Act [Cg_write ''A/B/C'' ''cpu.max'' ''1000 100000'', Wakeup 3, Tick_repeat 120],
     dv_tick_interval_ns = 0, dv_versions = (\<lambda>v. v \<ge> KERNEL_VERSION 6 18 0)\<rparr>"

definition uclamp_inversion :: "'m view \<Rightarrow> 'm driver" where
  "uclamp_inversion V = \<lparr>dv_name = ''uclamp_inversion'',
     dv_setup = map Act [Watch At_tick_begin ''on_tick_begin'', Create, Cg_create ''uclamp'', Cg_write ''uclamp'' ''cpu.uclamp.min'' ''0.00'',
       Cg_write ''uclamp'' ''cpu.uclamp.max'' ''20.00'', Cg_move ''uclamp'' 0, Uclamp 0 (1024 * 80 div 100) (1024 * 100 div 100)],
     dv_run = [Act (Wakeup 0), Branch (\<lambda>m. fst (vw_uclamp V 0 m) \<and> snd (vw_uclamp V 0 m)) [] [Panic ''uclamp did not become active for pid %d''],
       Act (Tick_repeat 101)],
     dv_tick_interval_ns = 0, dv_versions = always\<rparr>"

definition util_avg :: "'m driver" where
  "util_avg = \<lparr>dv_name = ''util_avg'', dv_setup = Act (Watch At_tick_begin ''on_tick_begin'') # for_tasks 2 (\<lambda>i. [Create]),
     dv_run = map Act [Rt 0 1 80, Wakeup 0, Freq 1 512, Tick_repeat 600, Pause 0, Tick_repeat 2, Rt 1 1 80, Wakeup 1, Tick_repeat 600],
     dv_tick_interval_ns = 0, dv_versions = always\<rparr>"

text \<open>
  \<open>find_running\<close> may find none and return -1, which the code then uses as an index: the reads of
  \<open>tasks[-1]\<close> and \<open>names[-1]\<close> are undefined, a panic here.
\<close>

definition group_name :: "nat \<Rightarrow> string" where
  "group_name i = ''g'' @ dec i"

definition drift :: "'m view \<Rightarrow> nat \<Rightarrow> nat \<Rightarrow> 'm \<Rightarrow> u64" where
  "drift V i ref m = vw_vruntime V i 1 m - vw_vruntime V ref 1 m"

definition abs_drift :: "u64 \<Rightarrow> int" where
  "abs_drift d = sint (if sint d < 0 then - d else d)"

definition vlag_after :: "'m view \<Rightarrow> nat \<Rightarrow> 'm step list" where
  "vlag_after V i = [Act Tick, Act (Cg_weight (group_name i) 1),
     Branch (\<lambda>m. abs_drift (drift V i ((i + 1) mod 10) m) > 50000000000000)
       [Act (Verdict False ''vlag overflow: g%d drifted %lld s from g%d'')] [Act (Verdict True ''g%d within %lld s of g%d (no overflow)'')]]"

definition vlag_overflow :: "'m view \<Rightarrow> 'm driver" where
  "vlag_overflow V = \<lparr>dv_name = ''vlag_overflow'',
     dv_setup = for_tasks 10 (\<lambda>i. [Cg_create (group_name i), Cg_weight (group_name i) 10000, Create, Cg_move (group_name i) i, Affinity i ''1'']),
     dv_run = for_tasks 10 (\<lambda>i. [Wakeup i]) @ [Act (Tick_repeat 20)] @ first_of [0..<10] (vw_on_cpu V) (vlag_after V) [Act Tick, Panic ''tasks[-1]''],
     dv_tick_interval_ns = 10000000000 * 1000, dv_versions = always\<rparr>"

definition vruntime_overflow :: "'m view \<Rightarrow> 'm driver" where
  "vruntime_overflow V = \<lparr>dv_name = ''vruntime_overflow'',
     dv_setup = map Act [Watch At_tick_begin ''kstep_output_curr_task'', Cg_create ''g0'', Cg_create ''g0/g1'', Cg_create ''g0/g2'',
       Cg_weight ''g0/g2'' 15, Cg_weight ''g0/g1'' 15, Create, Create, Create, Cg_move ''g0/g2'' 0, Cg_move ''g0/g1'' 2],
     dv_run = map Act [Wakeup 0, Wakeup 2, Wakeup 1, Tick_repeat 10]
       @ [Until (\<lambda>m. vw_on_cpu V 0 m \<and> \<not> vw_eligible V 0 1 m \<and> \<not> vw_eligible V 0 2 m \<and> vw_eligible V 0 0 m)]
       @ map Act [Cg_move [] 0, Cg_move [] 2, Cg_weight ''g0'' 105, Cg_destroy ''g0/g2'', Cg_weight ''g0'' 106, Cg_move ''g0/g1'' 1, Tick_repeat 20],
     dv_tick_interval_ns = 0, dv_versions = always\<rparr>"

definition entity_key :: "'m view \<Rightarrow> nat \<Rightarrow> 'm \<Rightarrow> int" where
  "entity_key V t m = sint (vw_vruntime V t 0 m - vw_zero_vruntime V m)"

text \<open>The key read after the solo run decides; the reads after it are for the log. Its value is the machine's at that point.\<close>

definition zero_vruntime_end :: "bool \<Rightarrow> 'm step list" where
  "zero_vruntime_end bad = map Act [Wakeup 1, Tick,
     if bad then Verdict False ''entity_key drifted to %lld (zero_vruntime stale)'' else Verdict True ''entity_key bounded at %lld (zero_vruntime tracking)'', Tick_repeat 10]"

definition zero_vruntime :: "'m view \<Rightarrow> 'm driver" where
  "zero_vruntime V = \<lparr>dv_name = ''zero_vruntime'', dv_setup = map Act [Watch At_tick_begin ''on_tick'', Create, Create],
     dv_run = map Act [Wakeup 0, Tick_repeat 5, Tick_repeat 200]
       @ [Branch (\<lambda>m. entity_key V 0 m > 50000000 \<or> entity_key V 0 m < -50000000) (zero_vruntime_end True) (zero_vruntime_end False)],
     dv_tick_interval_ns = 0, dv_versions = (\<lambda>v. v = KERNEL_VERSION 7 0 0)\<rparr>"

text \<open>The average inside \<open>avg_vruntime()\<close>, the current entity added to the queue's sums.\<close>

definition full_avg :: "'m view \<Rightarrow> 'm \<Rightarrow> u64 \<times> u64" where
  "full_avg V m = (case vw_curr_entity V m of None \<Rightarrow> vw_avg V m
     | Some (weight, vruntime) \<Rightarrow> (fst (vw_avg V m) + (vruntime - vw_min_vruntime V m) * weight, snd (vw_avg V m) + weight))"

definition avg_vruntime_ceil :: "'m view \<Rightarrow> 'm driver" where
  "avg_vruntime_ceil V = \<lparr>dv_name = ''avg_vruntime_ceil'', dv_setup = map Act [Create, Create, Create],
     dv_run = map Act [Fair 0 0 1, Wakeup 0, Wakeup 1, Tick_repeat 10] @ break_or_tick 20 (vw_curr V 0)
       @ map Act [Pause 1, Tick_repeat 2, Tick_repeat 10, Wakeup 1]
       @ [Branch (\<lambda>m. sint (fst (full_avg V m)) \<ge> 0 \<or> sint (snd (full_avg V m)) \<le> 0) [Act (Verdict False ''avg=%lld not negative (vlag may have been non-positive)'')]
           [Act (Wakeup 2),
            Branch (\<lambda>m. \<not> vw_eligible V 2 0 m) [Act (Verdict False ''task at avg_vruntime() not eligible: avg=%lld load=%ld key_c=%lld'')]
              [Act (Verdict True ''task at avg_vruntime() is eligible'')],
            Act (Tick_repeat 5)]],
     dv_tick_interval_ns = 0, dv_versions = (\<lambda>v. v \<ge> KERNEL_VERSION 6 6 0 \<and> v < KERNEL_VERSION 6 18 0)\<rparr>"

text \<open>The heap check of the timeline: a node holds its deadline and the least one below it.\<close>

definition before :: "u64 \<Rightarrow> u64 \<Rightarrow> bool" where
  "before a b \<longleftrightarrow> sint (a - b) < 0"

fun pull_min :: "(u64 \<times> u64) tree \<Rightarrow> u64 \<Rightarrow> u64" where
  "pull_min Leaf expected = expected"
| "pull_min (Node l (d, m) r) expected = (if before m expected then m else expected)"

fun check_min_deadline_node :: "(u64 \<times> u64) tree \<Rightarrow> bool" where
  "check_min_deadline_node Leaf = True"
| "check_min_deadline_node (Node l (d, m) r) =
     (let expected = pull_min r (pull_min l d) in m = expected \<and> check_min_deadline_node l \<and> check_min_deadline_node r)"

text \<open>The loop over the weights, left with the verdict at the first corruption.\<close>

fun min_deadline_loop :: "'m view \<Rightarrow> int list \<Rightarrow> 'm step list" where
  "min_deadline_loop V [] = [Act (Verdict True ''min_deadline heap intact'')]"
| "min_deadline_loop V (w # ws) = [Act (Cg_weight ''g0'' w),
     Branch (\<lambda>m. \<not> check_min_deadline_node (vw_timeline V m)) [Act (Verdict False ''min_deadline heap corrupted after cgroup reweight'')]
       (Act Tick # min_deadline_loop V ws)]"

definition min_deadline :: "'m view \<Rightarrow> 'm driver" where
  "min_deadline V = \<lparr>dv_name = ''min_deadline'', dv_setup = for_tasks 3 (\<lambda>i. [Create]) @ [Act (Cg_create ''g0'')],
     dv_run = for_tasks 3 (\<lambda>i. [Affinity i ''1'', Wakeup i]) @ map Act [Cg_move ''g0'' 2, Tick_repeat 10] @ min_deadline_loop V [10000, 1, 5000, 50, 10000],
     dv_tick_interval_ns = 0, dv_versions = (\<lambda>v. v = KERNEL_VERSION 6 6 0)\<rparr>"

definition drivers :: "nat \<Rightarrow> 'm view \<Rightarrow> 'm driver list" where
  "drivers v V = [default_driver, extra_balance, freeze V, h_nr_runnable v V, lag_vruntime, long_balance, even_idle_cpu, local_group_imbalance,
     util_avg_jump, rt_runtime_toggle, slice_update V, sync_wakeup V, throttled_limbo_list V, uclamp_inversion V, util_avg, vlag_overflow V,
     vruntime_overflow V, zero_vruntime V, avg_vruntime_ceil V, min_deadline V]"

section \<open>What the drivers report\<close>

text \<open>
  The callbacks of the drivers' own at each tick, on what they read of CPU 1; \<open>ok'\<close> is whether the
  channel takes the record.
\<close>

definition util_avg_on_tick_begin :: "u64 \<Rightarrow> bool \<Rightarrow> u64 \<Rightarrow> u64 \<Rightarrow> u64 \<Rightarrow> tx_state \<Rightarrow> tx_state outcome" where
  "util_avg_on_tick_begin now ok' rt cfs dl = kstep_json_print_2kv now ok' ''type'' ''avg_util'' ''val'' (dec (unat (rt + cfs + dl)))"

definition util_avg_jump_on_tick_begin :: "u64 \<Rightarrow> bool \<Rightarrow> u64 \<Rightarrow> tx_state \<Rightarrow> tx_state outcome" where
  "util_avg_jump_on_tick_begin now ok' rt = kstep_json_print_2kv now ok' ''type'' ''avg_util'' ''val'' (dec (unat rt))"

text \<open>The effective utilisation is reported by kernels before 6.0 only.\<close>

definition uclamp_on_tick_begin :: "nat \<Rightarrow> u64 \<Rightarrow> bool \<Rightarrow> u64 \<Rightarrow> tx_state \<Rightarrow> tx_state outcome" where
  "uclamp_on_tick_begin v now ok' effective_util tx = (if v < KERNEL_VERSION 6 0 0
     then kstep_json_print_2kv now ok' ''type'' ''effective_util'' ''val'' (dec (unat effective_util)) tx else Inr tx)"

text \<open>The queue's base vruntime, \<open>zero_vruntime\<close> from 6.19 and \<open>min_vruntime\<close> before.\<close>

definition lag_vruntime_on_tick_begin :: "nat \<Rightarrow> u64 \<Rightarrow> bool \<Rightarrow> u64 \<Rightarrow> u64 \<Rightarrow> tx_state \<Rightarrow> tx_state outcome" where
  "lag_vruntime_on_tick_begin v now ok' zero_v min_v = (let min_vruntime = if v \<ge> KERNEL_VERSION 6 19 0 then zero_v else min_v in
     kstep_json_print_2kv now ok' ''type'' ''min_vruntime'' ''val'' (sdec (sint min_vruntime)))"

definition h_nr_runnable_on_tick_begin :: "u64 \<Rightarrow> bool \<Rightarrow> u64 \<Rightarrow> tx_state \<Rightarrow> tx_state outcome" where
  "h_nr_runnable_on_tick_begin now ok' runnable_avg = kstep_json_print_2kv now ok' ''type'' ''runnable_avg'' ''val'' (dec (unat runnable_avg))"

text \<open>The latency of a softirq, in microseconds with three decimals.\<close>

definition pad3 :: "nat \<Rightarrow> string" where
  "pad3 n = replicate (3 - length (dec n)) (CHR ''0'') @ dec n"

definition on_sched_softirq_end :: "u64 \<Rightarrow> bool \<Rightarrow> nat \<Rightarrow> u64 \<Rightarrow> u64 \<Rightarrow> tx_state \<Rightarrow> tx_state outcome" where
  "on_sched_softirq_end now ok' cpu starttime ktime = (let lat_ns = unat (ktime - starttime) in send_record now ok' (\<lambda>json.
     bind_outcome (kstep_json_field_str ''type'' ''sched_softirq'' json) (\<lambda>json.
     bind_outcome (kstep_json_field_u64 ''cpu'' (of_nat cpu) json)
       (kstep_json_field_fmt ''lat_us'' (dec (lat_ns div 1000) @ ''.'' @ pad3 (lat_ns mod 1000))))))"

text \<open>\<open>None\<close>: the queue has no current entity, and nothing is sent.\<close>

definition zero_vruntime_on_tick :: "u64 \<Rightarrow> bool \<Rightarrow> u64 option \<Rightarrow> u64 \<Rightarrow> u64 \<Rightarrow> u64 \<Rightarrow> u32 \<Rightarrow> tx_state \<Rightarrow> tx_state outcome" where
  "zero_vruntime_on_tick now ok' vruntime zero sum_w weight nr tx = (case vruntime of None \<Rightarrow> Inr tx
     | Some v \<Rightarrow> send_record now ok' (\<lambda>json.
         bind_outcome (kstep_json_field_str ''event'' ''tick'' json) (\<lambda>json.
         bind_outcome (kstep_json_field_u64 ''vruntime'' v json) (\<lambda>json.
         bind_outcome (kstep_json_field_u64 ''zero_vruntime'' zero json) (\<lambda>json.
         bind_outcome (kstep_json_field_s64 ''entity_key'' (v - zero) json) (\<lambda>json.
         bind_outcome (kstep_json_field_s64 ''sum_w_vruntime'' sum_w json) (\<lambda>json.
         bind_outcome (kstep_json_field_u64 ''sum_weight'' weight json)
           (kstep_json_field_u64 ''nr_running'' (ucast nr)))))))) tx)"

section \<open>Every driver is in order\<close>

text \<open>The CPU lists of the drivers, as the kernel documents how it reads them.\<close>

definition documented_cpulists :: "klib \<Rightarrow> bool" where
  "documented_cpulists L \<longleftrightarrow> cpulist_parse L ''1'' = Some {1} \<and> cpulist_parse L ''2'' = Some {2} \<and> cpulist_parse L ''3'' = Some {3}
     \<and> cpulist_parse L ''4'' = Some {4} \<and> cpulist_parse L ''1-2'' = Some {1, 2} \<and> cpulist_parse L ''1-3'' = Some {1, 2, 3}
     \<and> cpulist_parse L ''2-3'' = Some {2, 3} \<and> cpulist_parse L ''1-4'' = Some {1, 2, 3, 4}"

lemma documented_parses:
  assumes "documented_cpulists L" "4 \<le> n" "s \<in> {''1'', ''2'', ''3'', ''4'', ''1-2'', ''1-3'', ''2-3'', ''1-4''}"
  shows "kstep_parse_cpus L n (Some s) \<noteq> None"
  using assms by (auto simp: documented_cpulists_def kstep_parse_cpus_def)

lemma check_tick_then_break: "check L n e (tick_then_break k p) = Some (Some e)"
  by (induction k) auto

lemma check_break_or_tick: "check L n e (break_or_tick k p) = Some (Some e)"
  by (induction k) auto

lemma check_first_of:
  "(\<And>t. t \<in> set ts \<Longrightarrow> check L n e (f t) = Some (Some e)) \<Longrightarrow> check L n e g \<in> {Some None, Some (Some e)} \<Longrightarrow>
    check L n e (first_of ts p f g) \<in> {Some None, Some (Some e)}"
  by (induction ts) auto

text \<open>A long loop that makes its task, pins it and wakes it.\<close>

lemma calls_env_long:
  assumes "kstep_parse_cpus L n (Some cpus) \<noteq> None"
  shows "calls_env L n denv_zero (concat (map (\<lambda>i. [Create, Affinity i cpus, Wakeup i]) [0..<k])) =
    Some \<lparr>de_tasks = replicate k [], de_groups = []\<rparr>"
proof (induction k)
  case (Suc k)
  have "concat (map (\<lambda>i. [Create, Affinity i cpus, Wakeup i]) [0..<Suc k]) =
      concat (map (\<lambda>i. [Create, Affinity i cpus, Wakeup i]) [0..<k]) @ [Create, Affinity k cpus, Wakeup k]" by simp
  then show ?case using Suc assms by (simp add: calls_env_append replicate_append_same)
qed (simp add: denv_zero_def)

lemmas check_simps = for_tasks_def check_append check_acts calls_env_append denv_zero_def upt_rec
  check_tick_then_break check_break_or_tick

lemma check_long_balance:
  assumes "documented_cpulists L" "4 \<le> n"
  shows "check L n denv_zero (dv_setup long_balance @ dv_run long_balance) \<noteq> None"
proof -
  have "kstep_parse_cpus L n (Some ''1'') \<noteq> None" using documented_parses[OF assms] by simp
  from calls_env_long[OF this, of 20000] show ?thesis
    by (simp add: long_balance_def for_tasks_def check_append check_acts)
qed

lemma parent_group_top: "CHR ''/'' \<notin> set g \<Longrightarrow> parent_group g = []"
proof -
  assume "CHR ''/'' \<notin> set g"
  then have "dropWhile (\<lambda>c. c \<noteq> CHR ''/'') (rev g) = []" by (auto simp: dropWhile_eq_Nil_conv)
  then show "parent_group g = []" by (simp only: parent_group_def list.sel(2) rev.simps(1))
qed

lemma check_ticks [simp]: "check L n e (replicate k (Act Tick)) = Some (Some e)"
  by (induction k) auto

lemma parent_group_eval [simp]:
  "parent_group ''g0'' = []" "parent_group ''g1'' = []" "parent_group ''A'' = []" "parent_group ''uclamp'' = []"
  "parent_group ''A/B'' = ''A''" "parent_group ''A/B/C'' = ''A/B''" "parent_group ''g0/g1'' = ''g0''" "parent_group ''g0/g2'' = ''g0''"
  by (simp_all add: parent_group_def)

lemma group_name_top: "parent_group (group_name i) = []"
proof (rule parent_group_top)
  have "digit k \<noteq> CHR ''/''" if "k < 10" for k using of_char_digit[OF that] by auto
  then show "CHR ''/'' \<notin> set (group_name i)" using set_dec[of i] by (fastforce simp: group_name_def)
qed

lemma group_name_inject [simp]: "group_name i = group_name j \<longleftrightarrow> i = j"
  by (simp add: group_name_def)

lemma group_name_neq_Nil [simp]: "group_name i \<noteq> []"
  by (simp add: group_name_def)

lemma check_straight:
  assumes "documented_cpulists L" "4 \<le> n"
  shows "check L n denv_zero (dv_setup default_driver @ dv_run default_driver) \<noteq> None"
    "check L n denv_zero (dv_setup extra_balance @ dv_run extra_balance) \<noteq> None"
    "check L n denv_zero (dv_setup lag_vruntime @ dv_run lag_vruntime) \<noteq> None"
    "check L n denv_zero (dv_setup even_idle_cpu @ dv_run even_idle_cpu) \<noteq> None"
    "check L n denv_zero (dv_setup local_group_imbalance @ dv_run local_group_imbalance) \<noteq> None"
    "check L n denv_zero (dv_setup util_avg_jump @ dv_run util_avg_jump) \<noteq> None"
    "check L n denv_zero (dv_setup rt_runtime_toggle @ dv_run rt_runtime_toggle) \<noteq> None"
    "check L n denv_zero (dv_setup util_avg @ dv_run util_avg) \<noteq> None"
  using documented_parses[OF assms, of "''1''"] documented_parses[OF assms, of "''3''"] documented_parses[OF assms, of "''4''"]
    documented_parses[OF assms, of "''1-3''"] documented_parses[OF assms, of "''2-3''"] documented_parses[OF assms, of "''1-2''"]
    documented_parses[OF assms, of "''1-4''"] assms(2)
  by (simp_all add: check_simps default_driver_def extra_balance_def lag_vruntime_def even_idle_cpu_def local_group_imbalance_def
      util_avg_jump_def rt_runtime_toggle_def util_avg_def)

lemma check_waiting:
  assumes "documented_cpulists L" "4 \<le> n"
  shows "check L n denv_zero (dv_setup (freeze V) @ dv_run (freeze V)) \<noteq> None"
    and "check L n denv_zero (dv_setup (h_nr_runnable v V) @ dv_run (h_nr_runnable v V)) \<noteq> None"
    and "check L n denv_zero (dv_setup (slice_update V) @ dv_run (slice_update V)) \<noteq> None"
    and "check L n denv_zero (dv_setup (sync_wakeup V) @ dv_run (sync_wakeup V)) \<noteq> None"
    and "check L n denv_zero (dv_setup (uclamp_inversion V) @ dv_run (uclamp_inversion V)) \<noteq> None"
    and "check L n denv_zero (dv_setup (vruntime_overflow V) @ dv_run (vruntime_overflow V)) \<noteq> None"
    and "check L n denv_zero (dv_setup (zero_vruntime V) @ dv_run (zero_vruntime V)) \<noteq> None"
    and "check L n denv_zero (dv_setup (throttled_limbo_list V) @ dv_run (throttled_limbo_list V)) \<noteq> None"
    and "check L n denv_zero (dv_setup (avg_vruntime_ceil V) @ dv_run (avg_vruntime_ceil V)) \<noteq> None"
  using documented_parses[OF assms, of "''1''"] documented_parses[OF assms, of "''2''"] documented_parses[OF assms, of "''1-2''"]
  by (simp_all add: check_simps zero_vruntime_end_def freeze_def h_nr_runnable_def slice_update_def sync_wakeup_def uclamp_inversion_def
      vruntime_overflow_def zero_vruntime_def throttled_limbo_list_def avg_vruntime_ceil_def)

lemma check_min_deadline_loop:
  "''g0'' \<in> set (de_groups e) \<Longrightarrow> list_all (\<lambda>w. 1 \<le> w \<and> w \<le> 10000) ws \<Longrightarrow> check L n e (min_deadline_loop V ws) = Some (Some e)"
  by (induction ws) auto

lemma check_min_deadline:
  assumes "documented_cpulists L" "4 \<le> n"
  shows "check L n denv_zero (dv_setup (min_deadline V) @ dv_run (min_deadline V)) \<noteq> None"
proof -
  have p: "kstep_parse_cpus L n (Some ''1'') \<noteq> None" using documented_parses[OF assms] by simp
  have "list_all (\<lambda>w. 1 \<le> w \<and> w \<le> 10000) [10000, 1, 5000, 50, 10000 :: int]" by simp
  then show ?thesis
    using p by (simp add: min_deadline_def check_simps check_min_deadline_loop del: min_deadline_loop.simps)
qed

lemma calls_env_groups:
  assumes "kstep_parse_cpus L n (Some cpus) \<noteq> None"
  shows "calls_env L n denv_zero (concat (map (\<lambda>i. [Cg_create (group_name i), Cg_weight (group_name i) 10000, Create, Cg_move (group_name i) i,
      Affinity i cpus]) [0..<k])) = Some \<lparr>de_tasks = map group_name [0..<k], de_groups = rev (map group_name [0..<k])\<rparr>" (is "calls_env L n denv_zero (concat (map ?f _)) = _")
proof (induction k)
  case (Suc k)
  have "concat (map ?f [0..<Suc k]) = concat (map ?f [0..<k]) @ ?f k" by simp
  then show ?case using Suc assms by (simp add: calls_env_append group_name_top list_update_append image_iff)
qed (simp add: denv_zero_def)

lemma check_vlag:
  assumes "documented_cpulists L" "4 \<le> n"
  shows "check L n denv_zero (dv_setup (vlag_overflow V) @ dv_run (vlag_overflow V)) \<noteq> None"
proof -
  let ?e = "\<lparr>de_tasks = map group_name [0..<10], de_groups = rev (map group_name [0..<10])\<rparr>"
  have p: "kstep_parse_cpus L n (Some ''1'') \<noteq> None" using documented_parses[OF assms] by simp
  have "check L n denv_zero (dv_setup (vlag_overflow V)) = Some (Some ?e)"
    using calls_env_groups[OF p, of 10] by (simp add: vlag_overflow_def for_tasks_def check_acts)
  moreover have "calls_env L n ?e (concat (map (\<lambda>i. [Wakeup i]) [0..<10])) = Some ?e" by (simp add: upt_rec)
  moreover have "check L n ?e (first_of [0..<10] (vw_on_cpu V) (vlag_after V) [Act Tick, Panic ''tasks[-1]'']) \<in> {Some None, Some (Some ?e)}"
    by (rule check_first_of) (auto simp: vlag_after_def)
  ultimately show ?thesis unfolding check_append
    by (auto simp: vlag_overflow_def for_tasks_def check_append check_acts simp del: map_map map_concat concat_map_singleton split: option.splits)
qed


text \<open>A machine without state, on which every condition holds at once.\<close>

definition demo_view :: "unit view" where
  "demo_view = \<lparr>vw_on_cpu = (\<lambda>_ _. True), vw_task_cpu = (\<lambda>_ _. 1), vw_eligible = (\<lambda>_ l _. l = 0), vw_has_parent = (\<lambda>_ _. True),
     vw_delayed = (\<lambda>_ _ _. False), vw_uclamp = (\<lambda>_ _. (True, True)), vw_vruntime = (\<lambda>_ _ _. 0), vw_stale_slice = (\<lambda>_ _. False),
     vw_curr = (\<lambda>_ _. True), vw_h_nr = (\<lambda>_. (1, 1, 0)), vw_limbo = (\<lambda>_ _. [0, 1]), vw_avg = (\<lambda>_. (-1, 1)), vw_curr_entity = (\<lambda>_. None), vw_min_vruntime = (\<lambda>_. 0),
     vw_zero_vruntime = (\<lambda>_. 0), vw_timeline = (\<lambda>_. Leaf)\<rparr>"

definition demo_lists :: klib where
  "demo_lists = \<lparr>kstrtoint = (\<lambda>_. None), cpulist_parse = map_of [(''1'', {1}), (''2'', {2}), (''3'', {3}), (''4'', {4}), (''1-2'', {1, 2}),
     (''1-3'', {1, 2, 3}), (''2-3'', {2, 3}), (''1-4'', {1, 2, 3, 4})]\<rparr>"


section \<open>The heap check\<close>

text \<open>Deadlines wrap; those of one tree lie within a quarter of the range of each other.\<close>

definition near :: "u64 \<Rightarrow> u64 \<Rightarrow> bool" where
  "near b x \<longleftrightarrow> - (2 ^ 62) \<le> sint (x - b) \<and> sint (x - b) < 2 ^ 62"

text \<open>The earliest of a set of deadlines, counted from \<open>b\<close>.\<close>

definition least :: "u64 \<Rightarrow> u64 set \<Rightarrow> u64 \<Rightarrow> bool" where
  "least b S m \<longleftrightarrow> m \<in> S \<and> (\<forall>x\<in>S. sint (m - b) \<le> sint (x - b))"

lemma before_near:
  assumes "near b x" "near b y"
  shows "before x y \<longleftrightarrow> sint (x - b) < sint (y - b)"
proof -
  have "x - y = (x - b) - (y - b)" by simp
  then have "sint (x - y) = signed_take_bit 63 (sint (x - b) - sint (y - b))" by (simp only: sint_word_diff) simp
  also have "\<dots> = sint (x - b) - sint (y - b)"
    using assms by (intro signed_take_bit_int_eq_self) (simp_all add: near_def)
  finally show ?thesis by (simp add: before_def)
qed

lemma least_unique: "least b S m \<Longrightarrow> least b S m' \<Longrightarrow> m = m'"
  by (metis least_def antisym diff_add_cancel signed_word_eqI)

lemma least_union: "least b S e \<Longrightarrow> least b T m \<Longrightarrow> least b (S \<union> T) (if sint (m - b) < sint (e - b) then m else e)"
  unfolding least_def by (auto dest: order_trans[of "sint (e - b)" "sint (m - b)"] order_trans[of "sint (m - b)" "sint (e - b)"])

lemma subtrees_self [simp]: "t \<in> subtrees t"
  by (cases t) simp_all

text \<open>A node's own record is right.\<close>

fun node_ok :: "u64 \<Rightarrow> (u64 \<times> u64) tree \<Rightarrow> bool" where
  "node_ok b Leaf = True"
| "node_ok b (Node l (d, m) r) = least b (fst ` set_tree (Node l (d, m) r)) m"

abbreviation near_tree :: "u64 \<Rightarrow> (u64 \<times> u64) tree \<Rightarrow> bool" where
  "near_tree b t \<equiv> \<forall>(d, m) \<in> set_tree t. near b d \<and> near b m"

lemma pull_min_least:
  assumes "node_ok b t" "near_tree b t" "least b S e" "near b e"
  shows "least b (S \<union> fst ` set_tree t) (pull_min t e)" "near b (pull_min t e)"
proof -
  have "least b (S \<union> fst ` set_tree t) (pull_min t e) \<and> near b (pull_min t e)"
  proof (cases t)
    case (Node l dm r)
    obtain d m where dm: "dm = (d, m)" by fastforce
    have m: "least b (fst ` set_tree t) m" "near b m" using assms(1,2) Node dm by auto
    have "pull_min t e = (if sint (m - b) < sint (e - b) then m else e)" by (simp add: Node dm before_near[OF m(2) assms(4)])
    then show ?thesis using least_union[OF assms(3) m(1)] m(2) assms(4) by simp
  qed (use assms(3,4) in simp)
  then show "least b (S \<union> fst ` set_tree t) (pull_min t e)" "near b (pull_min t e)" by blast+
qed

lemma check_node_iff:
  "near_tree b t \<Longrightarrow> check_min_deadline_node t \<longleftrightarrow> (\<forall>s\<in>subtrees t. node_ok b s)"
proof (induction t rule: check_min_deadline_node.induct)
  case (2 l d m r)
  have n: "near b d" "near_tree b l" "near_tree b r" using 2(3) by auto
  have ih: "check_min_deadline_node l \<longleftrightarrow> (\<forall>s\<in>subtrees l. node_ok b s)" "check_min_deadline_node r \<longleftrightarrow> (\<forall>s\<in>subtrees r. node_ok b s)"
    using 2(1,2) n by simp_all
  have "m = pull_min r (pull_min l d) \<longleftrightarrow> node_ok b (Node l (d, m) r)" if ok': "node_ok b l" "node_ok b r"
  proof -
    note p = pull_min_least[OF ok'(1) n(2), of "{d}" d] pull_min_least[OF ok'(2) n(3), of "{d} \<union> fst ` set_tree l" "pull_min l d"]
    have "least b ({d} \<union> fst ` set_tree l \<union> fst ` set_tree r) (pull_min r (pull_min l d))" using p n(1) by (simp add: least_def)
    moreover have "fst ` set_tree (Node l (d, m) r) = {d} \<union> fst ` set_tree l \<union> fst ` set_tree r" by auto
    ultimately show ?thesis using least_unique by auto
  qed
  then show ?case using ih by (auto simp: Let_def simp del: node_ok.simps)
qed simp

text \<open>
  C39. The reproducer's check of the timeline is exact: on a tree whose deadlines lie within a quarter of
  the clock's range of each other, also across a wrap of it, it passes exactly when every node's
  record is the earliest deadline of its subtree; so its verdict of corruption is never wrong and
  never missing.
\<close>
theorem min_deadline_check_exact:
  assumes "near_tree b t"
  shows "check_min_deadline_node t \<longleftrightarrow> (\<forall>s\<in>subtrees t. node_ok b s)"
  using check_node_iff[OF assms] .

text \<open>A node whose deadline has wrapped, later than the one below it; the record of the node is out of date.\<close>

definition demo_timeline :: "(u64 \<times> u64) tree" where
  "demo_timeline = Node (Node Leaf (- 5, - 5) Leaf) (3, 3) Leaf"

theorem min_deadline_check_exact_witness:
  "\<not> check_min_deadline_node demo_timeline \<and> (\<exists>s\<in>subtrees demo_timeline. \<not> node_ok 0 s)"
proof -
  have n: "near_tree 0 demo_timeline" by (simp add: demo_timeline_def near_def)
  have "\<not> check_min_deadline_node demo_timeline" by (simp add: demo_timeline_def before_def)
  then show ?thesis using min_deadline_check_exact[OF n] by blast
qed

end
