(* ===== verification/Driver_Run.thy ===== *)
theory Driver_Run
  imports Cli Drivers Boot
begin

text \<open>
  The drivers run on the module (kmod/drivers with kmod/task.c, kernel.c, cpu.c, tick.c, io.c, main.c):
  each call of a driver as the definitions of the other theories perform it, on the state of a session;
  what the time is when a driver has run.
\<close>

section \<open>The calls\<close>

text \<open>
  What a driver does to the kernel itself: a task's clamps, the base slice, the registration of its
  callbacks; and the text of a message, the format filled with what the driver has read.
\<close>

record 'm driver_kern =
  dk_uclamp :: "tptr \<Rightarrow> nat \<Rightarrow> nat \<Rightarrow> 'm \<Rightarrow> int \<times> 'm"
  dk_base_slice :: "nat \<Rightarrow> 'm \<Rightarrow> 'm"
  dk_watch :: "watch_at \<Rightarrow> string \<Rightarrow> 'm \<Rightarrow> 'm"
  dk_message :: "string \<Rightarrow> 'm \<Rightarrow> string"

text \<open>The session's tasks are the driver's, in the order it creates them.\<close>

definition with_task :: "nat \<Rightarrow> (tptr \<times> nat \<Rightarrow> 'm cli \<Rightarrow> 'm cli run) \<Rightarrow> 'm cli \<Rightarrow> 'm cli run" where
  "with_task t f s = (if t < length (cl_tasks s) then f (cl_tasks s ! t) s else Some (Inl ''out of bounds: tasks[]''))"

text \<open>A call into the kernel's files whose error code the driver does not look at.\<close>

definition on_files :: "('m \<Rightarrow> (int \<times> 'm) outcome) \<Rightarrow> 'm cli \<Rightarrow> 'm cli run" where
  "on_files f s = bind_run (Some (f (cl_m s))) (\<lambda>(_, m). Some (Inr (with_m (\<lambda>_. m) s)))"

text \<open>The clamps of a task, its policy and nice kept; the kernel may refuse them.\<close>

definition set_task_uclamp :: "'m driver_kern \<Rightarrow> tptr \<Rightarrow> nat \<Rightarrow> nat \<Rightarrow> 'm \<Rightarrow> 'm outcome" where
  "set_task_uclamp X p lo hi m = (let (ret, m) = dk_uclamp X p lo hi m in if ret \<noteq> 0 then Inl ''sched_setattr_nocheck failed: %d'' else Inr m)"

definition do_ticks :: "'m env \<Rightarrow> nat \<Rightarrow> 'm cli \<Rightarrow> 'm cli run" where
  "do_ticks E n s = bind_run (kstep_tick_repeat (ck_kern (en_kern E)) (tick_conf_of E s) n (cl_ts s)) (\<lambda>ts. Some (Inr (s\<lparr>cl_ts := ts\<rparr>)))"

fun do_driver_call :: "'m env \<Rightarrow> 'm driver_kern \<Rightarrow> 'm cli calls" where
  "do_driver_call E X Create s = bind_run (create_parked E None s) (\<lambda>(_, p, s). Some (Inr (s\<lparr>cl_tasks := cl_tasks s @ [p]\<rparr>)))"
| "do_driver_call E X (Wakeup t) s = with_task t (kstep_task_wakeup E) s"
| "do_driver_call E X (Pause t) s = with_task t (cli_task_ctrl E kstep_task_pause) s"
| "do_driver_call E X (Block t) s = with_task t (cli_task_ctrl E kstep_task_block) s"
| "do_driver_call E X (Chan_read t) s = with_task t (cli_task_ctrl E kstep_task_chan_read) s"
| "do_driver_call E X (Chan_write t) s = with_task t (cli_task_ctrl E kstep_task_chan_write) s"
| "do_driver_call E X (Freeze t) s = with_task t (\<lambda>p s. Some (Inr (with_m (ck_freeze (en_kern E) (fst p)) s))) s"
| "do_driver_call E X (Affinity t cpus) s = with_task t (\<lambda>p s. Some (Inr (snd (kstep_task_set_affinity E p (Some cpus) s)))) s"
| "do_driver_call E X (Fair t policy nice) s = with_task t (\<lambda>p s. Some (Inr (kstep_task_set_fair E (fst p) policy nice s))) s"
| "do_driver_call E X (Rt t policy prio) s = with_task t (\<lambda>p s. Some (Inr (kstep_task_set_rt E (fst p) policy prio s))) s"
| "do_driver_call E X (Uclamp t lo hi) s = with_task t (\<lambda>p s. bind_run (Some (set_task_uclamp X (fst p) lo hi (cl_m s))) (\<lambda>m. Some (Inr (with_m (\<lambda>_. m) s)))) s"
| "do_driver_call E X (Cg_create g) s = on_files (kstep_cgroup_create (ck_fs (en_kern E)) (tp_ncpus (cl_topo s)) g) s"
| "do_driver_call E X (Cg_weight g w) s = on_files (kstep_cgroup_set_weight (ck_fs (en_kern E)) g w) s"
| "do_driver_call E X (Cg_move g t) s = with_task t (\<lambda>p. on_files (kstep_cgroup_move_task (ck_fs (en_kern E)) g (int (snd p)))) s"
| "do_driver_call E X (Cg_write g f v) s = on_files (kstep_cgroup_write (ck_fs (en_kern E)) g f v) s"
| "do_driver_call E X (Cg_destroy g) s = bind_run (Some (kstep_cgroup_destroy (ck_fs (en_kern E))
     (\<lambda>n m. ck_cgroup (en_kern E) m n \<noteq> None) (ck_unregister (en_kern E)) g (cl_m s))) (\<lambda>m. Some (Inr (with_m (\<lambda>_. m) s)))"
| "do_driver_call E X (Topo spec) s = bind_run (Some (kstep_topo_set (en_lib E) (en_machine E) spec (cl_topo s))) (\<lambda>(_, t). Some (Inr (s\<lparr>cl_topo := t\<rparr>)))"
| "do_driver_call E X (Freq cpu scale) s = Some (Inr (with_m (ck_freq (en_kern E) (int cpu) (int scale)) s))"
| "do_driver_call E X (Sysctl name v) s = bind_run (Some (kstep_sysctl_write (ck_fs (en_kern E)) name (sdec v) (cl_m s))) (\<lambda>m. Some (Inr (with_m (\<lambda>_. m) s)))"
| "do_driver_call E X (Base_slice_times n) s = Some (Inr (with_m (dk_base_slice X n) s))"
| "do_driver_call E X (Watch ev fn) s = Some (Inr (with_m (dk_watch X ev fn) s))"
| "do_driver_call E X call.Tick s = do_ticks E 1 s"
| "do_driver_call E X (Tick_repeat n) s = do_ticks E n s"
| "do_driver_call E X (Verdict pass msg) s = bind_run (Some ((if pass then kstep_pass else kstep_fail) (kstep_jiffies_get (t_clock (cl_ts s))) True
     (dk_message X msg (cl_m s)) (cl_tx s))) (\<lambda>tx. Some (Inr (s\<lparr>cl_tx := tx\<rparr>)))"

section \<open>Time\<close>

fun call_ticks :: "call \<Rightarrow> nat" where
  "call_ticks call.Tick = 1"
| "call_ticks (Tick_repeat n) = n"
| "call_ticks _ = 0"

text \<open>The clocks after some ticks, \<open>i\<close> being the length of one.\<close>

definition clock_after :: "u64 \<Rightarrow> nat \<Rightarrow> clock \<Rightarrow> clock" where
  "clock_after i n c = c\<lparr>ck_sched := ck_sched c + of_nat n * i, ck_kstep_jiffies := ck_kstep_jiffies c + of_nat n, ck_jiffies := ck_jiffies c + of_nat n\<rparr>"

definition tick_length :: "'m env \<Rightarrow> u64" where
  "tick_length E = (if en_interval E \<noteq> 0 then en_interval E else en_nsec E)"

lemma clock_after_0 [simp]: "clock_after i 0 c = c"
  by (simp add: clock_after_def)

lemma clock_after_add: "clock_after i m (clock_after i n c) = clock_after i (n + m) c"
  by (simp add: clock_after_def algebra_simps)

lemma clock_after_inv: "clock_inv c \<Longrightarrow> clock_inv (clock_after i n c)"
  by (simp add: clock_after_def clock_inv_def)

lemma tick_clock:
  assumes "kstep_tick K c s = Some (Inr s')" "clock_inv (t_clock s)"
  shows "t_clock s' = clock_after (if tc_interval c \<noteq> 0 then tc_interval c else tc_nsec c) 1 (t_clock s)"
  using kstep_tick_Inr[OF assms(1)] by (simp add: clock_tick_eq[OF assms(2)] clock_after_def)

lemma tick_repeat_clock:
  "kstep_tick_repeat K c n s = Some (Inr s') \<Longrightarrow> clock_inv (t_clock s) \<Longrightarrow>
    t_clock s' = clock_after (if tc_interval c \<noteq> 0 then tc_interval c else tc_nsec c) n (t_clock s)"
proof (induction n arbitrary: s)
  case (Suc n)
  then obtain s1 where s1: "kstep_tick K c s = Some (Inr s1)" "kstep_tick_repeat K c n s1 = Some (Inr s')" by (auto simp: bind_run_returns)
  note t = tick_clock[OF s1(1) Suc.prems(2)]
  have "clock_inv (t_clock s1)" using t clock_after_inv Suc.prems(2) by metis
  from Suc.IH[OF s1(2) this] show ?case unfolding t clock_after_add by simp
qed simp

text \<open>Whatever is not a tick leaves the clocks alone.\<close>

definition keeps_clock :: "'m cli \<Rightarrow> 'm cli run \<Rightarrow> bool" where
  "keeps_clock s r \<longleftrightarrow> (\<forall>s'. r = Some (Inr s') \<longrightarrow> t_clock (cl_ts s') = t_clock (cl_ts s))"

named_theorems clock_kept

lemma with_m_clock [simp]: "t_clock (cl_ts (with_m f s)) = t_clock (cl_ts s)"
  by (simp add: with_m_def)

lemma with_task_clock [clock_kept]: "(\<And>p s. keeps_clock s (f p s)) \<Longrightarrow> keeps_clock s (with_task t f s)"
  by (simp add: with_task_def keeps_clock_def)

lemma on_files_clock [clock_kept]: "keeps_clock s (on_files f s)"
  by (auto simp: on_files_def keeps_clock_def bind_run_returns)

lemma settle_clock: "cli_settle E s = Some (Inr s') \<Longrightarrow> t_clock (cl_ts s') = t_clock (cl_ts s)"
  using kstep_settle_Inr by (fastforce simp: cli_settle_def bind_run_returns)

lemma task_ctrl_clock [clock_kept]: "keeps_clock s (cli_task_ctrl E act p s)"
  using settle_clock by (fastforce simp: cli_task_ctrl_def keeps_clock_def bind_run_returns Let_def split: if_splits)

lemma wakeup_clock [clock_kept]: "keeps_clock s (kstep_task_wakeup E p s)"
  using settle_clock by (fastforce simp: kstep_task_wakeup_def keeps_clock_def)

lemma affinity_clock [clock_kept]: "keeps_clock s (Some (Inr (snd (kstep_task_set_affinity E p cpus s))))"
  by (auto simp: kstep_task_set_affinity_def keeps_clock_def split: option.splits prod.splits)

lemma update_clock [clock_kept]: "keeps_clock s (Some (Inr (with_m f s)))" "keeps_clock s (Some (Inr (kstep_task_set_fair E q policy nice s)))"
  "keeps_clock s (Some (Inr (kstep_task_set_rt E q policy nice s)))"
  by (simp_all add: keeps_clock_def kstep_task_set_fair_def kstep_task_set_rt_def)

lemma record_clock [clock_kept]: "keeps_clock s (Some (Inr (s\<lparr>cl_topo := t\<rparr>)))" "keeps_clock s (Some (Inr (s\<lparr>cl_tx := tx\<rparr>)))"
  by (simp_all add: keeps_clock_def)

lemma bind_clock [clock_kept]: "(\<And>x. keeps_clock s (f x)) \<Longrightarrow> keeps_clock s (bind_run r f)"
  by (auto simp: keeps_clock_def bind_run_returns)

lemma create_clock [clock_kept]: "keeps_clock s (bind_run (create_parked E None s) (\<lambda>(_, p, s). Some (Inr (s\<lparr>cl_tasks := cl_tasks s @ [p]\<rparr>))))"
  by (auto simp: keeps_clock_def create_parked_def bind_run_returns split: prod.splits)

lemma not_tick_keeps_clock: "call_ticks c = 0 \<Longrightarrow> c \<noteq> Tick_repeat 0 \<Longrightarrow> keeps_clock s (do_driver_call E X c s)"
  by (cases c) (simp_all add: clock_kept split: prod.split)

lemma driver_call_clock:
  assumes "do_driver_call E X c s = Some (Inr s')" "clock_inv (t_clock (cl_ts s))"
  shows "t_clock (cl_ts s') = clock_after (tick_length E) (call_ticks c) (t_clock (cl_ts s))"
proof (cases "c = call.Tick \<or> (\<exists>n. c = Tick_repeat n)")
  case True
  then obtain n where "do_ticks E n s = Some (Inr s')" "call_ticks c = n" using assms(1) by auto
  then show ?thesis using tick_repeat_clock assms(2) by (fastforce simp: do_ticks_def bind_run_returns tick_length_def tick_conf_of_def)
next
  case False
  then have "call_ticks c = 0" by (cases c) auto
  then show ?thesis using not_tick_keeps_clock[of c s E X] False assms(1) by (auto simp: keeps_clock_def)
qed

interpretation driver_time: call_rule "do_driver_call E X"
  "\<lambda>cs s s'. clock_inv (t_clock (cl_ts s)) \<longrightarrow> t_clock (cl_ts s') = clock_after (tick_length E) (sum_list (map call_ticks cs)) (t_clock (cl_ts s))" for E X
  by unfold_locales (auto simp: driver_call_clock clock_after_add clock_after_inv)

section \<open>Coming to an end\<close>

fun waits :: "'m step list \<Rightarrow> bool" where
  "waits [] = False"
| "waits (Branch p a b # ss) = (waits a \<or> waits b \<or> waits ss)"
| "waits (Until p # ss) = True"
| "waits (_ # ss) = waits ss"

text \<open>On a machine that settles no call waits forever; so neither does a driver that does not wait itself.\<close>

lemma settle_ends: "\<forall>n. settles (ck_kern (en_kern E)) n \<Longrightarrow> cli_settle E s \<noteq> None"
  using cli_settle_returns[of E s] by auto

lemma task_ctrl_ends: "\<forall>n. settles (ck_kern (en_kern E)) n \<Longrightarrow> cli_task_ctrl E act p s \<noteq> None"
  unfolding cli_task_ctrl_def Let_def using settle_ends by (intro bind_run_not_None) (auto split: prod.splits)

lemma wakeup_ends: "\<forall>n. settles (ck_kern (en_kern E)) n \<Longrightarrow> kstep_task_wakeup E p s \<noteq> None"
  unfolding kstep_task_wakeup_def using settle_ends by blast

lemma with_task_ends: "(\<And>p s. f p s \<noteq> None) \<Longrightarrow> with_task t f s \<noteq> None"
  by (simp add: with_task_def)

lemma on_files_ends: "on_files f s \<noteq> None"
  unfolding on_files_def by (intro bind_run_not_None) (auto split: prod.splits)

lemma do_ticks_ends: "\<forall>n. settles (ck_kern (en_kern E)) n \<Longrightarrow> clock_inv (t_clock (cl_ts s)) \<Longrightarrow> do_ticks E n s \<noteq> None"
  using tick_repeat_result[of "ck_kern (en_kern E)" "tick_conf_of E s" "cl_ts s" n] unfolding do_ticks_def by (intro bind_run_not_None) auto

lemma create_ends: "create_parked E None s \<noteq> None"
  by (simp add: create_parked_def split: prod.split)

lemmas call_ends = with_task_ends task_ctrl_ends wakeup_ends on_files_ends do_ticks_ends create_ends bind_run_not_None option.distinct(2)

lemma driver_call_ends:
  "\<forall>n. settles (ck_kern (en_kern E)) n \<Longrightarrow> clock_inv (t_clock (cl_ts s)) \<Longrightarrow> do_driver_call E X c s \<noteq> None"
  by (cases c; simp only: do_driver_call.simps) (intro call_ends; simp split: prod.split)+

lemma bind_run_ends: "r \<noteq> None \<Longrightarrow> (\<And>x. r = Some (Inr x) \<Longrightarrow> f x \<noteq> None) \<Longrightarrow> bind_run r f \<noteq> None"
  by (auto simp: bind_run_def split: option.splits sum.splits)

lemmas waits_induct = waits.induct[case_names Done In_branch In_until In_act In_panic]

lemma exec_ends:
  assumes "\<forall>n. settles (ck_kern (en_kern E)) n"
  shows "\<not> waits ss \<Longrightarrow> clock_inv (t_clock (cl_ts (fst s))) \<Longrightarrow> exec (do_driver_call E X) ss s \<noteq> None"
proof (induction ss arbitrary: s rule: waits_induct)
  case (In_branch p a b ss)
  have "exec (do_driver_call E X) ss s1 \<noteq> None" if "exec (do_driver_call E X) (if p (fst s) then a else b) s = Some (Inr s1)" for s1
  proof -
    have "clock_inv (t_clock (cl_ts (fst s1)))"
      using driver_time.exec_rule[OF that] In_branch(5) clock_after_inv by (auto simp: driver_time.run_rule_def)
    then show ?thesis using In_branch(3,4) by simp
  qed
  moreover have "exec (do_driver_call E X) (if p (fst s) then a else b) s \<noteq> None" using In_branch(1,2,4,5) by simp
  ultimately have "bind_run (exec (do_driver_call E X) (if p (fst s) then a else b) s) (\<lambda>s. exec (do_driver_call E X) ss s) \<noteq> None"
    by (intro bind_run_ends)
  then show ?case by (cases "p (fst s)") simp_all
next
  case (In_act c ss)
  have "exec (do_driver_call E X) ss s1 \<noteq> None" if "do_call (do_driver_call E X) c s = Some (Inr s1)" for s1
  proof -
    have "clock_inv (t_clock (cl_ts (fst s1)))"
      using driver_time.do_call_rule[OF that] In_act(3) clock_after_inv by (auto simp: driver_time.run_rule_def)
    then show ?thesis using In_act(1,2) by simp
  qed
  moreover have "do_call (do_driver_call E X) c s \<noteq> None"
    using driver_call_ends[OF assms In_act(3)] unfolding do_call_def by (intro bind_run_not_None) simp_all
  ultimately show ?case unfolding exec.simps by (intro bind_run_ends)
qed simp_all

section \<open>From the start to the end of a driver\<close>

lemma boot_clock:
  assumes "kstep_main B b = Inr b'" "setup_keeps_clock B" "ck_sched (bo_clock b) = rc_tick_nsec (be_conf B)"
  shows "bo_clock b' = \<lparr>ck_sched = rc_tick_nsec (be_conf B), ck_kstep_jiffies = 0, ck_offset = be_epoch B + be_initial B,
    ck_jiffies = be_epoch B + be_initial B\<rparr>"
proof -
  obtain b1 b2 b3 feats where b: "boot_components B b = Inr b1" "be_setup B b1 = Inr b2" "boot_clocks B b2 = Inr b3" "b' = boot_reset B (b3\<lparr>bo_feats := feats\<rparr>)"
    using kstep_main_Inr[OF assms(1)] by blast
  note c = boot_clocks_Inr[OF b(3)]
  have "bo_clock b' = bo_clock b3" by (simp add: b(4) boot_reset_def)
  then show ?thesis using c(2-5) b(2) boot_components_clock[OF b(1)] assms(2,3)
    by (simp add: setup_keeps_clock_def clock_inv_def kstep_jiffies_get_def)
qed

text \<open>
  C12. Time is what the driver has ticked: from the start of the module, when a driver's run has come to its
  end the mocked jiffies are the number of ticks it has asked for, one by one, in blocks or while
  waiting, the kernel's jiffies are the epoch's and that many, and the scheduler clock has moved by that
  many of the driver's intervals, whatever else it did to tasks, cgroups, the topology or the kernel. On
  a machine that settles a driver without a wait of its own always comes to an end.
\<close>
theorem driver_time_is_its_ticks:
  assumes "kstep_main B b = Inr b'" "setup_keeps_clock B" "ck_sched (bo_clock b) = rc_tick_nsec (be_conf B)"
    and "t_clock (cl_ts s) = bo_clock b'" "en_interval E = dv_tick_interval_ns d"
  shows "(\<forall>s' cs. exec (do_driver_call E X) (dv_run d) (s, []) = Some (Inr (s', cs)) \<longrightarrow> (let n = sum_list (map call_ticks cs) in
      kstep_jiffies_get (t_clock (cl_ts s')) = of_nat n \<and> ck_jiffies (t_clock (cl_ts s')) = be_epoch B + be_initial B + of_nat n
      \<and> kstep_sched_clock_get (t_clock (cl_ts s')) = rc_tick_nsec (be_conf B) +
          of_nat n * (if dv_tick_interval_ns d \<noteq> 0 then dv_tick_interval_ns d else en_nsec E)))
    \<and> (\<not> waits (dv_run d) \<and> (\<forall>n. settles (ck_kern (en_kern E)) n) \<longrightarrow> exec (do_driver_call E X) (dv_run d) (s, []) \<noteq> None)"
proof -
  note c = boot_clock[OF assms(1-3)]
  have i: "clock_inv (t_clock (cl_ts s))" unfolding assms(4) c by (simp add: clock_inv_def)
  have "t_clock (cl_ts s') = clock_after (tick_length E) (sum_list (map call_ticks cs)) (t_clock (cl_ts s))"
    if "exec (do_driver_call E X) (dv_run d) (s, []) = Some (Inr (s', cs))" for s' cs
    using driver_time.exec_rule[OF that] i by (simp add: driver_time.run_rule_def)
  then show ?thesis using exec_ends[of E "dv_run d" "(s, [])" X] i
    by (auto simp: assms(4) c clock_after_def tick_length_def assms(5) kstep_jiffies_get_def kstep_sched_clock_get_def Let_def)
qed

definition demo_driver_kern :: "'m driver_kern" where
  "demo_driver_kern = \<lparr>dk_uclamp = (\<lambda>_ _ _ m. (0, m)), dk_base_slice = (\<lambda>_ m. m), dk_watch = (\<lambda>_ _ m. m), dk_message = (\<lambda>f _. f)\<rparr>"

text \<open>The driver that ticks two thousand times, on the machine of the start's example.\<close>

theorem driver_time_is_its_ticks_witness:
  "\<exists>b' s s' cs. kstep_main demo_boot_env demo_boot = Inr b' \<and> t_clock (cl_ts s) = bo_clock b' \<and>
     exec (do_driver_call demo_env demo_driver_kern) (dv_run long_balance) (s, []) = Some (Inr (s', cs)) \<and>
     kstep_jiffies_get (t_clock (cl_ts s')) = 2000 \<and> kstep_sched_clock_get (t_clock (cl_ts s')) = 8004000000"
proof -
  obtain b' where b': "kstep_main demo_boot_env demo_boot = Inr b'" using demo_boots by blast
  define s where "s = (demo_cli 0)\<lparr>cl_ts := demo_tsys\<lparr>t_clock := bo_clock b'\<rparr>\<rparr>"
  have B: "setup_keeps_clock demo_boot_env" "ck_sched (bo_clock demo_boot) = rc_tick_nsec (be_conf demo_boot_env)"
    "rc_tick_nsec (be_conf demo_boot_env) = 4000000"
    by (simp_all add: setup_keeps_clock_def demo_boot_env_def demo_boot_def demo_reset_conf_def)
  have k: "ck_kern (en_kern demo_env) = demo_kern slow_cpus" "en_nsec demo_env = 4000000" by (simp_all add: demo_env_def demo_ckern_def)
  have i: "clock_inv (t_clock (cl_ts s))" using boot_clock[OF b' B(1,2)] by (simp add: s_def clock_inv_def)
  obtain ts where "kstep_tick_repeat (demo_kern slow_cpus) (tick_conf_of demo_env s) 2000 (cl_ts s) = Some (Inr ts)"
    using tick_repeat_result[OF slow_settles i, of "tick_conf_of demo_env s"] by blast
  then have e: "exec (do_driver_call demo_env demo_driver_kern) (dv_run long_balance) (s, []) = Some (Inr (s\<lparr>cl_ts := ts\<rparr>, [Tick_repeat 2000]))"
    by (simp add: long_balance_def do_call_def do_ticks_def k)
  have "t_clock (cl_ts s) = bo_clock b'" "en_interval demo_env = dv_tick_interval_ns long_balance" by (simp_all add: s_def demo_env_def long_balance_def)
  from driver_time_is_its_ticks[OF b' B(1,2) this, of demo_driver_kern] e b' show ?thesis
    by (intro exI[of _ b'] exI[of _ s] exI[of _ "s\<lparr>cl_ts := ts\<rparr>"] exI[of _ "[Tick_repeat 2000]"])
      (simp add: Let_def k B(3) long_balance_def s_def)
qed

end
