(* ===== verification/Session.thy ===== *)
theory Session
  imports Cli
begin

text \<open>
  A whole session (kmod/cli.c with kmod/shm.c, task.c, tick.c): what the host finds in the shared region
  when the reply to a command has arrived, over the definitions of the interpreter, the settle, the
  clocks and the update of the region together.
\<close>

definition is_command :: "string \<Rightarrow> bool" where
  "is_command line \<longleftrightarrow> strim (cstr line) \<noteq> [] \<and> hd (strim (cstr line)) \<noteq> CHR ''#''"

text \<open>The state a command ends in: settled, the region brought up to date, the reply sent.\<close>

definition replied_state :: "'m env \<Rightarrow> 'm cli \<Rightarrow> bool" where
  "replied_state E s' \<longleftrightarrow> (\<exists>u v old tx. cli_settle E u = Some (Inr v) \<and> s' = v\<lparr>cl_shm := region_of E v old, cl_tx := tx\<rparr>)"

lemma run_line_replied:
  "run_line E line s = Some (Inr (continue, s')) \<Longrightarrow> is_command line \<Longrightarrow> replied_state E s'"
  by (auto simp: run_line_def is_command_def replied_state_def bind_run_returns Let_def)

lemma run_line_blank: "run_line E line s = Some (Inr (continue, s')) \<Longrightarrow> \<not> is_command line \<Longrightarrow> s' = s"
  by (auto simp: run_line_def is_command_def Let_def split: if_splits)

lemma run_lines_replied:
  "run_lines E lines s = Some (Inr (continue, s')) \<Longrightarrow> replied_state E s \<or> list_ex is_command lines \<Longrightarrow> replied_state E s'"
proof (induction lines arbitrary: s)
  case (Cons l ls)
  then obtain c u where l: "run_line E l s = Some (Inr (c, u))"
    and r: "(if c then run_lines E ls u else Some (Inr (False, u))) = Some (Inr (continue, s'))"
    by (auto simp: bind_run_returns)
  have "replied_state E u \<or> list_ex is_command ls"
    using run_line_replied[OF l] run_line_blank[OF l] Cons.prems(2) by (cases "is_command l") auto
  moreover have "replied_state E u" if "\<not> c"
    using run_line_replied[OF l] that l by (cases "is_command l") (auto simp: run_line_def is_command_def Let_def split: if_splits)
  ultimately show ?case using r Cons.IH[of u] by (cases c) auto
qed simp

text \<open>The settle leaves every test CPU settled, and its callbacks only look.\<close>

lemma cli_settle_settled:
  assumes "cli_settle E u = Some (Inr v)" "settled_stable (ck_kern (en_kern E)) (for_each_test_cpu (tp_ncpus (cl_topo u)))"
    and "\<And>m cpu. kstep_cpu_settled (ck_kern (en_kern E)) m cpu \<Longrightarrow> kstep_cpu_settled (ck_kern (en_kern E)) (kn_emit (ck_kern (en_kern E)) Settle m) cpu"
  shows "cl_topo v = cl_topo u \<and> (\<forall>cpu \<in> set (for_each_test_cpu (tp_ncpus (cl_topo u))). kstep_cpu_settled (ck_kern (en_kern E)) (cl_m v) cpu)"
proof -
  let ?K = "ck_kern (en_kern E)" and ?all = "for_each_test_cpu (tp_ncpus (cl_topo u))"
  obtain m where m: "wait_cpus ?K ?all (cl_m u) = Some m" and v: "cl_topo v = cl_topo u" "cl_m v = kn_emit ?K Settle m"
    using assms(1) by (auto simp: cli_settle_def kstep_settle_def bind_run_returns t_emit_def t_act_def cl_m_def split: option.splits)
  show ?thesis using wait_cpus_Some[OF m assms(2) order_refl, of "[]"] assms(3) v by simp
qed



end
