(* ===== verification/Cli_Frame.thy ===== *)
theory Cli_Frame
  imports Cli
begin

text \<open>
  What the interpreter does not depend on (kmod/cli.c): no command looks at or touches the transmit
  buffers, so the same command on the same session runs alike whatever the host has read by then.
\<close>

section \<open>The session with another channel\<close>

definition with_tx :: "tx_state \<Rightarrow> 'm cli \<Rightarrow> 'm cli" where
  "with_tx t s = s\<lparr>cl_tx := t\<rparr>"

definition map_run :: "('a \<Rightarrow> 'b) \<Rightarrow> 'a run \<Rightarrow> 'b run" where
  "map_run f r = bind_run r (\<lambda>x. Some (Inr (f x)))"

named_theorems frame \<open>what a step makes of the channel's state: nothing\<close>

lemma map_run_simps [frame]: "map_run f None = None" "map_run f (Some (Inl e)) = Some (Inl e)" "map_run f (Some (Inr x)) = Some (Inr (f x))"
  by (simp_all add: map_run_def)

lemma map_bind_run [frame]: "map_run f (bind_run r g) = bind_run r (\<lambda>x. map_run f (g x))" "bind_run (map_run k q) h = bind_run q (\<lambda>x. h (k x))"
  by (auto simp: map_run_def bind_run_def split: option.split sum.split)

lemma bind_run_assoc: "bind_run (bind_run q f) g = bind_run q (\<lambda>x. bind_run (f x) g)"
  by (auto simp: bind_run_def split: option.split sum.split)

lemmas map_run_cases [frame] = if_distrib[of "map_run f" for f] option.case_distrib[of "map_run f" for f] prod.case_distrib[of "map_run f" for f]

lemma with_tx_fields [frame]: "cl_ts (with_tx t s) = cl_ts s" "cl_tasks (with_tx t s) = cl_tasks s" "cl_topo (with_tx t s) = cl_topo s"
  "cl_reply (with_tx t s) = cl_reply s" "cl_shm (with_tx t s) = cl_shm s" "cl_tx (with_tx t s) = t" "cl_m (with_tx t s) = cl_m s"
  by (simp_all add: with_tx_def cl_m_def)

lemma with_tx_updates [frame]: "(with_tx t s)\<lparr>cl_ts := a\<rparr> = with_tx t (s\<lparr>cl_ts := a\<rparr>)" "(with_tx t s)\<lparr>cl_tasks := b\<rparr> = with_tx t (s\<lparr>cl_tasks := b\<rparr>)"
  "(with_tx t s)\<lparr>cl_topo := c\<rparr> = with_tx t (s\<lparr>cl_topo := c\<rparr>)" "(with_tx t s)\<lparr>cl_reply := d\<rparr> = with_tx t (s\<lparr>cl_reply := d\<rparr>)"
  "(with_tx t s)\<lparr>cl_shm := e\<rparr> = with_tx t (s\<lparr>cl_shm := e\<rparr>)" "with_m f (with_tx t s) = with_tx t (with_m f s)" "with_tx t (with_tx u s) = with_tx t s"
  "(if q then with_tx t x else with_tx t y) = with_tx t (if q then x else y)"
  by (simp_all add: with_tx_def with_m_def cl_m_def)

section \<open>Every step and every command\<close>

lemma frame_settle [frame]: "cli_settle E (with_tx t s) = map_run (with_tx t) (cli_settle E s)"
  by (simp add: cli_settle_def frame)

lemma frame_reply_error [frame]: "reply_error msg (with_tx t s) = map_run (with_tx t) (reply_error msg s)"
  by (simp add: reply_error_def frame)

lemma frame_reply_errno [frame]: "reply_errno err (with_tx t s) = map_run (with_tx t) (reply_errno err s)"
  by (simp add: reply_errno_def frame)

lemma frame_parse_task [frame]: "parse_task E arg usage (with_tx t s) = map_run (\<lambda>(p, r, s). (p, r, with_tx t s)) (parse_task E arg usage s)"
  by (simp add: parse_task_def frame Let_def split: prod.split option.split)

lemma frame_parse_cgroup [frame]: "parse_cgroup E arg usage create (with_tx t s) = map_run (\<lambda>(p, r, s). (p, r, with_tx t s)) (parse_cgroup E arg usage create s)"
  by (simp add: parse_cgroup_def frame Let_def split: prod.split option.split)

lemma frame_tick_conf [frame]: "tick_conf_of E (with_tx t s) = tick_conf_of E s"
  by (simp add: tick_conf_of_def frame)

lemma frame_affinity [frame]: "kstep_task_set_affinity E p cpus (with_tx t s) = map_prod id (with_tx t) (kstep_task_set_affinity E p cpus s)"
  by (simp add: kstep_task_set_affinity_def frame split: prod.split option.split)

lemma frame_task_ctrl [frame]: "cli_task_ctrl E act p (with_tx t s) = map_run (with_tx t) (cli_task_ctrl E act p s)"
  by (simp add: cli_task_ctrl_def frame Let_def split_def cong: if_cong option.case_cong)

lemma frame_wakeup [frame]: "kstep_task_wakeup E p (with_tx t s) = map_run (with_tx t) (kstep_task_wakeup E p s)"
  by (simp add: kstep_task_wakeup_def frame)

lemma frame_reply_result [frame]: "reply_result f (with_tx t s) = map_run (with_tx t) (reply_result f s)"
  by (simp add: reply_result_def frame split_def cong: if_cong option.case_cong)

lemma frame_create_parked [frame]: "create_parked E name (with_tx t s) = map_run (\<lambda>(e, p, s). (e, p, with_tx t s)) (create_parked E name s)"
  by (simp add: create_parked_def frame Let_def split_def split: option.split cong: if_cong option.case_cong)

lemma frame_create_one [frame]: "cmd_create_one E name (with_tx t s) = map_run (\<lambda>(g, s). (g, with_tx t s)) (cmd_create_one E name s)"
  by (simp add: cmd_create_one_def frame split_def cong: if_cong option.case_cong)

lemma frame_create_loop [frame]: "cmd_create_loop E name n (with_tx t s) = map_run (\<lambda>(g, s). (g, with_tx t s)) (cmd_create_loop E name n s)"
  by (induction n arbitrary: s) (simp_all add: frame split_def if_distrib cong: if_cong)

lemma frame_create_n [frame]: "cmd_create_n E name n (with_tx t s) = map_run (with_tx t) (cmd_create_n E name n s)"
  by (simp add: cmd_create_n_def frame split_def cong: if_cong option.case_cong)

lemma frame_create: "cmd_create E arg (with_tx t s) = map_run (with_tx t) (cmd_create E arg s)"
  by (simp add: cmd_create_def frame split_def Let_def split: option.split cong: if_cong option.case_cong)

lemma frame_tick: "cmd_tick E arg (with_tx t s) = map_run (with_tx t) (cmd_tick E arg s)"
  by (simp add: cmd_tick_def frame split: option.split)

lemma frame_cmd_affinity: "cmd_affinity E arg (with_tx t s) = map_run (with_tx t) (cmd_affinity E arg s)"
  by (simp add: cmd_affinity_def frame split_def Let_def cong: if_cong option.case_cong)

lemma frame_policy_fair: "cmd_policy_fair E arg (with_tx t s) = map_run (with_tx t) (cmd_policy_fair E arg s)"
  by (simp add: cmd_policy_fair_def kstep_task_set_fair_def frame split_def Let_def cong: if_cong option.case_cong)

lemma frame_policy_rt: "cmd_policy_rt E arg (with_tx t s) = map_run (with_tx t) (cmd_policy_rt E arg s)"
  by (simp add: cmd_policy_rt_def kstep_task_set_rt_def frame split_def Let_def cong: if_cong option.case_cong)

lemma frame_cgroups: "cmd_cgroup_create E arg (with_tx t s) = map_run (with_tx t) (cmd_cgroup_create E arg s)"
  "cmd_cgroup_weight E arg (with_tx t s) = map_run (with_tx t) (cmd_cgroup_weight E arg s)"
  "cmd_cgroup_cpus E arg (with_tx t s) = map_run (with_tx t) (cmd_cgroup_cpus E arg s)"
  "cmd_cgroup_destroy E arg (with_tx t s) = map_run (with_tx t) (cmd_cgroup_destroy E arg s)"
  "cmd_cgroup_attach E arg (with_tx t s) = map_run (with_tx t) (cmd_cgroup_attach E arg s)"
  by (simp_all add: cmd_cgroup_create_def cmd_cgroup_weight_def cmd_cgroup_cpus_def cmd_cgroup_destroy_def cmd_cgroup_attach_def frame split_def Let_def cong: if_cong option.case_cong)

lemma frame_machine: "cmd_check E arg (with_tx t s) = map_run (with_tx t) (cmd_check E arg s)"
  "cmd_cpu_freq E arg (with_tx t s) = map_run (with_tx t) (cmd_cpu_freq E arg s)"
  "cmd_cpu_topo E arg (with_tx t s) = map_run (with_tx t) (cmd_cpu_topo E arg s)"
  by (simp_all add: cmd_check_def cmd_cpu_freq_def cmd_cpu_scale_def cmd_cpu_topo_def frame split_def Let_def split: option.split cong: if_cong option.case_cong)

lemma frame_commands: "map_of (commands E) verb = Some f \<Longrightarrow> f arg (with_tx t s) = map_run (with_tx t) (f arg s)"
  by (auto simp: commands_def frame_create frame_tick frame_cmd_affinity frame_policy_fair frame_policy_rt frame_cgroups frame_machine split: if_splits)

lemma frame_verbs: "map_of (task_verbs E) verb = Some f \<Longrightarrow> f p (with_tx t s) = map_run (with_tx t) (f p s)"
  by (auto simp: task_verbs_def frame split: if_splits)

lemma frame_execute [frame]: "execute E line (with_tx t s) = map_run (\<lambda>(more, s). (more, with_tx t s)) (execute E line s)"
proof -
  let ?verb = "fst (strsep blanks line)"
  show ?thesis
  proof (cases "map_of (commands E) ?verb")
    case (Some f)
    then show ?thesis by (simp add: execute_def frame frame_commands[OF Some] split_def Let_def)
  next
    case no_command: None
    show ?thesis
    proof (cases "map_of (task_verbs E) ?verb")
      case (Some f)
      then show ?thesis using no_command
        by (simp add: execute_def frame frame_verbs[OF Some] split_def Let_def cong: if_cong option.case_cong)
    next
      case None
      then show ?thesis using no_command by (simp add: execute_def frame split_def Let_def)
    qed
  qed
qed

end
