(* ===== verification/Refine.thy ===== *)
theory Refine
  imports Channel
begin

text \<open>
  Refinement between transition systems: the states a system reaches, and the contract under which
  every state it reaches stands for one its specification reaches, whatever the interleaving. The
  channel to the host (kmod/io.c) is the first instance.
\<close>

section \<open>Reachable states and simulation\<close>

inductive reached :: "('s \<Rightarrow> bool) \<Rightarrow> ('s \<Rightarrow> 's \<Rightarrow> bool) \<Rightarrow> 's \<Rightarrow> bool" for start step where
  start: "start s \<Longrightarrow> reached start step s"
| step: "reached start step s \<Longrightarrow> step s s' \<Longrightarrow> reached start step s'"

text \<open>A step of the implementation is one of the specification or none that it can see.\<close>

locale simulation =
  fixes start :: "'c \<Rightarrow> bool" and step :: "'c \<Rightarrow> 'c \<Rightarrow> bool"
    and astart :: "'a \<Rightarrow> bool" and astep :: "'a \<Rightarrow> 'a \<Rightarrow> bool" and related :: "'c \<Rightarrow> 'a \<Rightarrow> bool"
  assumes start_sim: "start c \<Longrightarrow> \<exists>a. astart a \<and> related c a"
    and step_sim: "related c a \<Longrightarrow> step c c' \<Longrightarrow> related c' a \<or> (\<exists>a'. astep a a' \<and> related c' a')"
begin

lemma reached_related: "reached start step c \<Longrightarrow> \<exists>a. reached astart astep a \<and> related c a"
proof (induction rule: reached.induct)
  case (start c)
  then obtain a where "astart a" "related c a" using start_sim by blast
  then show ?case using reached.start[of astart a astep] by blast
next
  case (step c c')
  then obtain a where a: "reached astart astep a" "related c a" by blast
  from step_sim[OF a(2) step.hyps(2)] show ?case
  proof
    assume "related c' a"
    then show ?thesis using a(1) by blast
  next
    assume "\<exists>a'. astep a a' \<and> related c' a'"
    then obtain a' where "astep a a'" "related c' a'" by blast
    then show ?thesis using reached.step[OF a(1)] by blast
  qed
qed

end

section \<open>The channel as a queue of records\<close>

text \<open>The specification: what has been written and not delivered, and what has been delivered.\<close>

inductive queue_step :: "string list \<times> string list \<Rightarrow> string list \<times> string list \<Rightarrow> bool" where
  put: "queue_step (q, d) (q @ [r], d)"
| deliver: "queue_step (r # q, d) (q, d @ [r])"

definition tx_start :: "tx_sys \<Rightarrow> bool" where
  "tx_start s \<longleftrightarrow> (\<exists>mem. s = \<lparr>ts_tx = chan_tx_init mem, ts_sent = [], ts_host = []\<rparr>)"

definition tx_queue :: "tx_sys \<Rightarrow> string list \<times> string list \<Rightarrow> bool" where
  "tx_queue s a \<longleftrightarrow> tx_inv (ts_tx s) \<and> a = (tx_in_flight (ts_tx s), ts_host s)"

lemma tx_inv_init: "tx_inv (chan_tx_init mem)" "tx_in_flight (chan_tx_init mem) = []"
  by (simp_all add: tx_inv_def chan_tx_init_def tx_in_flight_def)

lemma tx_consume:
  assumes "tx_vq t = (b, n) # q" "tx_inv t"
  shows "tx_inv (t\<lparr>tx_vq := q, tx_used := tx_used t @ [b]\<rparr>)"
    "tx_in_flight t = take n (tx_mem t b) # tx_in_flight (t\<lparr>tx_vq := q, tx_used := tx_used t @ [b]\<rparr>)"
  using assms by (simp_all add: tx_inv_def tx_in_flight_def)

lemma tx_done_keeps: "tx_inv (tx_done t) = tx_inv t" "tx_in_flight (tx_done t) = tx_in_flight t"
  by (simp_all add: tx_done_def)

interpretation tx_refines: simulation tx_start tx_step "\<lambda>a. a = ([], [])" queue_step tx_queue
proof
  show "\<exists>a. a = ([], []) \<and> tx_queue s a" if "tx_start s" for s
    using that by (auto simp: tx_start_def tx_queue_def tx_inv_init)
  show "tx_queue s' a \<or> (\<exists>a'. queue_step a a' \<and> tx_queue s' a')" if "tx_queue s a" "tx_step s s'" for s a s'
    using that(2,1)
  proof (induction rule: tx_step.induct)
    case (send ok data s t)
    then show ?case using kstep_io_write_Inr[OF send.hyps] by (auto simp: tx_queue_def intro: queue_step.put)
  next
    case (consume s b n q)
    then show ?case using tx_consume[OF consume.hyps] by (auto simp: tx_queue_def intro: queue_step.deliver)
  next
    case (interrupt s)
    then show ?case by (simp add: tx_queue_def tx_done_keeps)
  qed
qed

end
