(* ===== verification/Host.thy ===== *)
theory Host
  imports Session Cli_Frame Refine
begin

text \<open>
  The host and the module together (kmod/io.c with kmod/cli.c): bytes arrive, lines are read from the
  ring, commands run, reports and replies go into the transmit buffers, the device takes them, in any
  order the interrupts allow. What the host reads is what a sequential specification of the session
  writes for the lines read, however the transfers fall.
\<close>

section \<open>A turn in its parts\<close>

text \<open>
  The turn of \<open>run\<close> on a command up to its reports (which the callbacks send while the machine runs),
  and the end of the turn: the region updated, the reply sent.
\<close>

definition begin_turn :: "'m env \<Rightarrow> string \<Rightarrow> 'm cli \<Rightarrow> (report list \<times> bool \<times> 'm cli) run" where
  "begin_turn E line s =
     bind_run (Some (kstep_json_begin (kstep_jiffies_get (t_clock (cl_ts s))))) (\<lambda>json.
     bind_run (execute E (strim (cstr line)) (s\<lparr>cl_reply := json\<rparr>)) (\<lambda>(go, s').
     bind_run (cli_settle E s') (\<lambda>s'. Some (Inr (en_reports E (cl_m s) (cl_m s'), go, s')))))"

definition end_turn :: "'m env \<Rightarrow> 'm cli \<Rightarrow> 'm cli outcome" where
  "end_turn E s = (let s = s\<lparr>cl_shm := region_of E s (cl_shm s)\<rparr> in
     bind_outcome (kstep_json_end True (cl_reply s) (cl_tx s)) (\<lambda>tx. Inr (s\<lparr>cl_tx := tx\<rparr>)))"

lemma run_line_parts:
  "run_line E line s = (if \<not> is_command line then Some (Inr (True, s))
     else bind_run (begin_turn E line s) (\<lambda>(rs, go, s').
       bind_run (Some (fold_outcome (send_report (cl_tasks s')) rs (cl_tx s'))) (\<lambda>tx.
       bind_run (Some (end_turn E (s'\<lparr>cl_tx := tx\<rparr>))) (\<lambda>s'. Some (Inr (go, s'))))))"
proof -
  have r: "region_of E (u\<lparr>cl_tx := tx\<rparr>) = region_of E u" for u :: "'a cli" and tx by (simp add: region_of_def cl_m_def)
  have e: "bind_run (Some (end_turn E (u\<lparr>cl_tx := tx\<rparr>))) (\<lambda>s'. Some (Inr (go, s')))
      = bind_run (Some (kstep_json_end True (cl_reply u) tx)) (\<lambda>tx. Some (Inr (go, u\<lparr>cl_shm := region_of E u (cl_shm u), cl_tx := tx\<rparr>)))" for u tx go
    by (cases "kstep_json_end True (cl_reply u) tx") (simp_all add: end_turn_def r Let_def)
  show ?thesis by (simp add: run_line_def is_command_def begin_turn_def e bind_run_assoc Let_def split_def)
qed

section \<open>The system\<close>

text \<open>
  The controller either reads a line or is inside a turn, with reports still to send and whether the
  session goes on after it; \<open>hs_host\<close> is what the host has read.
\<close>

record 'm host_sys =
  hs_in :: line_sys
  hs_cli :: "'m cli"
  hs_turn :: "(report list \<times> bool) option"
  hs_on :: bool
  hs_host :: "string list"

abbreviation hs_flight :: "'m host_sys \<Rightarrow> string list" where
  "hs_flight h \<equiv> tx_in_flight (cl_tx (hs_cli h))"

definition line_read :: "rx_state \<Rightarrow> line_sys \<Rightarrow> line_sys" where
  "line_read r i = i\<lparr>ls_rx := r, ls_line := [], ls_out := ls_out i @ [ls_line i]\<rparr>"

inductive host_step :: "'m env \<Rightarrow> 'm host_sys \<Rightarrow> 'm host_sys \<Rightarrow> bool" for E where
  arrive: "rx_done add_ok bufs (ls_rx (hs_in h)) = Inr r \<Longrightarrow>
    host_step E h (h\<lparr>hs_in := (hs_in h)\<lparr>ls_rx := r, ls_recv := ls_recv (hs_in h) @ concat bufs\<rparr>\<rparr>)"
| byte: "hs_on h \<Longrightarrow> hs_turn h = None \<Longrightarrow> rx_take (ls_rx (hs_in h)) = Some (c, r) \<Longrightarrow> c \<noteq> newline \<Longrightarrow>
    host_step E h (h\<lparr>hs_in := (hs_in h)\<lparr>ls_rx := r, ls_line := readline_byte LINE_MAX c (ls_line (hs_in h))\<rparr>\<rparr>)"
| skip: "hs_on h \<Longrightarrow> hs_turn h = None \<Longrightarrow> rx_take (ls_rx (hs_in h)) = Some (newline, r) \<Longrightarrow>
    \<not> is_command (ls_line (hs_in h)) \<Longrightarrow> host_step E h (h\<lparr>hs_in := line_read r (hs_in h)\<rparr>)"
| command: "hs_on h \<Longrightarrow> hs_turn h = None \<Longrightarrow> rx_take (ls_rx (hs_in h)) = Some (newline, r) \<Longrightarrow>
    is_command (ls_line (hs_in h)) \<Longrightarrow> begin_turn E (ls_line (hs_in h)) (hs_cli h) = Some (Inr (rs, go, s)) \<Longrightarrow>
    host_step E h (h\<lparr>hs_in := line_read r (hs_in h), hs_cli := s, hs_turn := Some (rs, go)\<rparr>)"
| report: "hs_turn h = Some (x # rs, go) \<Longrightarrow> send_report (cl_tasks (hs_cli h)) x (cl_tx (hs_cli h)) = Inr tx \<Longrightarrow>
    host_step E h (h\<lparr>hs_cli := (hs_cli h)\<lparr>cl_tx := tx\<rparr>, hs_turn := Some (rs, go)\<rparr>)"
| reply: "hs_turn h = Some ([], go) \<Longrightarrow> end_turn E (hs_cli h) = Inr s \<Longrightarrow>
    host_step E h (h\<lparr>hs_cli := s, hs_turn := None, hs_on := go\<rparr>)"
| consume: "tx_vq (cl_tx (hs_cli h)) = (b, n) # q \<Longrightarrow> tx = cl_tx (hs_cli h) \<Longrightarrow>
    host_step E h (h\<lparr>hs_cli := (hs_cli h)\<lparr>cl_tx := tx\<lparr>tx_vq := q, tx_used := tx_used tx @ [b]\<rparr>\<rparr>, hs_host := hs_host h @ [take n (tx_mem tx b)]\<rparr>)"
| interrupt: "host_step E h (h\<lparr>hs_cli := (hs_cli h)\<lparr>cl_tx := tx_done (cl_tx (hs_cli h))\<rparr>\<rparr>)"

definition host_start :: "'m env \<Rightarrow> u64 \<Rightarrow> u64 \<Rightarrow> 'm cli \<Rightarrow> 'm host_sys \<Rightarrow> bool" where
  "host_start E shm_phys cov_phys s0 h \<longleftrightarrow> (\<exists>ring k s. length ring = RX_RING \<and> cli_run E shm_phys cov_phys [] s0 = Some (Inr (True, s))
     \<and> h = \<lparr>hs_in = \<lparr>ls_rx = \<lparr>rx_ring = ring, rx_head = k, rx_tail = k\<rparr>, ls_line = [], ls_out = [], ls_recv = []\<rparr>,
         hs_cli = s, hs_turn = None, hs_on = True, hs_host = []\<rparr>)"

section \<open>The specification\<close>

text \<open>
  Lines one after the other, each turn whole, records in a list without a bound: what a report and a
  reply put on an empty channel.
\<close>

definition report_records :: "(tptr \<times> nat) list \<Rightarrow> report \<Rightarrow> string list outcome" where
  "report_records tasks x = bind_outcome (send_report tasks x (chan_tx_init (\<lambda>_. []))) (\<lambda>tx. Inr (tx_in_flight tx))"

definition all_records :: "(tptr \<times> nat) list \<Rightarrow> report list \<Rightarrow> string list outcome" where
  "all_records tasks rs = fold_outcome (\<lambda>x recs. bind_outcome (report_records tasks x) (\<lambda>r. Inr (recs @ r))) rs []"

definition spec_turn :: "'m env \<Rightarrow> string \<Rightarrow> 'm cli \<Rightarrow> (string list \<times> bool \<times> 'm cli) run" where
  "spec_turn E line s = (if \<not> is_command line then Some (Inr ([], True, s))
     else bind_run (begin_turn E line s) (\<lambda>(rs, go, s').
       bind_run (Some (all_records (cl_tasks s') rs)) (\<lambda>recs.
       bind_run (Some (kstep_json_close (cl_reply s'))) (\<lambda>r.
       Some (Inr (recs @ [r], go, s'\<lparr>cl_shm := region_of E s' (cl_shm s')\<rparr>))))))"

record 'm session_spec =
  sp_lines :: "string list"
  sp_records :: "string list"
  sp_on :: bool
  sp_cli :: "'m cli"

inductive spec_step :: "'m env \<Rightarrow> 'm session_spec \<Rightarrow> 'm session_spec \<Rightarrow> bool" for E where
  turn: "sp_on a \<Longrightarrow> spec_turn E l (sp_cli a) = Some (Inr (rs, go, s)) \<Longrightarrow>
    spec_step E a \<lparr>sp_lines = sp_lines a @ [l], sp_records = sp_records a @ rs, sp_on = go, sp_cli = s\<rparr>"

definition ready_record :: "u64 \<Rightarrow> u64 \<Rightarrow> u64 \<Rightarrow> string outcome" where
  "ready_record now shm_phys cov_phys = json_record now (\<lambda>json. bind_outcome (kstep_json_field_bool ''ready'' True json) (\<lambda>json.
     bind_outcome (kstep_json_field_u64 ''shm'' shm_phys json) (kstep_json_field_u64 ''cov'' cov_phys)))"

definition spec_start :: "u64 \<Rightarrow> u64 \<Rightarrow> 'm cli \<Rightarrow> 'm session_spec \<Rightarrow> bool" where
  "spec_start shm_phys cov_phys s0 a \<longleftrightarrow> (\<exists>r. ready_record (kstep_jiffies_get (t_clock (cl_ts s0))) shm_phys cov_phys = Inr r
     \<and> a = \<lparr>sp_lines = [], sp_records = [r], sp_on = True, sp_cli = s0\<rparr>)"

section \<open>Turns do not depend on the channel\<close>

lemma frame_begin_turn: "begin_turn E l (with_tx t s) = map_run (\<lambda>(rs, go, s). (rs, go, with_tx t s)) (begin_turn E l s)"
  by (simp add: begin_turn_def frame split_def)

lemma frame_region: "region_of E (with_tx t s) = region_of E s"
  by (simp add: region_of_def frame Let_def)

lemma end_turn_frame:
  "end_turn E (with_tx t c) = Inr s \<longleftrightarrow> (\<exists>r tx. kstep_json_close (cl_reply c) = Inr r \<and> kstep_io_write True r t = Inr tx
     \<and> s = with_tx tx (c\<lparr>cl_shm := region_of E c (cl_shm c)\<rparr>))"
proof -
  have "end_turn E (with_tx t c) = bind_outcome (kstep_json_close (cl_reply c)) (\<lambda>r. bind_outcome (kstep_io_write True r t) (\<lambda>tx.
      Inr (with_tx tx (c\<lparr>cl_shm := region_of E c (cl_shm c)\<rparr>))))"
    by (simp add: end_turn_def kstep_json_end_def frame frame_region bind_outcome_assoc Let_def) (simp add: with_tx_def)
  then show ?thesis by (auto simp: bind_outcome_Inr_iff)
qed

lemma write_on_fresh: "kstep_io_write True r tx = Inr tx' \<Longrightarrow> \<exists>t. kstep_io_write True r (chan_tx_init (\<lambda>_. [])) = Inr t"
  by (auto simp: kstep_io_write_def chan_tx_init_def Let_def split: if_splits)

lemma record_on_fresh:
  assumes "send_record now True body tx = Inr tx'" "tx_inv tx"
  shows "\<exists>r t. send_record now True body (chan_tx_init (\<lambda>_. [])) = Inr t \<and> tx_in_flight t = [r] \<and> tx_inv tx' \<and> tx_in_flight tx' = tx_in_flight tx @ [r]"
proof -
  obtain r where r: "json_record now body = Inr r" "kstep_io_write True r tx = Inr tx'"
    using assms(1) by (auto simp: send_record_eq bind_outcome_Inr_iff)
  obtain t where t: "kstep_io_write True r (chan_tx_init (\<lambda>_. [])) = Inr t" using write_on_fresh[OF r(2)] by blast
  show ?thesis using kstep_io_write_Inr[OF r(2) assms(2)] kstep_io_write_Inr[OF t tx_inv_init(1)] r(1) t
    by (auto simp: send_record_eq tx_inv_init)
qed

lemma report_on_fresh:
  assumes "send_report tasks x tx = Inr tx'" "tx_inv tx"
  shows "\<exists>recs. report_records tasks x = Inr recs \<and> tx_inv tx' \<and> tx_in_flight tx' = tx_in_flight tx @ recs"
proof -
  have "(send_report tasks x (chan_tx_init (\<lambda>_. [])) = Inr (chan_tx_init (\<lambda>_. [])) \<and> tx' = tx) \<or>
      (\<exists>r t. send_report tasks x (chan_tx_init (\<lambda>_. [])) = Inr t \<and> tx_in_flight t = [r] \<and> tx_inv tx' \<and> tx_in_flight tx' = tx_in_flight tx @ [r])"
    using assms(1) record_on_fresh[OF _ assms(2)]
    by (cases x) (auto simp: report_migrate_def Let_def kstep_output_migrate_def kstep_output_balance_def kstep_warn_def split: if_splits)
  then show ?thesis using assms(2) by (auto simp: report_records_def tx_inv_init)
qed

lemma all_records_snoc: "all_records tasks (rs @ [x]) = bind_outcome (all_records tasks rs) (\<lambda>recs. bind_outcome (report_records tasks x) (\<lambda>r. Inr (recs @ r)))"
  by (cases "all_records tasks rs"; cases "report_records tasks x") (simp_all add: all_records_def fold_outcome_append)

section \<open>The refinement\<close>

text \<open>Between turns the two agree; inside one the specification waits for the reply.\<close>

definition host_related :: "'m env \<Rightarrow> 'm host_sys \<Rightarrow> 'm session_spec \<Rightarrow> bool" where
  "host_related E h a \<longleftrightarrow> tx_inv (cl_tx (hs_cli h)) \<and> (case hs_turn h of
     None \<Rightarrow> sp_lines a = ls_out (hs_in h) \<and> sp_on a = hs_on h \<and> sp_records a = hs_host h @ hs_flight h
       \<and> hs_cli h = with_tx (cl_tx (hs_cli h)) (sp_cli a)
   | Some (rs, go) \<Rightarrow> sp_on a \<and> (\<exists>l sent_rs sent s. ls_out (hs_in h) = sp_lines a @ [l] \<and> is_command l
       \<and> begin_turn E l (sp_cli a) = Some (Inr (sent_rs @ rs, go, s)) \<and> all_records (cl_tasks s) sent_rs = Inr sent
       \<and> hs_host h @ hs_flight h = sp_records a @ sent \<and> hs_cli h = with_tx (cl_tx (hs_cli h)) s))"

lemma host_start_related:
  assumes "host_start E shm cov s0 h" "tx_inv (cl_tx s0)" "tx_in_flight (cl_tx s0) = []"
  shows "\<exists>a. spec_start shm cov s0 a \<and> host_related E h a"
proof -
  obtain tx where tx: "hs_cli h = s0\<lparr>cl_tx := tx\<rparr>" "hs_turn h = None" "hs_on h" "hs_host h = []" "ls_out (hs_in h) = []"
    and "send_record (kstep_jiffies_get (t_clock (cl_ts s0))) True (\<lambda>json. bind_outcome (kstep_json_field_bool ''ready'' True json) (\<lambda>json.
     bind_outcome (kstep_json_field_u64 ''shm'' shm json) (kstep_json_field_u64 ''cov'' cov))) (cl_tx s0) = Inr tx"
    using assms(1) by (auto simp: host_start_def cli_run_def bind_run_returns)
  then obtain r where r: "ready_record (kstep_jiffies_get (t_clock (cl_ts s0))) shm cov = Inr r" "kstep_io_write True r (cl_tx s0) = Inr tx"
    by (auto simp: send_record_eq bind_outcome_Inr_iff ready_record_def)
  have "host_related E h \<lparr>sp_lines = [], sp_records = [r], sp_on = True, sp_cli = s0\<rparr>"
    using tx kstep_io_write_Inr[OF r(2) assms(2)] assms(3) by (simp add: host_related_def with_tx_def)
  then show ?thesis using r(1) by (auto simp: spec_start_def)
qed

text \<open>What the device does to the buffers.\<close>

lemma related_channel:
  assumes "host_related E h a" "tx_inv tx" "hs_host h @ hs_flight h = host @ tx_in_flight tx"
  shows "host_related E (h\<lparr>hs_cli := (hs_cli h)\<lparr>cl_tx := tx\<rparr>, hs_host := host\<rparr>) a"
proof -
  have w: "(hs_cli h)\<lparr>cl_tx := tx\<rparr> = with_tx tx s" if "hs_cli h = with_tx (cl_tx (hs_cli h)) s" for s
    using that by (metis with_tx_def with_tx_updates(7))
  show ?thesis using assms w by (auto simp: host_related_def split: option.splits prod.splits)
qed

lemma related_command:
  assumes "host_related E h a" "hs_on h" "hs_turn h = None" "is_command (ls_line (hs_in h))"
    and "begin_turn E (ls_line (hs_in h)) (hs_cli h) = Some (Inr (rs, go, s))"
  shows "host_related E (h\<lparr>hs_in := line_read r (hs_in h), hs_cli := s, hs_turn := Some (rs, go)\<rparr>) a"
proof -
  let ?t = "cl_tx (hs_cli h)"
  have h: "tx_inv ?t" "sp_lines a = ls_out (hs_in h)" "sp_on a" "sp_records a = hs_host h @ hs_flight h" "hs_cli h = with_tx ?t (sp_cli a)"
    using assms(1-3) by (auto simp: host_related_def)
  have "map_run (\<lambda>(rs, go, s). (rs, go, with_tx ?t s)) (begin_turn E (ls_line (hs_in h)) (sp_cli a)) = Some (Inr (rs, go, s))"
    using assms(5) frame_begin_turn[of E _ ?t "sp_cli a"] h(5) by metis
  then obtain c where c: "begin_turn E (ls_line (hs_in h)) (sp_cli a) = Some (Inr (rs, go, c))" "s = with_tx ?t c"
    by (auto simp: map_run_def bind_run_returns)
  then show ?thesis using h assms(4) by (auto simp: host_related_def line_read_def all_records_def frame)
qed

lemma related_report:
  assumes "host_related E h a" "hs_turn h = Some (x # rs, go)" "send_report (cl_tasks (hs_cli h)) x (cl_tx (hs_cli h)) = Inr tx"
  shows "host_related E (h\<lparr>hs_cli := (hs_cli h)\<lparr>cl_tx := tx\<rparr>, hs_turn := Some (rs, go)\<rparr>) a"
proof -
  obtain l sofar sent s where h: "tx_inv (cl_tx (hs_cli h))" "sp_on a" "ls_out (hs_in h) = sp_lines a @ [l]" "is_command l"
    "begin_turn E l (sp_cli a) = Some (Inr (sofar @ x # rs, go, s))" "all_records (cl_tasks s) sofar = Inr sent"
    "hs_host h @ hs_flight h = sp_records a @ sent" "hs_cli h = with_tx (cl_tx (hs_cli h)) s"
    using assms(1,2) by (auto simp: host_related_def)
  obtain recs where recs: "report_records (cl_tasks (hs_cli h)) x = Inr recs" "tx_inv tx" "tx_in_flight tx = hs_flight h @ recs"
    using report_on_fresh[OF assms(3) h(1)] by blast
  have t: "cl_tasks (hs_cli h) = cl_tasks s" using h(8) by (metis with_tx_fields(2))
  have "all_records (cl_tasks s) (sofar @ [x]) = Inr (sent @ recs)" using h(6) recs(1) t by (simp add: all_records_snoc)
  moreover have "hs_host h @ tx_in_flight tx = sp_records a @ sent @ recs" using h(7) recs(3) by (metis append_assoc)
  moreover have "(hs_cli h)\<lparr>cl_tx := tx\<rparr> = with_tx tx s" using h(8) by (metis with_tx_def with_tx_updates(7))
  moreover have "begin_turn E l (sp_cli a) = Some (Inr ((sofar @ [x]) @ rs, go, s))" using h(5) by simp
  ultimately show ?thesis using h(2-4) recs(2) unfolding host_related_def by (auto simp: frame)
qed

lemma related_reply:
  assumes "host_related E h a" "hs_turn h = Some ([], go)" "end_turn E (hs_cli h) = Inr s"
  shows "\<exists>a'. spec_step E a a' \<and> host_related E (h\<lparr>hs_cli := s, hs_turn := None, hs_on := go\<rparr>) a'"
proof -
  let ?t = "cl_tx (hs_cli h)"
  obtain l sofar sent c where h: "tx_inv ?t" "sp_on a" "ls_out (hs_in h) = sp_lines a @ [l]" "is_command l"
    "begin_turn E l (sp_cli a) = Some (Inr (sofar, go, c))" "all_records (cl_tasks c) sofar = Inr sent"
    "hs_host h @ hs_flight h = sp_records a @ sent" "hs_cli h = with_tx ?t c"
    using assms(1,2) by (auto simp: host_related_def)
  let ?c = "c\<lparr>cl_shm := region_of E c (cl_shm c)\<rparr>"
  obtain r tx where r: "kstep_json_close (cl_reply c) = Inr r" "kstep_io_write True r ?t = Inr tx" "s = with_tx tx ?c"
    using assms(3) end_turn_frame[of E ?t c s] h(8) by metis
  have "spec_turn E l (sp_cli a) = Some (Inr (sent @ [r], go, ?c))" using h(4-6) r(1) by (simp add: spec_turn_def)
  note step = spec_step.turn[OF h(2) this]
  have "host_related E (h\<lparr>hs_cli := s, hs_turn := None, hs_on := go\<rparr>)
      \<lparr>sp_lines = sp_lines a @ [l], sp_records = sp_records a @ sent @ [r], sp_on = go, sp_cli = ?c\<rparr>"
    using h(3,7) kstep_io_write_Inr[OF r(2) h(1)] by (simp add: host_related_def r(3) frame)
  then show ?thesis using step by blast
qed

lemma related_step:
  assumes "host_step E h h'" "host_related E h a"
  shows "host_related E h' a \<or> (\<exists>a'. spec_step E a a' \<and> host_related E h' a')"
  using assms
proof (induction rule: host_step.induct)
  case (arrive add_ok bufs h r)
  then show ?case by (simp add: host_related_def split: option.splits prod.splits)
next
  case (byte h c r)
  then show ?case by (simp add: host_related_def)
next
  case (skip h r)
  then have "sp_on a" "spec_turn E (ls_line (hs_in h)) (sp_cli a) = Some (Inr ([], True, sp_cli a))"
    by (simp_all add: host_related_def spec_turn_def)
  note step = spec_step.turn[OF this]
  moreover have "host_related E (h\<lparr>hs_in := line_read r (hs_in h)\<rparr>)
      \<lparr>sp_lines = sp_lines a @ [ls_line (hs_in h)], sp_records = sp_records a @ [], sp_on = True, sp_cli = sp_cli a\<rparr>"
    using skip by (simp add: host_related_def line_read_def)
  ultimately show ?case by blast
next
  case (command h r rs go s)
  then show ?case using related_command by blast
next
  case (report h x rs go tx)
  then show ?case using related_report by blast
next
  case (reply h go s)
  then show ?case using related_reply by blast
next
  case (consume h b n q tx)
  then have "tx_inv tx" by (simp add: host_related_def)
  then show ?case using consume tx_consume[of tx b n q] related_channel[OF consume.prems] by simp
next
  case (interrupt h)
  then have "tx_inv (cl_tx (hs_cli h))" by (simp add: host_related_def)
  then show ?case using related_channel[OF interrupt.prems, of "tx_done (cl_tx (hs_cli h))" "hs_host h"] by (simp add: tx_done_keeps)
qed

text \<open>The session starts on a channel with nothing in flight.\<close>

definition fresh_start :: "'m env \<Rightarrow> u64 \<Rightarrow> u64 \<Rightarrow> 'm cli \<Rightarrow> 'm host_sys \<Rightarrow> bool" where
  "fresh_start E shm_phys cov_phys s0 h \<longleftrightarrow> host_start E shm_phys cov_phys s0 h \<and> tx_inv (cl_tx s0) \<and> tx_in_flight (cl_tx s0) = []"

interpretation host_refines: simulation "fresh_start E shm cov s0" "host_step E" "spec_start shm cov s0" "spec_step E" "host_related E"
  for E :: "'m env" and shm cov s0
  by unfold_locales (auto simp: fresh_start_def dest: host_start_related related_step)

text \<open>The lines read are those of the stream; inside the system the ring and the reads are those of the receiving side alone.\<close>

lemma host_lines:
  assumes "reached (fresh_start E shm cov s0) (host_step E) h"
  shows "line_reachable LINE_MAX (hs_in h)"
  using assms
proof (induction rule: reached.induct)
  case (start h)
  then show ?case by (auto simp: fresh_start_def host_start_def intro: line_reachable.start)
next
  case (step h h')
  have "hs_in h' = hs_in h \<or> line_step LINE_MAX (hs_in h) (hs_in h')"
    using step.hyps(2)
    by (induction rule: host_step.induct) (auto simp: line_read_def intro: line_step.intros line_step.complete[simplified])
  then show ?case using step.IH line_reachable.step by metis
qed

lemma spec_deterministic:
  assumes "reached (spec_start shm cov s0) (spec_step E) a" "reached (spec_start shm cov s0) (spec_step E) b" "sp_lines a = sp_lines b"
  shows "a = b"
  using assms
proof (induction a arbitrary: b rule: reached.induct)
  case (start a)
  from start.prems(1) show ?case
  proof (cases rule: reached.cases)
    case start
    then show ?thesis using \<open>spec_start shm cov s0 a\<close> by (auto simp: spec_start_def)
  next
    case (step c)
    then show ?thesis using start.hyps start.prems(2) by (auto simp: spec_start_def elim: spec_step.cases)
  qed
next
  case (step a a')
  obtain l rs go s where a: "spec_turn E l (sp_cli a) = Some (Inr (rs, go, s))"
    "a' = \<lparr>sp_lines = sp_lines a @ [l], sp_records = sp_records a @ rs, sp_on = go, sp_cli = s\<rparr>"
    using step.hyps(2) by (auto elim: spec_step.cases)
  from step.prems(1) show ?case
  proof (cases rule: reached.cases)
    case start
    then show ?thesis using step.prems(2) a(2) by (auto simp: spec_start_def)
  next
    case s: (step c)
    obtain l' rs' go' s' where c: "spec_turn E l' (sp_cli c) = Some (Inr (rs', go', s'))"
      "b = \<lparr>sp_lines = sp_lines c @ [l'], sp_records = sp_records c @ rs', sp_on = go', sp_cli = s'\<rparr>"
      using s(2) by (auto elim: spec_step.cases)
    then have "sp_lines a = sp_lines c" "l = l'" using step.prems(2) a(2) by auto
    then show ?thesis using step.IH[OF s(1)] a c by simp
  qed
qed

section \<open>Progress\<close>

text \<open>The steps of a system: none of them takes away what the host has read.\<close>

abbreviation host_steps :: "'m env \<Rightarrow> 'm host_sys \<Rightarrow> 'm host_sys \<Rightarrow> bool" where
  "host_steps E \<equiv> (host_step E)\<^sup>*\<^sup>*"

lemma host_steps_first: "host_step E h g \<Longrightarrow> host_steps E g k \<Longrightarrow> host_steps E h k"
  by (rule converse_rtranclp_into_rtranclp)

lemma reached_steps: "(host_step E)\<^sup>*\<^sup>* h h' \<Longrightarrow> reached S (host_step E) h \<Longrightarrow> reached S (host_step E) h'"
  by (induction rule: rtranclp_induct) (auto intro: reached.step)

lemma host_drains:
  "tx_inv (cl_tx (hs_cli h)) \<Longrightarrow> \<exists>t. host_steps E h (h\<lparr>hs_cli := with_tx t (hs_cli h), hs_host := hs_host h @ hs_flight h\<rparr>)
     \<and> tx_inv t \<and> tx_vq t = []"
proof (induction "tx_vq (cl_tx (hs_cli h))" arbitrary: h)
  case Nil
  then have "h\<lparr>hs_cli := with_tx (cl_tx (hs_cli h)) (hs_cli h), hs_host := hs_host h @ hs_flight h\<rparr> = h"
    by (simp add: tx_in_flight_def with_tx_def)
  then show ?case using Nil by (metis rtranclp.rtrancl_refl)
next
  case (Cons b q)
  let ?t = "cl_tx (hs_cli h)"
  obtain i n where b: "b = (i, n)" by force
  let ?u = "?t\<lparr>tx_vq := q, tx_used := tx_used ?t @ [i]\<rparr>"
  let ?h = "h\<lparr>hs_cli := (hs_cli h)\<lparr>cl_tx := ?u\<rparr>, hs_host := hs_host h @ [take n (tx_mem ?t i)]\<rparr>"
  have vq: "tx_vq ?t = (i, n) # q" using Cons.hyps(2) b by simp
  have step: "host_step E h ?h" by (rule host_step.consume[OF vq refl])
  obtain t where t: "host_steps E ?h (?h\<lparr>hs_cli := with_tx t (hs_cli ?h), hs_host := hs_host ?h @ hs_flight ?h\<rparr>)" "tx_inv t" "tx_vq t = []"
    using Cons.hyps(1)[of ?h] tx_consume(1)[OF vq Cons.prems] by auto
  have "?h\<lparr>hs_cli := with_tx t (hs_cli ?h), hs_host := hs_host ?h @ hs_flight ?h\<rparr> = h\<lparr>hs_cli := with_tx t (hs_cli h), hs_host := hs_host h @ hs_flight h\<rparr>"
    using tx_consume(2)[OF vq Cons.prems] by (simp add: with_tx_def)
  then show ?case using t step by (metis converse_rtranclp_into_rtranclp)
qed

lemma write_when_drained:
  "tx_inv t \<Longrightarrow> tx_vq t = [] \<Longrightarrow> length r \<le> TX_BUF \<Longrightarrow> \<exists>t'. kstep_io_write True r t = Inr t'"
  using kstep_io_write_full[of t r] by (cases "kstep_io_write True r t") auto

lemma record_when_drained:
  assumes "send_record now True body (chan_tx_init mem) = Inr u" "tx_inv t" "tx_vq t = []"
  shows "\<exists>t'. send_record now True body t = Inr t'"
  using assms write_when_drained kstep_io_write_Inr[OF _ tx_inv_init(1)] by (fastforce simp: send_record_eq bind_outcome_Inr_iff)

lemma report_when_drained:
  assumes "report_records tasks x = Inr recs" "tx_inv t" "tx_vq t = []"
  shows "\<exists>t'. send_report tasks x t = Inr t'"
proof -
  obtain u where "send_report tasks x (chan_tx_init (\<lambda>_. [])) = Inr u"
    using assms(1) by (auto simp: report_records_def bind_outcome_Inr_iff)
  then show ?thesis using record_when_drained[OF _ assms(2,3)]
    by (cases x) (auto simp: report_migrate_def Let_def kstep_output_migrate_def kstep_output_balance_def kstep_warn_def split: if_splits)
qed

lemma all_records_Cons:
  "all_records tasks (x # rs) = bind_outcome (report_records tasks x) (\<lambda>r. bind_outcome (all_records tasks rs) (\<lambda>recs. Inr (r @ recs)))"
proof (induction rs rule: rev_induct)
  case Nil
  then show ?case by (cases "report_records tasks x") (simp_all add: all_records_def)
next
  case (snoc y rs)
  have "all_records tasks ((x # rs) @ [y]) = bind_outcome (all_records tasks (x # rs)) (\<lambda>recs. bind_outcome (report_records tasks y) (\<lambda>r. Inr (recs @ r)))"
    by (rule all_records_snoc)
  then show ?case unfolding snoc
    by (cases "report_records tasks x"; cases "report_records tasks y"; cases "all_records tasks rs") (simp_all add: all_records_snoc)
qed

lemma reports_complete:
  assumes "tx_inv (cl_tx (hs_cli h))" "hs_turn h = Some (rs, go)" "all_records (cl_tasks (hs_cli h)) rs = Inr recs"
  shows "\<exists>t. host_steps E h (h\<lparr>hs_cli := with_tx t (hs_cli h), hs_turn := Some ([], go), hs_host := hs_host h @ hs_flight h @ recs\<rparr>)
     \<and> tx_inv t \<and> tx_vq t = []"
  using assms
proof (induction rs arbitrary: h recs)
  case Nil
  then have "recs = []" by (simp add: all_records_def)
  moreover have "h\<lparr>hs_cli := c, hs_turn := Some ([], go), hs_host := y\<rparr> = h\<lparr>hs_cli := c, hs_host := y\<rparr>" for c y
    using Nil(2) by (cases h) simp
  ultimately show ?case using host_drains[OF Nil(1), of E] by simp
next
  case (Cons x rs)
  obtain r recs' where r: "report_records (cl_tasks (hs_cli h)) x = Inr r" "all_records (cl_tasks (hs_cli h)) rs = Inr recs'" "recs = r @ recs'"
    using Cons.prems(3) by (auto simp: all_records_Cons bind_outcome_Inr_iff)
  obtain t where t: "host_steps E h (h\<lparr>hs_cli := with_tx t (hs_cli h), hs_host := hs_host h @ hs_flight h\<rparr>)" "tx_inv t" "tx_vq t = []"
    using host_drains[OF Cons.prems(1)] by blast
  let ?h = "h\<lparr>hs_cli := with_tx t (hs_cli h), hs_host := hs_host h @ hs_flight h\<rparr>"
  obtain u where u: "send_report (cl_tasks (hs_cli h)) x t = Inr u" using report_when_drained[OF r(1) t(2,3)] by blast
  have iu: "tx_inv u" "tx_in_flight u = r" using report_on_fresh[OF u t(2)] r(1) t(3) by (auto simp: tx_in_flight_def)
  let ?g = "?h\<lparr>hs_cli := (hs_cli ?h)\<lparr>cl_tx := u\<rparr>, hs_turn := Some (rs, go)\<rparr>"
  have step: "host_step E ?h ?g" using u Cons.prems(2) by (intro host_step.report[where x = x]) (simp_all add: frame)
  have g: "?g = h\<lparr>hs_cli := with_tx u (hs_cli h), hs_turn := Some (rs, go), hs_host := hs_host h @ hs_flight h\<rparr>" by (simp add: with_tx_def)
  obtain v where v: "host_steps E ?g (?g\<lparr>hs_cli := with_tx v (hs_cli ?g), hs_turn := Some ([], go), hs_host := hs_host ?g @ hs_flight ?g @ recs'\<rparr>)"
    "tx_inv v" "tx_vq v = []"
    using Cons.IH[of ?g recs'] iu(1) r(2) unfolding g by (auto simp: frame)
  have "?g\<lparr>hs_cli := with_tx v (hs_cli ?g), hs_turn := Some ([], go), hs_host := hs_host ?g @ hs_flight ?g @ recs'\<rparr>
      = h\<lparr>hs_cli := with_tx v (hs_cli h), hs_turn := Some ([], go), hs_host := hs_host h @ hs_flight h @ recs\<rparr>"
    unfolding g r(3) using iu(2) by (simp add: frame)
  then show ?case using v(2,3) rtranclp_trans[OF rtranclp.rtrancl_into_rtrancl[OF t(1) step] v(1)] by auto
qed

lemma reply_completes:
  assumes "tx_inv t" "tx_vq t = []" "hs_cli h = with_tx t s" "hs_turn h = Some ([], go)" "kstep_json_close (cl_reply s) = Inr r" "length r \<le> TX_BUF"
  shows "\<exists>u. host_steps E h (h\<lparr>hs_cli := with_tx u (s\<lparr>cl_shm := region_of E s (cl_shm s)\<rparr>), hs_turn := None, hs_on := go, hs_host := hs_host h @ [r]\<rparr>)
     \<and> tx_inv u \<and> tx_vq u = []"
proof -
  let ?s = "s\<lparr>cl_shm := region_of E s (cl_shm s)\<rparr>"
  obtain u where u: "kstep_io_write True r t = Inr u" using write_when_drained[OF assms(1,2,6)] by blast
  have iu: "tx_inv u" "tx_in_flight u = [r]" using kstep_io_write_Inr[OF u assms(1)] assms(2) by (simp_all add: tx_in_flight_def)
  have "end_turn E (hs_cli h) = Inr (with_tx u ?s)" unfolding assms(3) end_turn_frame using assms(5) u by blast
  note step = host_step.reply[OF assms(4) this]
  let ?g = "h\<lparr>hs_cli := with_tx u ?s, hs_turn := None, hs_on := go\<rparr>"
  obtain v where v: "host_steps E ?g (?g\<lparr>hs_cli := with_tx v (hs_cli ?g), hs_host := hs_host ?g @ hs_flight ?g\<rparr>)" "tx_inv v" "tx_vq v = []"
    using host_drains[of ?g E] iu(1) by (auto simp: frame)
  have "?g\<lparr>hs_cli := with_tx v (hs_cli ?g), hs_host := hs_host ?g @ hs_flight ?g\<rparr>
      = h\<lparr>hs_cli := with_tx v ?s, hs_turn := None, hs_on := go, hs_host := hs_host h @ [r]\<rparr>"
    using iu(2) by (simp add: frame)
  then show ?thesis using host_steps_first[OF step v(1)] v(2,3) by auto
qed

text \<open>The controller reads what is in the ring.\<close>

lemma host_reads:
  assumes "rx_inv (ls_rx (hs_in h))" "rx_bytes (ls_rx (hs_in h)) = l @ rest" "newline \<notin> set l" "hs_on h" "hs_turn h = None"
    and "ls_line (hs_in h) = cut LINE_MAX pre"
  shows "\<exists>r. rx_inv r \<and> rx_bytes r = rest \<and> host_steps E h (h\<lparr>hs_in := (hs_in h)\<lparr>ls_rx := r, ls_line := cut LINE_MAX (pre @ l)\<rparr>\<rparr>)"
  using assms
proof (induction l arbitrary: h pre)
  case Nil
  have "h\<lparr>hs_in := (hs_in h)\<lparr>ls_rx := ls_rx (hs_in h), ls_line := cut LINE_MAX (pre @ [])\<rparr>\<rparr> = h"
    using Nil(6) by (cases h; cases "hs_in h") simp
  then show ?case using Nil(1,2) by (metis append_Nil rtranclp.rtrancl_refl)
next
  case (Cons c l)
  obtain r where r: "rx_take (ls_rx (hs_in h)) = Some (c, r)" "rx_inv r" "rx_bytes r = l @ rest"
    using rx.take_some[OF Cons.prems(1), of c "l @ rest"] Cons.prems(2) by auto
  have c: "c \<noteq> newline" using Cons.prems(3) by auto
  let ?h = "h\<lparr>hs_in := (hs_in h)\<lparr>ls_rx := r, ls_line := cut LINE_MAX (pre @ [c])\<rparr>\<rparr>"
  have step: "host_step E h ?h" using host_step.byte[OF Cons.prems(4,5) r(1) c, of E] Cons.prems(6) readline_byte_take[OF c] by simp
  obtain r' where "rx_inv r'" "rx_bytes r' = rest" "host_steps E ?h (?h\<lparr>hs_in := (hs_in ?h)\<lparr>ls_rx := r', ls_line := cut LINE_MAX ((pre @ [c]) @ l)\<rparr>\<rparr>)"
    using Cons.IH[of ?h "pre @ [c]"] r Cons.prems by auto
  then show ?case using host_steps_first[OF step] by auto
qed

lemma turn_completes:
  assumes "tx_inv (cl_tx (hs_cli h))" "hs_turn h = Some (rs, go)" "all_records (cl_tasks (hs_cli h)) rs = Inr recs"
    and "kstep_json_close (cl_reply (hs_cli h)) = Inr r" "length r \<le> TX_BUF"
  shows "\<exists>h'. host_steps E h h' \<and> hs_turn h' = None \<and> hs_on h' = go \<and> hs_in h' = hs_in h \<and> hs_host h' = hs_host h @ hs_flight h @ recs @ [r]
    \<and> hs_flight h' = [] \<and> tx_inv (cl_tx (hs_cli h')) \<and> hs_cli h' = with_tx (cl_tx (hs_cli h')) ((hs_cli h)\<lparr>cl_shm := region_of E (hs_cli h) (cl_shm (hs_cli h))\<rparr>)"
proof -
  obtain t where t: "host_steps E h (h\<lparr>hs_cli := with_tx t (hs_cli h), hs_turn := Some ([], go), hs_host := hs_host h @ hs_flight h @ recs\<rparr>)" "tx_inv t" "tx_vq t = []"
    using reports_complete[OF assms(1-3)] by blast
  let ?g = "h\<lparr>hs_cli := with_tx t (hs_cli h), hs_turn := Some ([], go), hs_host := hs_host h @ hs_flight h @ recs\<rparr>"
  obtain u where u: "host_steps E ?g (?g\<lparr>hs_cli := with_tx u ((hs_cli h)\<lparr>cl_shm := region_of E (hs_cli h) (cl_shm (hs_cli h))\<rparr>), hs_turn := None, hs_on := go, hs_host := hs_host ?g @ [r]\<rparr>)"
    "tx_inv u" "tx_vq u = []"
    using reply_completes[of t ?g "hs_cli h" go r E] t(2,3) assms(4,5) by auto
  show ?thesis using rtranclp_trans[OF t(1) u(1)] u(2,3) by (intro exI conjI) (assumption, simp_all add: frame tx_in_flight_def)
qed

lemma close_fits: "kstep_json_close json = Inr r \<Longrightarrow> length r \<le> TX_BUF"
  by (auto simp: kstep_json_close_def kstep_json_append_char_def bind_outcome_Inr_iff split: if_splits)

lemma line_answered:
  assumes "reached (fresh_start E shm cov s0) (host_step E) h" "hs_on h" "hs_turn h = None" "ls_line (hs_in h) = []"
    and "rx_bytes (ls_rx (hs_in h)) = l @ newline # rest" "newline \<notin> set l"
    and "spec_turn E (cut LINE_MAX l) (hs_cli h) = Some (Inr (recs, go, s))"
  shows "\<exists>h'. host_steps E h h' \<and> hs_turn h' = None \<and> hs_on h' = go \<and> ls_out (hs_in h') = ls_out (hs_in h) @ [cut LINE_MAX l]
    \<and> rx_bytes (ls_rx (hs_in h')) = rest \<and> ls_recv (hs_in h') = ls_recv (hs_in h) \<and> hs_host h' @ hs_flight h' = hs_host h @ hs_flight h @ recs \<and> (recs \<noteq> [] \<longrightarrow> hs_flight h' = [])"
proof -
  have ix: "rx_inv (ls_rx (hs_in h))" using line_reachable_inv[OF host_lines[OF assms(1)]] by (simp add: line_sys_inv_def)
  have it: "tx_inv (cl_tx (hs_cli h))" using host_refines.reached_related[OF assms(1)] by (auto simp: host_related_def)
  let ?i = "\<lambda>r. (hs_in h)\<lparr>ls_rx := r, ls_line := cut LINE_MAX l\<rparr>"
  obtain r where r: "rx_inv r" "rx_bytes r = newline # rest" "host_steps E h (h\<lparr>hs_in := ?i r\<rparr>)"
    using host_reads[OF ix assms(5,6,2,3), of "[]"] assms(4) by auto
  obtain q where q: "rx_take r = Some (newline, q)" "rx_bytes q = rest" using rx.take_some[OF r(1,2)] by blast
  let ?h = "h\<lparr>hs_in := ?i r\<rparr>"
  show ?thesis
  proof (cases "is_command (cut LINE_MAX l)")
    case False
    then have "host_step E ?h (?h\<lparr>hs_in := line_read q (hs_in ?h)\<rparr>)" using assms(2,3) q(1) by (intro host_step.skip) simp_all
    then show ?thesis using rtranclp.rtrancl_into_rtrancl[OF r(3)] False assms(2,3,7) q(2)
      by (intro exI[of _ "?h\<lparr>hs_in := line_read q (hs_in ?h)\<rparr>"]) (auto simp: spec_turn_def line_read_def)
  next
    case True
    then obtain rs c x y where c: "begin_turn E (cut LINE_MAX l) (hs_cli h) = Some (Inr (rs, go, c))" "all_records (cl_tasks c) rs = Inr x"
      "kstep_json_close (cl_reply c) = Inr y" "recs = x @ [y]"
      using assms(7) by (auto simp: spec_turn_def bind_run_returns)
    have tx: "cl_tx c = cl_tx (hs_cli h)"
    proof -
      have "hs_cli h = with_tx (cl_tx (hs_cli h)) (hs_cli h)" by (simp add: with_tx_def)
      then obtain c' where "c = with_tx (cl_tx (hs_cli h)) c'"
        using c(1) frame_begin_turn[of E "cut LINE_MAX l" "cl_tx (hs_cli h)" "hs_cli h"] by (auto simp: map_run_def bind_run_returns)
      then show ?thesis by (simp add: frame)
    qed
    let ?g = "?h\<lparr>hs_in := line_read q (hs_in ?h), hs_cli := c, hs_turn := Some (rs, go)\<rparr>"
    have step: "host_step E ?h ?g" using assms(2,3) q(1) True c(1) by (intro host_step.command) simp_all
    obtain h' where h': "host_steps E ?g h'" "hs_turn h' = None" "hs_on h' = go" "hs_in h' = hs_in ?g" "hs_host h' = hs_host ?g @ hs_flight ?g @ x @ [y]" "hs_flight h' = []"
      using turn_completes[of ?g rs go x y E] it tx c(2,3) close_fits[OF c(3)] by auto
    then show ?thesis using rtranclp_trans[OF r(3) host_steps_first[OF step]] q(2) c(4) tx by (intro exI[of _ h']) (auto simp: line_read_def)
  qed
qed

section \<open>What the host sees\<close>

text \<open>
  C7. Whatever the interleaving of arriving bytes, reads, turns, transfers and interrupts, the session is
  the sequential one: between two turns the lines served are the complete lines of what has been read
  from the ring, each cut to the buffer, and what the host has read followed by what is in flight is
  exactly what the specification writes for these lines, the record that says the session is ready
  first; the state of the session is the specification's. Inside a turn the host has been given nothing
  that the specification does not write before its reply.
\<close>
theorem session_refines_its_specification:
  assumes "reached (fresh_start E shm cov s0) (host_step E) h"
  shows "\<exists>seen a. ls_recv (hs_in h) = seen @ rx_bytes (ls_rx (hs_in h)) \<and> ls_out (hs_in h) = map (cut LINE_MAX) (fst (split_lines seen))
    \<and> reached (spec_start shm cov s0) (spec_step E) a
    \<and> (hs_turn h = None \<longrightarrow> sp_lines a = ls_out (hs_in h) \<and> sp_on a = hs_on h \<and> sp_records a = hs_host h @ hs_flight h
        \<and> hs_cli h = (sp_cli a)\<lparr>cl_tx := cl_tx (hs_cli h)\<rparr>)
    \<and> (hs_turn h \<noteq> None \<longrightarrow> sp_on a \<and> sp_lines a = butlast (ls_out (hs_in h)) \<and> (\<exists>sent. hs_host h @ hs_flight h = sp_records a @ sent))"
proof -
  obtain a where a: "reached (spec_start shm cov s0) (spec_step E) a" "host_related E h a"
    using host_refines.reached_related[OF assms] by blast
  obtain seen where "ls_recv (hs_in h) = seen @ rx_bytes (ls_rx (hs_in h))" "ls_out (hs_in h) = map (cut LINE_MAX) (fst (split_lines seen))"
    using line_reachable_inv[OF host_lines[OF assms]] by (auto simp: line_sys_inv_def)
  moreover have "hs_turn h = None \<longrightarrow> sp_lines a = ls_out (hs_in h) \<and> sp_on a = hs_on h \<and> sp_records a = hs_host h @ hs_flight h
        \<and> hs_cli h = (sp_cli a)\<lparr>cl_tx := cl_tx (hs_cli h)\<rparr>"
    using a(2) by (auto simp: host_related_def with_tx_def)
  moreover have "hs_turn h \<noteq> None \<longrightarrow> sp_on a \<and> sp_lines a = butlast (ls_out (hs_in h)) \<and> (\<exists>sent. hs_host h @ hs_flight h = sp_records a @ sent)"
    using a(2) by (auto simp: host_related_def)
  ultimately show ?thesis using a(1) by (intro exI[of _ seen] exI[of _ a] conjI)
qed

text \<open>
  C10. The host's speed does not matter: two runs of a session in which the same bytes have arrived and been
  read, each between two turns, however they were cut into buffers and whenever the device took records,
  have given the host the same records, read or in flight, and are in the same state but for the
  channel's buffers.
\<close>
theorem host_speed_does_not_matter:
  assumes "reached (fresh_start E shm cov s0) (host_step E) h" "reached (fresh_start E shm cov s0) (host_step E) h'"
    and "hs_turn h = None" "hs_turn h' = None" "ls_recv (hs_in h) = ls_recv (hs_in h')"
    and "rx_bytes (ls_rx (hs_in h)) = []" "rx_bytes (ls_rx (hs_in h')) = []"
  shows "hs_host h @ hs_flight h = hs_host h' @ hs_flight h' \<and> hs_on h = hs_on h'
    \<and> (hs_cli h)\<lparr>cl_tx := t\<rparr> = (hs_cli h')\<lparr>cl_tx := t\<rparr>"
proof -
  obtain a where a: "reached (spec_start shm cov s0) (spec_step E) a" "host_related E h a" using host_refines.reached_related[OF assms(1)] by blast
  obtain b where b: "reached (spec_start shm cov s0) (spec_step E) b" "host_related E h' b" using host_refines.reached_related[OF assms(2)] by blast
  have "ls_out (hs_in h) = ls_out (hs_in h')"
    using line_reachable_inv[OF host_lines[OF assms(1)]] line_reachable_inv[OF host_lines[OF assms(2)]] assms(5-7) by (auto simp: line_sys_inv_def)
  then have "a = b" using spec_deterministic[OF a(1) b(1)] a(2) b(2) assms(3,4) by (simp add: host_related_def)
  then show ?thesis using a(2) b(2) assms(3,4) unfolding host_related_def by simp (metis with_tx_def with_tx_updates(7))
qed

text \<open>
  C17. Every line is answered: when the ring holds a complete line, the controller is between two turns and
  the specification's turn on that line comes to an end, the session can go on, whatever is in flight,
  to the end of that turn with every record delivered, those of the turn last and in their order.
\<close>
theorem every_line_is_answered:
  assumes "reached (fresh_start E shm cov s0) (host_step E) h" "hs_on h" "hs_turn h = None" "ls_line (hs_in h) = []"
    and "rx_bytes (ls_rx (hs_in h)) = l @ newline # rest" "newline \<notin> set l"
    and "spec_turn E (cut LINE_MAX l) (hs_cli h) = Some (Inr (recs, go, s))"
  shows "\<exists>h'. host_steps E h h' \<and> hs_turn h' = None \<and> hs_on h' = go \<and> ls_out (hs_in h') = ls_out (hs_in h) @ [cut LINE_MAX l]
    \<and> rx_bytes (ls_rx (hs_in h')) = rest \<and> ls_recv (hs_in h') = ls_recv (hs_in h) \<and> hs_host h' @ hs_flight h' = hs_host h @ hs_flight h @ recs \<and> (recs \<noteq> [] \<longrightarrow> hs_flight h' = [])"
  using line_answered[OF assms] .

section \<open>A session of one command\<close>

lemma rx_puts_room: "rx_inv s \<Longrightarrow> length (rx_bytes s) + length bs \<le> RX_RING \<Longrightarrow> \<exists>t. fold_outcome rx_put bs s = Inr t"
proof (induction bs arbitrary: s)
  case (Cons b bs)
  then obtain u where "rx_put b s = Inr u" "rx_inv u" "rx_bytes u = rx_bytes s @ [b]" using rx.put_room[of s b] by auto
  then show ?case using Cons.IH[of u] Cons.prems(2) by simp
qed simp

lemma rx_done_room: "rx_inv s \<Longrightarrow> length (rx_bytes s) + length (concat bufs) \<le> RX_RING \<Longrightarrow> \<exists>t. rx_done True bufs s = Inr t"
proof (induction bufs arbitrary: s)
  case (Cons b bufs)
  then obtain u where u: "fold_outcome rx_put b s = Inr u" using rx_puts_room[of s b] by auto
  then show ?case using rx_put_all[OF u Cons.prems(1)] Cons.IH[of u] Cons.prems(2) by (simp add: rx_done_def rx_post_def)
qed (simp add: rx_done_def)

lemma demo_ready: "\<exists>tx. cli_run demo_env 0 0 [] (demo_cli 1) = Some (Inr (True, with_tx tx (demo_cli 1)))"
proof -
  have r: "ready_record 0 0 0 = Inr (''{\"timestamp\":0,\"ready\":true,\"shm\":0,\"cov\":0}'' @ [newline])" by code_simp
  have t: "kstep_jiffies_get (t_clock (cl_ts (demo_cli 1))) = 0" by (simp add: kstep_jiffies_get_def demo_cli_def demo_tsys_def)
  have "\<exists>tx. kstep_io_write True (''{\"timestamp\":0,\"ready\":true,\"shm\":0,\"cov\":0}'' @ [newline]) (cl_tx (demo_cli 1)) = Inr tx"
    by (simp add: demo_cli_def kstep_io_write_def chan_tx_init_def Let_def)
  then show ?thesis using r unfolding cli_run_def t send_record_eq ready_record_def by (auto simp: with_tx_def)
qed

lemma demo_exit_turn: "\<exists>r s. spec_turn demo_env ''exit'' (with_tx t (demo_cli 1)) = Some (Inr ([r], False, s))"
proof -
  have c: "is_command ''exit''" by (simp add: is_command_def strim_def cstr_def isspace_def)
  obtain s' where "run_line demo_env ''exit'' (demo_cli 1) = Some (Inr (False, s'))" using demo_exit_returns by blast
  then obtain rs s tx where b: "begin_turn demo_env ''exit'' (demo_cli 1) = Some (Inr (rs, False, s))" and e: "end_turn demo_env (s\<lparr>cl_tx := tx\<rparr>) = Inr s'"
    using c by (auto simp: run_line_parts bind_run_returns)
  have "rs = []" using b by (auto simp: begin_turn_def bind_run_returns demo_env_reports)
  moreover obtain r where "kstep_json_close (cl_reply s) = Inr r" using e end_turn_frame[of demo_env tx s s'] by (auto simp: with_tx_def)
  ultimately show ?thesis using b c by (simp add: spec_turn_def frame_begin_turn frame all_records_def)
qed

lemma demo_host:
  assumes "concat bufs = ''exit'' @ [newline]"
  shows "\<exists>h r. reached (fresh_start demo_env 0 0 (demo_cli 1)) (host_step demo_env) h \<and> hs_on h \<and> hs_turn h = None \<and> ls_line (hs_in h) = [] \<and> ls_out (hs_in h) = []
    \<and> rx_bytes (ls_rx (hs_in h)) = ''exit'' @ [newline] \<and> ls_recv (hs_in h) = ''exit'' @ [newline] \<and> (\<exists>s. spec_turn demo_env (cut LINE_MAX ''exit'') (hs_cli h) = Some (Inr ([r], False, s)))"
proof -
  obtain tx where tx: "cli_run demo_env 0 0 [] (demo_cli 1) = Some (Inr (True, with_tx tx (demo_cli 1)))" using demo_ready by blast
  define r0 where "r0 = \<lparr>rx_ring = replicate RX_RING CHR ''x'', rx_head = 0, rx_tail = 0\<rparr>"
  have i0: "rx_inv r0" "rx_bytes r0 = []" by (simp_all add: r0_def rx_inv_def rx_bytes_def)
  define h0 :: "nat host_sys" where "h0 = \<lparr>hs_in = \<lparr>ls_rx = r0, ls_line = [], ls_out = [], ls_recv = []\<rparr>,
         hs_cli = with_tx tx (demo_cli 1), hs_turn = None, hs_on = True, hs_host = []\<rparr>"
  have "host_start demo_env 0 0 (demo_cli 1) h0" unfolding host_start_def h0_def r0_def
    by (intro exI[of _ "replicate RX_RING CHR ''x''"] exI[of _ 0] exI[of _ "with_tx tx (demo_cli 1)"] conjI tx refl length_replicate)
  then have s0: "reached (fresh_start demo_env 0 0 (demo_cli 1)) (host_step demo_env) h0"
    by (intro reached.start) (simp add: fresh_start_def demo_cli_tx del: One_nat_def)
  obtain r1 where r1: "rx_done True bufs r0 = Inr r1" using rx_done_room[OF i0(1), of bufs] i0(2) assms by auto
  have b1: "rx_bytes r1 = ''exit'' @ [newline]" using rx_done_Inr[OF r1 i0(1)] i0(2) assms by simp
  have "rx_done True bufs (ls_rx (hs_in h0)) = Inr r1" using r1 by (simp add: h0_def)
  note s1 = reached.step[OF s0 host_step.arrive[OF this]]
  have "cut LINE_MAX ''exit'' = ''exit''" by (simp add: cut_def)
  then show ?thesis using s1 b1 assms demo_exit_turn[of tx]
    by (intro exI[of _ "h0\<lparr>hs_in := (hs_in h0)\<lparr>ls_rx := r1, ls_recv := ls_recv (hs_in h0) @ concat bufs\<rparr>\<rparr>"]) (simp add: h0_def del: One_nat_def)
qed

lemma demo_answered:
  assumes "concat bufs = ''exit'' @ [newline]"
  shows "\<exists>h. reached (fresh_start demo_env 0 0 (demo_cli 1)) (host_step demo_env) h \<and> \<not> hs_on h \<and> hs_turn h = None \<and> ls_out (hs_in h) = [''exit'']
    \<and> rx_bytes (ls_rx (hs_in h)) = [] \<and> ls_recv (hs_in h) = ''exit'' @ [newline] \<and> hs_flight h = []"
proof -
  obtain h r s where h: "reached (fresh_start demo_env 0 0 (demo_cli 1)) (host_step demo_env) h" "hs_on h" "hs_turn h = None" "ls_line (hs_in h) = []" "ls_out (hs_in h) = []"
    "rx_bytes (ls_rx (hs_in h)) = ''exit'' @ newline # []" "ls_recv (hs_in h) = ''exit'' @ [newline]" "spec_turn demo_env (cut LINE_MAX ''exit'') (hs_cli h) = Some (Inr ([r], False, s))"
    using demo_host[OF assms] by blast
  obtain h' where h': "host_steps demo_env h h'" "hs_turn h' = None" "\<not> hs_on h'" "ls_out (hs_in h') = [''exit'']" "rx_bytes (ls_rx (hs_in h')) = []" "ls_recv (hs_in h') = ''exit'' @ [newline]" "hs_flight h' = []"
    using line_answered[OF h(1-4,6) _ h(8)] h(5,7) by (auto simp: cut_def)
  show ?thesis using reached_steps[OF h'(1) h(1)] h' by (intro exI[of _ h']) simp
qed

theorem session_refines_its_specification_witness:
  "\<exists>h a. reached (fresh_start demo_env 0 0 (demo_cli 1)) (host_step demo_env) h \<and> ls_out (hs_in h) = [''exit'']
    \<and> reached (spec_start 0 0 (demo_cli 1)) (spec_step demo_env) a \<and> sp_lines a = [''exit''] \<and> \<not> sp_on a \<and> sp_records a = hs_host h"
proof -
  obtain h where h: "reached (fresh_start demo_env 0 0 (demo_cli 1)) (host_step demo_env) h" "\<not> hs_on h" "hs_turn h = None" "ls_out (hs_in h) = [''exit'']" "hs_flight h = []"
    using demo_answered[of "[''exit'' @ [newline]]"] by auto
  from session_refines_its_specification[OF h(1)] show ?thesis
  proof (elim exE conjE)
    fix seen a
    assume "reached (spec_start 0 0 (demo_cli 1)) (spec_step demo_env) a"
      "hs_turn h = None \<longrightarrow> sp_lines a = ls_out (hs_in h) \<and> sp_on a = hs_on h \<and> sp_records a = hs_host h @ hs_flight h \<and> hs_cli h = (sp_cli a)\<lparr>cl_tx := cl_tx (hs_cli h)\<rparr>"
    then show ?thesis using h by (intro exI[of _ h] exI[of _ a]) simp
  qed
qed

theorem host_speed_does_not_matter_witness:
  "\<exists>h h'. reached (fresh_start demo_env 0 0 (demo_cli 1)) (host_step demo_env) h \<and> reached (fresh_start demo_env 0 0 (demo_cli 1)) (host_step demo_env) h'
    \<and> ls_out (hs_in h) = [''exit''] \<and> hs_host h = hs_host h' \<and> cl_tasks (hs_cli h) = cl_tasks (hs_cli h')"
proof -
  obtain h where h: "reached (fresh_start demo_env 0 0 (demo_cli 1)) (host_step demo_env) h" "hs_turn h = None" "ls_out (hs_in h) = [''exit'']" "hs_flight h = []"
    "rx_bytes (ls_rx (hs_in h)) = []" "ls_recv (hs_in h) = ''exit'' @ [newline]" using demo_answered[of "[''exit'' @ [newline]]"] by auto
  obtain h' where h': "reached (fresh_start demo_env 0 0 (demo_cli 1)) (host_step demo_env) h'" "hs_turn h' = None" "hs_flight h' = []"
    "rx_bytes (ls_rx (hs_in h')) = []" "ls_recv (hs_in h') = ''exit'' @ [newline]" using demo_answered[of "[''ex'', ''it'' @ [newline]]"] by auto
  have "ls_recv (hs_in h) = ls_recv (hs_in h')" using h(6) h'(5) by simp
  note same = host_speed_does_not_matter[OF h(1) h'(1) h(2) h'(2) this h(5) h'(4)]
  have "cl_tasks (hs_cli h) = cl_tasks ((hs_cli h)\<lparr>cl_tx := cl_tx (demo_cli 1)\<rparr>)" by simp
  also have "\<dots> = cl_tasks (hs_cli h')" using same[of "cl_tx (demo_cli 1)"] by simp
  finally show ?thesis using same[of "cl_tx (demo_cli 1)"] h h' by (intro exI[of _ h] exI[of _ h']) simp
qed

theorem every_line_is_answered_witness:
  "\<exists>h h' r. reached (fresh_start demo_env 0 0 (demo_cli 1)) (host_step demo_env) h \<and> ls_out (hs_in h) = [] \<and> host_steps demo_env h h' \<and> ls_out (hs_in h') = [''exit'']
    \<and> \<not> hs_on h' \<and> hs_host h' = hs_host h @ hs_flight h @ [r]"
proof -
  obtain h r s where h: "reached (fresh_start demo_env 0 0 (demo_cli 1)) (host_step demo_env) h" "hs_on h" "hs_turn h = None" "ls_line (hs_in h) = []" "ls_out (hs_in h) = []"
    "rx_bytes (ls_rx (hs_in h)) = ''exit'' @ newline # []" "spec_turn demo_env (cut LINE_MAX ''exit'') (hs_cli h) = Some (Inr ([r], False, s))"
    using demo_host[of "[''exit'' @ [newline]]"] by auto
  have "newline \<notin> set ''exit''" by simp
  from every_line_is_answered[OF h(1-4,6) this h(7)] obtain h' where "host_steps demo_env h h'" "ls_out (hs_in h') = [''exit'']" "\<not> hs_on h'"
      "hs_host h' = hs_host h @ hs_flight h @ [r]"
    using h(5) by (auto simp: cut_def)
  then show ?thesis using h(1,5) by (intro exI[of _ h] exI[of _ h'] exI[of _ r]) simp
qed

end
