(* ===== verification/Fuzz_Cov.thy ===== *)
theory Fuzz_Cov
  imports Prelude
begin

text \<open>
  Coverage of the archived in-guest fuzzer (docs/archive/old_fuzzer/kmod/cov.c): the kernel reports
  every basic block it enters to a buffer of the CPU it is on, and after each command the buffers are
  written to a console, grouped by task through a hash table of 2048 slots. A buffer is the list of
  the entries counted; what is written to the console is the list of the records, in order.
\<close>

section \<open>State\<close>

abbreviation COV_BUFFER_SIZE :: nat where "COV_BUFFER_SIZE \<equiv> 32 * 1024"
abbreviation PID_MAP_SIZE :: nat where "PID_MAP_SIZE \<equiv> 2048"
abbreviation SIG_CHUNK_SIZE :: nat where "SIG_CHUNK_SIZE \<equiv> 64"
abbreviation NO_PID :: u32 where "NO_PID \<equiv> 0xffffffff"

datatype kstep_cov_mode = COV_DISABLED | COV_ENABLED | COV_ENABLED_WITH_CONTROLLER

record cov_entry =
  ce_cmd_id :: u32
  ce_pid :: u32
  ce_ip :: u64

text \<open>The first \<open>pc_count\<close> entries of the array \<open>pcs\<close> are the list \<open>sl_pcs\<close>.\<close>

record slot_entry =
  sl_pid :: u32
  sl_pcs :: "u64 list"

record fuzz_cov =
  fv_mode :: kstep_cov_mode
  fv_hook :: bool
  fv_buffer :: "nat \<Rightarrow> cov_entry list"
  fv_cmd_id :: u32
  fv_slots :: "nat \<Rightarrow> slot_entry"
  fv_file :: bool
  fv_out :: "cov_entry list"

definition no_slot :: slot_entry where
  "no_slot = \<lparr>sl_pid = NO_PID, sl_pcs = []\<rparr>"

section \<open>Recording\<close>

text \<open>\<open>possible\<close> is the number of possible CPUs.\<close>

definition kstep_cov_reset :: "nat \<Rightarrow> fuzz_cov \<Rightarrow> fuzz_cov" where
  "kstep_cov_reset possible s = s\<lparr>fv_buffer := (\<lambda>cpu. if cpu < possible then [] else fv_buffer s cpu),
     fv_slots := (\<lambda>i. if i < PID_MAP_SIZE then no_slot else fv_slots s i)\<rparr>"

text \<open>The block entered at \<open>ip\<close> by the task \<open>pid\<close> on \<open>cpu\<close>; CPU 0 counts for the controller only.\<close>

definition kstep_cov_record :: "nat \<Rightarrow> u32 \<Rightarrow> u64 \<Rightarrow> fuzz_cov \<Rightarrow> fuzz_cov outcome" where
  "kstep_cov_record cpu pid ip s =
     (if fv_mode s = COV_DISABLED then Inr s
      else if cpu = 0 \<and> (pid \<noteq> 1 \<or> fv_mode s \<noteq> COV_ENABLED_WITH_CONTROLLER) then Inr s
      else if length (fv_buffer s cpu) \<ge> COV_BUFFER_SIZE then Inl ''cov_buffer[%d] overflow''
      else Inr (s\<lparr>fv_buffer := (fv_buffer s)(cpu := fv_buffer s cpu @ [\<lparr>ce_cmd_id = fv_cmd_id s, ce_pid = pid, ce_ip = ip\<rparr>])\<rparr>))"

text \<open>\<open>found\<close>: the kernel has the hook; \<open>opened\<close>: the console could be opened.\<close>

definition old_cov_init :: "bool \<Rightarrow> bool \<Rightarrow> nat \<Rightarrow> fuzz_cov \<Rightarrow> fuzz_cov outcome" where
  "old_cov_init found opened possible s =
     (if \<not> found then Inl ''kstep: rebuild with linux/config.kstep.cov to enable coverage''
      else if \<not> opened then Inl ''Failed to open /dev/hvc1: %ld''
      else Inr (kstep_cov_reset possible (s\<lparr>fv_file := True\<rparr>)))"

definition kstep_cov_enable :: "fuzz_cov \<Rightarrow> fuzz_cov" where
  "kstep_cov_enable s = s\<lparr>fv_hook := True, fv_mode := COV_ENABLED\<rparr>"

definition kstep_cov_disable :: "fuzz_cov \<Rightarrow> fuzz_cov" where
  "kstep_cov_disable s = s\<lparr>fv_hook := False, fv_mode := COV_DISABLED\<rparr>"

definition kstep_cov_enable_controller :: "fuzz_cov \<Rightarrow> fuzz_cov" where
  "kstep_cov_enable_controller s = (if fv_mode s = COV_ENABLED then s\<lparr>fv_mode := COV_ENABLED_WITH_CONTROLLER\<rparr> else s)"

definition kstep_cov_disable_controller :: "fuzz_cov \<Rightarrow> fuzz_cov" where
  "kstep_cov_disable_controller s = (if fv_mode s = COV_ENABLED_WITH_CONTROLLER then s\<lparr>fv_mode := COV_ENABLED\<rparr> else s)"

definition kstep_cov_cmd_id_inc :: "fuzz_cov \<Rightarrow> fuzz_cov" where
  "kstep_cov_cmd_id_inc s = s\<lparr>fv_cmd_id := fv_cmd_id s + 1\<rparr>"

section \<open>Writing\<close>

unbundle bit_operations_syntax

definition slot_pos :: "u32 \<Rightarrow> nat \<Rightarrow> nat" where
  "slot_pos pid i = (let idx = pid AND 0x7FF in unat ((idx + of_nat i) AND 0x7FF))"

text \<open>The loop over the positions from the task's own on: a free slot is taken, its own is found.\<close>

fun slot_loop :: "u32 \<Rightarrow> nat list \<Rightarrow> (nat \<Rightarrow> slot_entry) \<Rightarrow> (nat \<times> (nat \<Rightarrow> slot_entry)) outcome" where
  "slot_loop pid [] slots = Inl ''slot not found for pid %d''"
| "slot_loop pid (i # is) slots = (let pos = slot_pos pid i in
     if sl_pid (slots pos) = NO_PID then Inr (pos, slots(pos := \<lparr>sl_pid = pid, sl_pcs = []\<rparr>))
     else if sl_pid (slots pos) = pid then Inr (pos, slots)
     else slot_loop pid is slots)"

definition get_slot_by_pid :: "u32 \<Rightarrow> (nat \<Rightarrow> slot_entry) \<Rightarrow> (nat \<times> (nat \<Rightarrow> slot_entry)) outcome" where
  "get_slot_by_pid pid slots = slot_loop pid [0..<PID_MAP_SIZE] slots"

definition kstep_cov_flush_pcs :: "nat \<Rightarrow> u32 \<Rightarrow> fuzz_cov \<Rightarrow> fuzz_cov" where
  "kstep_cov_flush_pcs slot cmd_id s = (let e = fv_slots s slot in
     if sl_pcs e = [] then s
     else s\<lparr>fv_out := fv_out s @ map (\<lambda>ip. \<lparr>ce_cmd_id = cmd_id, ce_pid = sl_pid e, ce_ip = ip\<rparr>) (sl_pcs e),
            fv_slots := (fv_slots s)(slot := e\<lparr>sl_pcs := []\<rparr>)\<rparr>)"

definition dump_entry :: "u32 \<Rightarrow> cov_entry \<Rightarrow> fuzz_cov \<Rightarrow> fuzz_cov outcome" where
  "dump_entry cmd_id e s =
     (if ce_cmd_id e \<noteq> cmd_id then Inl ''cov_entry[%d].cmd_id != cmd_id''
      else bind_outcome (get_slot_by_pid (ce_pid e) (fv_slots s)) (\<lambda>(slot, slots).
        let pcs = sl_pcs (slots slot) @ [ce_ip e];
            s = s\<lparr>fv_slots := slots(slot := (slots slot)\<lparr>sl_pcs := pcs\<rparr>)\<rparr> in
        Inr (if length pcs = SIG_CHUNK_SIZE then kstep_cov_flush_pcs slot cmd_id s else s)))"

definition flush_slot :: "u32 \<Rightarrow> nat \<Rightarrow> fuzz_cov \<Rightarrow> fuzz_cov" where
  "flush_slot cmd_id slot s = (if sl_pid (fv_slots s slot) \<noteq> NO_PID then kstep_cov_flush_pcs slot cmd_id s else s)"

definition kstep_cov_dump :: "nat \<Rightarrow> fuzz_cov \<Rightarrow> fuzz_cov outcome" where
  "kstep_cov_dump possible s = (let cmd_id = fv_cmd_id s in
     if \<not> fv_file s then Inr s
     else bind_outcome (fold_outcome (dump_entry cmd_id) (concat (map (fv_buffer s) [0..<possible])) s)
       (\<lambda>s. Inr (kstep_cov_reset possible (fold (flush_slot cmd_id) [0..<PID_MAP_SIZE] s))))"

section \<open>The contract of a table of tasks\<close>

text \<open>
  A store that groups a stream by task: what is written of a task, followed by what is kept of it, is
  its part of the stream.
\<close>

locale grouped_store =
  fixes inv :: "'s \<Rightarrow> bool" and kept :: "'s \<Rightarrow> u32 \<Rightarrow> u64 list" and written :: "'s \<Rightarrow> u32 \<Rightarrow> u64 list"
    and ok :: "'e \<Rightarrow> bool" and key :: "'e \<Rightarrow> u32" and val :: "'e \<Rightarrow> u64" and add :: "'e \<Rightarrow> 's \<Rightarrow> 's outcome"
  assumes add_inv: "inv s \<Longrightarrow> ok e \<Longrightarrow> add e s = Inr s' \<Longrightarrow> inv s'"
    and add_key: "inv s \<Longrightarrow> ok e \<Longrightarrow> add e s = Inr s' \<Longrightarrow> written s' (key e) @ kept s' (key e) = written s (key e) @ kept s (key e) @ [val e]"
    and add_other: "inv s \<Longrightarrow> ok e \<Longrightarrow> add e s = Inr s' \<Longrightarrow> q \<noteq> key e \<Longrightarrow> written s' q @ kept s' q = written s q @ kept s q"
begin

lemma stream_grouped:
  assumes "inv s" "list_all ok es" "fold_outcome add es s = Inr s'"
  shows "inv s' \<and> written s' q @ kept s' q = written s q @ kept s q @ map val (filter (\<lambda>e. key e = q) es)"
  using assms
proof (induction es arbitrary: s)
  case (Cons e es)
  then obtain u where u: "add e s = Inr u" "fold_outcome add es u = Inr s'" by (auto simp: bind_outcome_Inr_iff)
  have "inv u" using add_inv[OF Cons.prems(1) _ u(1)] Cons.prems(2) by simp
  moreover have "written u q @ kept u q = written s q @ kept s q @ (if key e = q then [val e] else [])"
    using add_key[OF Cons.prems(1) _ u(1)] add_other[OF Cons.prems(1) _ u(1)] Cons.prems(2) by auto
  ultimately show ?case using Cons.IH[OF _ _ u(2)] Cons.prems(2) by (auto simp: append_assoc[symmetric] simp del: append_assoc)
qed simp

end

section \<open>The hash table\<close>

lemma slot_pos_eq: "i < PID_MAP_SIZE \<Longrightarrow> slot_pos pid i = (unat pid + i) mod PID_MAP_SIZE"
proof -
  assume i: "i < PID_MAP_SIZE"
  have m: "w AND 0x7FF = take_bit 11 w" for w :: u32 by (simp add: take_bit_eq_mask mask_numeral)
  have "unat (of_nat i :: u32) = i" using i by (simp add: unat_of_nat)
  moreover have u: "unat (take_bit 11 w) = unat w mod 2048" for w :: u32
    by (simp add: take_bit_eq_mod unat_mod_distrib)
  moreover have "unat pid mod 2048 < 2048" by simp
  ultimately have "unat (take_bit 11 pid + of_nat i :: u32) = unat pid mod 2048 + i"
    using i unfolding unat_word_ariths u by simp
  then show ?thesis unfolding slot_pos_def Let_def m u by (simp add: mod_simps)
qed

lemma slot_pos_less: "i < PID_MAP_SIZE \<Longrightarrow> slot_pos pid i < PID_MAP_SIZE"
  by (simp add: slot_pos_eq)

text \<open>Every position is on the way from any task's own.\<close>

lemma slot_pos_all: "p < PID_MAP_SIZE \<Longrightarrow> \<exists>i < PID_MAP_SIZE. slot_pos pid i = p"
proof -
  assume p: "p < PID_MAP_SIZE"
  let ?u = "unat pid mod PID_MAP_SIZE" and ?i = "(p + (PID_MAP_SIZE - unat pid mod PID_MAP_SIZE)) mod PID_MAP_SIZE"
  have "(unat pid + ?i) mod PID_MAP_SIZE = (?u + (p + (PID_MAP_SIZE - ?u))) mod PID_MAP_SIZE" by (simp only: mod_add_left_eq mod_add_right_eq)
  also have "?u + (p + (PID_MAP_SIZE - ?u)) = p + PID_MAP_SIZE" using mod_less_divisor[of PID_MAP_SIZE "unat pid"] by linarith
  finally have "(unat pid + ?i) mod PID_MAP_SIZE = p" using p by simp
  then show ?thesis by (intro exI[of _ ?i]) (simp add: slot_pos_eq)
qed

definition used :: "(nat \<Rightarrow> slot_entry) \<Rightarrow> nat \<Rightarrow> bool" where
  "used slots p \<longleftrightarrow> sl_pid (slots p) \<noteq> NO_PID"

text \<open>
  The table's invariant: one slot per task; a task is where its probing finds it, nothing on the way
  being free; a free slot keeps nothing, a used one less than a chunk.
\<close>

definition table_inv :: "(nat \<Rightarrow> slot_entry) \<Rightarrow> bool" where
  "table_inv slots \<longleftrightarrow> inj_on (\<lambda>p. sl_pid (slots p)) {p. p < PID_MAP_SIZE \<and> used slots p}
     \<and> (\<forall>p < PID_MAP_SIZE. used slots p \<longrightarrow> (\<exists>i < PID_MAP_SIZE. p = slot_pos (sl_pid (slots p)) i \<and> (\<forall>j < i. used slots (slot_pos (sl_pid (slots p)) j))))
     \<and> (\<forall>p < PID_MAP_SIZE. (\<not> used slots p \<longrightarrow> sl_pcs (slots p) = []) \<and> length (sl_pcs (slots p)) < SIG_CHUNK_SIZE)"

lemma table_inv_way:
  "table_inv slots \<Longrightarrow> p < PID_MAP_SIZE \<Longrightarrow> used slots p \<Longrightarrow>
   \<exists>i < PID_MAP_SIZE. p = slot_pos (sl_pid (slots p)) i \<and> (\<forall>j < i. used slots (slot_pos (sl_pid (slots p)) j))"
  by (simp add: table_inv_def)

definition slots_kept :: "(nat \<Rightarrow> slot_entry) \<Rightarrow> nat \<Rightarrow> u32 \<Rightarrow> u64 list" where
  "slots_kept slots n q = concat (map (\<lambda>p. if sl_pid (slots p) = q then sl_pcs (slots p) else []) [0..<n])"

lemma concat_map_single:
  assumes "distinct xs" "x \<in> set xs" "\<And>y. y \<in> set xs \<Longrightarrow> y \<noteq> x \<Longrightarrow> f y = []"
  shows "concat (map f xs) = f x"
  using assms
proof (induction xs)
  case (Cons y ys)
  show ?case
  proof (cases "y = x")
    case True
    then have "\<forall>z \<in> set ys. f z = []" using Cons.prems by auto
    then show ?thesis using True by simp
  next
    case False
    then show ?thesis using Cons by auto
  qed
qed simp

lemma kept_of_slot:
  assumes "table_inv slots" "p < PID_MAP_SIZE" "used slots p"
  shows "slots_kept slots PID_MAP_SIZE (sl_pid (slots p)) = sl_pcs (slots p)"
proof -
  have "q = p" if "q < PID_MAP_SIZE" "sl_pid (slots q) = sl_pid (slots p)" for q
    using assms that by (auto simp: table_inv_def used_def inj_on_def)
  then have "concat (map (\<lambda>q. if sl_pid (slots q) = sl_pid (slots p) then sl_pcs (slots q) else []) [0..<PID_MAP_SIZE])
      = (if sl_pid (slots p) = sl_pid (slots p) then sl_pcs (slots p) else [])"
    using assms(2) by (intro concat_map_single) auto
  then show ?thesis by (simp add: slots_kept_def)
qed

lemma kept_upd_other:
  "q \<noteq> sl_pid (slots p) \<or> sl_pcs (slots p) = [] \<Longrightarrow> q \<noteq> sl_pid e \<or> sl_pcs e = [] \<Longrightarrow> slots_kept (slots(p := e)) n q = slots_kept slots n q"
  unfolding slots_kept_def by (rule arg_cong[of _ _ concat], rule map_cong) auto

lemma slot_loop_result:
  "slot_loop pid is slots = Inr (p, slots') \<Longrightarrow>
   \<exists>ys i zs. is = ys @ i # zs \<and> p = slot_pos pid i \<and> (\<forall>j \<in> set ys. used slots (slot_pos pid j) \<and> sl_pid (slots (slot_pos pid j)) \<noteq> pid)
     \<and> (\<not> used slots p \<and> slots' = slots(p := \<lparr>sl_pid = pid, sl_pcs = []\<rparr>) \<or> used slots p \<and> sl_pid (slots p) = pid \<and> slots' = slots)"
proof (induction "is")
  case (Cons i "is")
  show ?case
  proof (cases "\<not> used slots (slot_pos pid i) \<or> sl_pid (slots (slot_pos pid i)) = pid")
    case True
    then show ?thesis using Cons.prems by (intro exI[of _ "[]"] exI[of _ i] exI[of _ "is"]) (auto simp: Let_def used_def split: if_splits)
  next
    case False
    then have "slot_loop pid is slots = Inr (p, slots')" using Cons.prems by (auto simp: Let_def used_def)
    from Cons.IH[OF this] obtain ys k zs where "is = ys @ k # zs" "p = slot_pos pid k"
      "\<forall>j \<in> set ys. used slots (slot_pos pid j) \<and> sl_pid (slots (slot_pos pid j)) \<noteq> pid"
      "\<not> used slots p \<and> slots' = slots(p := \<lparr>sl_pid = pid, sl_pcs = []\<rparr>) \<or> used slots p \<and> sl_pid (slots p) = pid \<and> slots' = slots" by blast
    then show ?thesis using False by (intro exI[of _ "i # ys"] exI[of _ k] exI[of _ zs]) auto
  qed
qed simp

lemma slot_loop_panics:
  "slot_loop pid is slots = Inl e \<Longrightarrow> i \<in> set is \<Longrightarrow> used slots (slot_pos pid i) \<and> sl_pid (slots (slot_pos pid i)) \<noteq> pid"
  by (induction "is") (auto simp: Let_def used_def split: if_splits)

lemma upt_split: "[0..<n] = ys @ i # zs \<Longrightarrow> i < n \<and> ys = [0..<i]"
proof -
  assume a: "[0..<n] = ys @ i # zs"
  have l: "length ys < n" using arg_cong[OF a, of length] by simp
  have "i = [0..<n] ! length ys" by (simp add: a)
  then have "i = length ys" using l by simp
  moreover have "ys = take (length ys) [0..<n]" by (simp add: a)
  ultimately show ?thesis using l by (simp add: take_upt)
qed

lemma table_inv_take:
  assumes inv: "table_inv slots" and i: "i < PID_MAP_SIZE" "p = slot_pos pid i" "\<not> used slots p" "pid \<noteq> NO_PID"
    and fresh: "\<And>q. q < PID_MAP_SIZE \<Longrightarrow> used slots q \<Longrightarrow> sl_pid (slots q) \<noteq> pid"
    and way: "\<forall>j < i. used slots (slot_pos pid j)"
  shows "table_inv (slots(p := \<lparr>sl_pid = pid, sl_pcs = []\<rparr>))" (is "table_inv ?S")
proof -
  have u: "used ?S q \<longleftrightarrow> q = p \<or> used slots q" for q using i(4) by (auto simp: used_def)
  have p: "sl_pid (?S q) = (if q = p then pid else sl_pid (slots q))" "sl_pcs (?S q) = (if q = p then [] else sl_pcs (slots q))" for q by auto
  have "inj_on (\<lambda>q. sl_pid (?S q)) {q. q < PID_MAP_SIZE \<and> used ?S q}"
    unfolding inj_on_def mem_Collect_eq u p using inv fresh by (auto simp: table_inv_def inj_on_def split: if_splits)
  moreover have "\<exists>k < PID_MAP_SIZE. q = slot_pos (sl_pid (?S q)) k \<and> (\<forall>j < k. used ?S (slot_pos (sl_pid (?S q)) j))"
    if q: "q < PID_MAP_SIZE" "used ?S q" for q
  proof (cases "q = p")
    case True
    then show ?thesis unfolding u p using i way by auto
  next
    case False
    then have "used slots q" using q(2) u by blast
    then obtain k where "k < PID_MAP_SIZE" "q = slot_pos (sl_pid (slots q)) k" "\<forall>j < k. used slots (slot_pos (sl_pid (slots q)) j)"
      using table_inv_way[OF inv q(1)] by blast
    then show ?thesis unfolding u p using False by auto
  qed
  ultimately show ?thesis using inv unfolding table_inv_def u p by auto
qed

lemma get_slot_by_pid_spec:
  assumes inv: "table_inv slots" and pid: "pid \<noteq> NO_PID" and get: "get_slot_by_pid pid slots = Inr (p, slots')"
  shows "p < PID_MAP_SIZE" "table_inv slots'" "sl_pid (slots' p) = pid" "slots_kept slots' PID_MAP_SIZE q = slots_kept slots PID_MAP_SIZE q"
    "sl_pid (slots' r) = sl_pid (slots r) \<or> sl_pid (slots' r) = pid"
proof -
  from slot_loop_result[OF get[unfolded get_slot_by_pid_def]] obtain ys i zs where r: "[0..<PID_MAP_SIZE] = ys @ i # zs" "p = slot_pos pid i"
    "\<forall>j \<in> set ys. used slots (slot_pos pid j) \<and> sl_pid (slots (slot_pos pid j)) \<noteq> pid"
    "\<not> used slots p \<and> slots' = slots(p := \<lparr>sl_pid = pid, sl_pcs = []\<rparr>) \<or> used slots p \<and> sl_pid (slots p) = pid \<and> slots' = slots" by blast
  have i: "i < PID_MAP_SIZE" "\<forall>j < i. used slots (slot_pos pid j) \<and> sl_pid (slots (slot_pos pid j)) \<noteq> pid"
    using upt_split[OF r(1)] r(3) by auto
  show p: "p < PID_MAP_SIZE" using i(1) r(2) slot_pos_less by simp
  have fresh: "sl_pid (slots q) \<noteq> pid" if free: "\<not> used slots p" and q: "q < PID_MAP_SIZE" "used slots q" for q
  proof
    assume "sl_pid (slots q) = pid"
    then obtain k where k: "q = slot_pos pid k" "\<forall>j < k. used slots (slot_pos pid j)" using table_inv_way[OF inv q] by auto
    then have "k < i \<or> k = i \<or> i < k" by linarith
    then show False using k i(2) r(2) free q \<open>sl_pid (slots q) = pid\<close> by auto
  qed
  show "table_inv slots'"
    using r(4) inv table_inv_take[OF inv i(1) r(2) _ pid] fresh i(2) by auto
  show "sl_pid (slots' p) = pid" using r(4) by auto
  have "sl_pcs (slots p) = []" if "\<not> used slots p" using that inv p by (auto simp: table_inv_def)
  then show "slots_kept slots' PID_MAP_SIZE q = slots_kept slots PID_MAP_SIZE q"
    using r(4) by (auto intro: kept_upd_other)
  show "sl_pid (slots' r) = sl_pid (slots r) \<or> sl_pid (slots' r) = pid" using r(4) by auto
qed

text \<open>The search fails only in a table full of other tasks.\<close>

lemma get_slot_by_pid_panics:
  assumes "get_slot_by_pid pid slots = Inl e" "p < PID_MAP_SIZE"
  shows "used slots p \<and> sl_pid (slots p) \<noteq> pid"
proof -
  obtain i where "i < PID_MAP_SIZE" "slot_pos pid i = p" using slot_pos_all[OF assms(2)] by blast
  then show ?thesis using slot_loop_panics[OF assms(1)[unfolded get_slot_by_pid_def], of i] by auto
qed

lemma table_inv_pcs:
  assumes "table_inv slots" "used slots p" "length pcs < SIG_CHUNK_SIZE"
  shows "table_inv (slots(p := (slots p)\<lparr>sl_pcs := pcs\<rparr>))"
proof -
  have "sl_pid ((slots(p := (slots p)\<lparr>sl_pcs := pcs\<rparr>)) q) = sl_pid (slots q)" for q by simp
  moreover from this have "used (slots(p := (slots p)\<lparr>sl_pcs := pcs\<rparr>)) q = used slots q" for q unfolding used_def by simp
  ultimately show ?thesis using assms unfolding table_inv_def by simp
qed

section \<open>What a dump writes\<close>

definition cov_written :: "fuzz_cov \<Rightarrow> u32 \<Rightarrow> u64 list" where
  "cov_written s q = map ce_ip (filter (\<lambda>r. ce_pid r = q) (fv_out s))"

definition cov_kept :: "fuzz_cov \<Rightarrow> u32 \<Rightarrow> u64 list" where
  "cov_kept s q = slots_kept (fv_slots s) PID_MAP_SIZE q"

lemma cov_written_flush:
  "cov_written (kstep_cov_flush_pcs p c s) q = cov_written s q @ (if sl_pid (fv_slots s p) = q then sl_pcs (fv_slots s p) else [])"
  by (auto simp: cov_written_def kstep_cov_flush_pcs_def Let_def comp_def)

lemma fv_slots_flush: "fv_slots (kstep_cov_flush_pcs p c s) = (fv_slots s)(p := (fv_slots s p)\<lparr>sl_pcs := []\<rparr>)"
  by (cases "fv_slots s p") (auto simp: kstep_cov_flush_pcs_def Let_def fun_eq_iff)

lemma dump_entry_spec:
  assumes inv: "table_inv (fv_slots s)" and e: "ce_pid e \<noteq> NO_PID" and d: "dump_entry c e s = Inr s'"
  shows "table_inv (fv_slots s')" "cov_written s' (ce_pid e) @ cov_kept s' (ce_pid e) = cov_written s (ce_pid e) @ cov_kept s (ce_pid e) @ [ce_ip e]"
    "q \<noteq> ce_pid e \<Longrightarrow> cov_written s' q @ cov_kept s' q = cov_written s q @ cov_kept s q"
    "sl_pid (fv_slots s' r) = sl_pid (fv_slots s r) \<or> sl_pid (fv_slots s' r) = ce_pid e"
    "fv_buffer s' = fv_buffer s" "fv_cmd_id s' = fv_cmd_id s" "fv_file s' = fv_file s"
proof -
  obtain p slots where g: "get_slot_by_pid (ce_pid e) (fv_slots s) = Inr (p, slots)" using d by (auto simp: dump_entry_def bind_outcome_Inr_iff split: if_splits)
  let ?pcs = "sl_pcs (slots p) @ [ce_ip e]"
  let ?s = "s\<lparr>fv_slots := slots(p := (slots p)\<lparr>sl_pcs := sl_pcs (slots p) @ [ce_ip e]\<rparr>)\<rparr>"
  have s': "s' = (if length ?pcs = SIG_CHUNK_SIZE then kstep_cov_flush_pcs p c ?s else ?s)"
    using d g by (auto simp: dump_entry_def Let_def split: if_splits)
  note G = get_slot_by_pid_spec[OF inv e g]
  have u: "used slots p" using G(3) e by (simp add: used_def)
  have k: "cov_kept s (ce_pid e) = sl_pcs (slots p)" using kept_of_slot[OF G(2,1) u] G(3,4) by (simp add: cov_kept_def)
  have w: "cov_written ?s = cov_written s" by (simp add: cov_written_def fun_eq_iff)
  define F where "F = (if length ?pcs = SIG_CHUNK_SIZE then [] else ?pcs)"
  have S: "fv_slots s' = slots(p := (slots p)\<lparr>sl_pcs := F\<rparr>)" by (simp add: s' F_def fv_slots_flush)
  have "length (sl_pcs (slots p)) < SIG_CHUNK_SIZE" using G(1,2) by (simp add: table_inv_def)
  then have "length F < SIG_CHUNK_SIZE" by (auto simp: F_def)
  then show inv': "table_inv (fv_slots s')" unfolding S by (rule table_inv_pcs[OF G(2) u])
  have "used (fv_slots s') p" "sl_pid (fv_slots s' p) = ce_pid e" using u G(3) by (simp_all add: S used_def)
  then have "cov_kept s' (ce_pid e) = F" using kept_of_slot[OF inv' G(1)] by (simp add: cov_kept_def) (simp add: S)
  moreover have "cov_written s' q = cov_written s q @ (if length ?pcs = SIG_CHUNK_SIZE \<and> ce_pid e = q then ?pcs else [])" for q
    using G(3) w by (simp add: s' cov_written_flush)
  ultimately show "cov_written s' (ce_pid e) @ cov_kept s' (ce_pid e) = cov_written s (ce_pid e) @ cov_kept s (ce_pid e) @ [ce_ip e]"
    by (simp add: k F_def)
  show "cov_written s' q @ cov_kept s' q = cov_written s q @ cov_kept s q" if "q \<noteq> ce_pid e"
  proof -
    have "cov_kept s' q = cov_kept s q" unfolding cov_kept_def S using kept_upd_other[of q slots p] that G(3,4) by simp
    then show ?thesis using \<open>cov_written s' q = _\<close> that by simp
  qed
  show "sl_pid (fv_slots s' r) = sl_pid (fv_slots s r) \<or> sl_pid (fv_slots s' r) = ce_pid e" using G(3) G(5)[of r] by (auto simp: S)
  show "fv_buffer s' = fv_buffer s" "fv_cmd_id s' = fv_cmd_id s" "fv_file s' = fv_file s"
    by (simp_all add: s' kstep_cov_flush_pcs_def Let_def)
qed

interpretation dump: grouped_store "\<lambda>s. table_inv (fv_slots s)" cov_kept cov_written "\<lambda>e. ce_cmd_id e = c \<and> ce_pid e \<noteq> NO_PID" ce_pid ce_ip "dump_entry c" for c
  by unfold_locales (use dump_entry_spec in blast)+

lemma fold_flush:
  "cov_written (fold (flush_slot c) [0..<n] s) q = cov_written s q @ (if q = NO_PID then [] else slots_kept (fv_slots s) n q)
   \<and> (\<forall>p. sl_pid (fv_slots (fold (flush_slot c) [0..<n] s) p) = sl_pid (fv_slots s p))
   \<and> (\<forall>p \<ge> n. fv_slots (fold (flush_slot c) [0..<n] s) p = fv_slots s p)"
proof (induction n)
  case (Suc n)
  then show ?case by (auto simp: flush_slot_def cov_written_flush fv_slots_flush slots_kept_def)
qed (simp add: slots_kept_def)

lemma kept_none: "table_inv slots \<Longrightarrow> slots_kept slots PID_MAP_SIZE NO_PID = []"
  by (auto simp: slots_kept_def table_inv_def used_def)

text \<open>The pids in the table are among those seen, so 2048 slots are enough for 2048 tasks.\<close>

lemma get_slot_by_pid_room:
  assumes "table_inv slots" "\<forall>p < PID_MAP_SIZE. used slots p \<longrightarrow> sl_pid (slots p) \<in> P" "finite P" "card P \<le> PID_MAP_SIZE" "pid \<in> P"
  shows "\<exists>r. get_slot_by_pid pid slots = Inr r"
proof (cases "get_slot_by_pid pid slots")
  case (Inl e)
  have "inj_on (\<lambda>p. sl_pid (slots p)) {0..<PID_MAP_SIZE}"
    using assms(1) get_slot_by_pid_panics[OF Inl] by (auto simp: table_inv_def inj_on_def)
  then have "card ((\<lambda>p. sl_pid (slots p)) ` {0..<PID_MAP_SIZE}) = PID_MAP_SIZE" by (simp add: card_image)
  moreover have "(\<lambda>p. sl_pid (slots p)) ` {0..<PID_MAP_SIZE} \<subseteq> P - {pid}" using assms(2) get_slot_by_pid_panics[OF Inl] by force
  ultimately have "PID_MAP_SIZE \<le> card (P - {pid})" using card_mono[of "P - {pid}"] assms(3) by (metis finite_Diff)
  moreover have "card (P - {pid}) < card P" using assms(3,5) by (rule card_Diff1_less)
  ultimately show ?thesis using assms(4) by linarith
qed simp

lemma dump_entries_return:
  assumes "table_inv (fv_slots s)" "\<forall>p < PID_MAP_SIZE. used (fv_slots s) p \<longrightarrow> sl_pid (fv_slots s p) \<in> P" "finite P" "card P \<le> PID_MAP_SIZE"
    "\<forall>e \<in> set es. ce_cmd_id e = c \<and> ce_pid e \<noteq> NO_PID \<and> ce_pid e \<in> P"
  shows "\<exists>s'. fold_outcome (dump_entry c) es s = Inr s' \<and> fv_buffer s' = fv_buffer s \<and> fv_cmd_id s' = fv_cmd_id s \<and> fv_file s' = fv_file s"
proof -
  let ?ok = "\<lambda>u. table_inv (fv_slots u) \<and> (\<forall>p < PID_MAP_SIZE. used (fv_slots u) p \<longrightarrow> sl_pid (fv_slots u p) \<in> P)
    \<and> fv_buffer u = fv_buffer s \<and> fv_cmd_id u = fv_cmd_id s \<and> fv_file u = fv_file s"
  have "\<exists>t. dump_entry c e u = Inr t \<and> ?ok t" if e: "e \<in> set es" and u: "?ok u" for e u
  proof -
    have "\<exists>r. get_slot_by_pid (ce_pid e) (fv_slots u) = Inr r" using get_slot_by_pid_room[of "fv_slots u" P] u assms(3-5) e by blast
    then obtain t where t: "dump_entry c e u = Inr t" using assms(5) e by (auto simp: dump_entry_def Let_def)
    have p: "ce_pid e \<noteq> NO_PID" "ce_pid e \<in> P" using assms(5) e by auto
    note d = dump_entry_spec[OF _ p(1) t]
    have "sl_pid (fv_slots t q) \<in> P" if "q < PID_MAP_SIZE" "used (fv_slots t) q" for q
      using d(4)[of q] u p that by (auto simp: used_def)
    then show ?thesis using d t u by simp
  qed
  then have "\<exists>t. fold_outcome (dump_entry c) es s = Inr t \<and> ?ok t" using assms(1,2) by (intro fold_outcome_total) auto
  then show ?thesis by blast
qed

definition fresh_table :: "(nat \<Rightarrow> slot_entry) \<Rightarrow> bool" where
  "fresh_table slots \<longleftrightarrow> (\<forall>p < PID_MAP_SIZE. slots p = no_slot)"

lemma fresh_table_inv: "fresh_table slots \<Longrightarrow> table_inv slots \<and> slots_kept slots PID_MAP_SIZE q = [] \<and> (\<forall>p < PID_MAP_SIZE. \<not> used slots p)"
  by (auto simp: fresh_table_def table_inv_def used_def no_slot_def slots_kept_def inj_on_def)

text \<open>
  C29. A dump after a command in which at most 2048 tasks ran returns, and writes for every task exactly
  the blocks recorded of it, in the order of the CPUs and of the recording, none lost to the chunking
  or to a collision in the table; the buffers and the table are empty for the next command.
\<close>
theorem cov_dump_groups_by_task:
  assumes "fv_file s" "fresh_table (fv_slots s)"
    "\<forall>e \<in> set (concat (map (fv_buffer s) [0..<possible])). ce_cmd_id e = fv_cmd_id s \<and> ce_pid e \<noteq> NO_PID"
    "card (ce_pid ` set (concat (map (fv_buffer s) [0..<possible]))) \<le> PID_MAP_SIZE"
  shows "\<exists>s'. kstep_cov_dump possible s = Inr s' \<and> fresh_table (fv_slots s') \<and> (\<forall>cpu < possible. fv_buffer s' cpu = []) \<and> fv_cmd_id s' = fv_cmd_id s
    \<and> (\<forall>q. cov_written s' q = cov_written s q @ map ce_ip (filter (\<lambda>e. ce_pid e = q) (concat (map (fv_buffer s) [0..<possible]))))"
proof -
  let ?es = "concat (map (fv_buffer s) [0..<possible])"
  note f = fresh_table_inv[OF assms(2)]
  obtain t where t: "fold_outcome (dump_entry (fv_cmd_id s)) ?es s = Inr t" "fv_cmd_id t = fv_cmd_id s"
    using dump_entries_return[of s "ce_pid ` set ?es" ?es "fv_cmd_id s"] f assms(3,4) by auto
  have g: "cov_written t q @ cov_kept t q = cov_written s q @ map ce_ip (filter (\<lambda>e. ce_pid e = q) ?es)" and inv: "table_inv (fv_slots t)" for q
    using dump.stream_grouped[OF _ _ t(1), of q] f assms(3) unfolding list_all_iff cov_kept_def by auto
  have w: "cov_written (kstep_cov_reset possible u) q = cov_written u q" for u q by (simp add: cov_written_def kstep_cov_reset_def)
  let ?u = "fold (flush_slot (fv_cmd_id s)) [0..<PID_MAP_SIZE] t"
  have "cov_written ?u q = cov_written s q @ map ce_ip (filter (\<lambda>e. ce_pid e = q) ?es)" for q
    using fold_flush[of "fv_cmd_id s" PID_MAP_SIZE t q] g[of q] kept_none[of "fv_slots t"] inv by (auto simp: cov_kept_def split: if_splits)
  moreover have "kstep_cov_dump possible s = Inr (kstep_cov_reset possible ?u)" using t(1) assms(1) by (simp add: kstep_cov_dump_def Let_def)
  moreover have "fv_cmd_id (fold (flush_slot c) xs u) = fv_cmd_id u" for c xs u
    by (induction xs arbitrary: u) (simp_all add: flush_slot_def kstep_cov_flush_pcs_def Let_def)
  ultimately show ?thesis using t(2) w by (auto simp: kstep_cov_reset_def fresh_table_def)
qed

text \<open>Two tasks whose own slots are the same, on two CPUs.\<close>

definition demo_cov :: fuzz_cov where
  "demo_cov = \<lparr>fv_mode = COV_DISABLED, fv_hook = False, fv_buffer = (\<lambda>cpu. if cpu = 0 then [] else
     if cpu = 1 then [\<lparr>ce_cmd_id = 7, ce_pid = 5, ce_ip = 100\<rparr>, \<lparr>ce_cmd_id = 7, ce_pid = 2053, ce_ip = 101\<rparr>] else [\<lparr>ce_cmd_id = 7, ce_pid = 5, ce_ip = 102\<rparr>]),
     fv_cmd_id = 7, fv_slots = (\<lambda>_. no_slot), fv_file = True, fv_out = []\<rparr>"

theorem cov_dump_groups_by_task_witness:
  "\<exists>s'. kstep_cov_dump 3 demo_cov = Inr s' \<and> cov_written s' 5 = [100, 102] \<and> cov_written s' 2053 = [101]"
proof -
  have e: "concat (map (fv_buffer demo_cov) [0..<3]) = [\<lparr>ce_cmd_id = 7, ce_pid = 5, ce_ip = 100\<rparr>, \<lparr>ce_cmd_id = 7, ce_pid = 2053, ce_ip = 101\<rparr>,
      \<lparr>ce_cmd_id = 7, ce_pid = 5, ce_ip = 102\<rparr>]" by (simp add: demo_cov_def upt_rec)
  have "fv_file demo_cov" "fresh_table (fv_slots demo_cov)" "fv_cmd_id demo_cov = 7" "cov_written demo_cov q = []" for q
    by (simp_all add: demo_cov_def fresh_table_def cov_written_def)
  moreover have "card {5, 2053, 5 :: u32} \<le> PID_MAP_SIZE" by (simp add: card_insert_if)
  ultimately show ?thesis using cov_dump_groups_by_task[of demo_cov 3] unfolding e by auto
qed

end
