(* ===== verification/Fuzz_Ops.thy ===== *)
theory Fuzz_Ops
  imports Fuzz_Cov Tick Kernel
begin

text \<open>
  The operations of the archived in-guest fuzzer (docs/archive/old_fuzzer/kmod: state.h, handler.c,
  handler_task.c, handler_cgroup.c, handler_tick.c). An operation names tasks and cgroups by number; the
  tables of both are the fuzzer's, the tasks and cgroups behind them the kernel's. What the fuzzer calls
  of the module of its time and of the kernel is an argument; a call may wait forever or panic.
\<close>

section \<open>State\<close>

abbreviation MAX_TASKS :: int where "MAX_TASKS \<equiv> 1024"
abbreviation MAX_CGROUPS :: int where "MAX_CGROUPS \<equiv> 1024"
abbreviation MAX_CGROUP_NAME_LEN :: nat where "MAX_CGROUP_NAME_LEN \<equiv> 256"

datatype kstep_op_type = OP_TASK_CREATE | OP_TASK_FORK | OP_TASK_PIN | OP_TASK_FIFO | OP_TASK_CFS | OP_TASK_PAUSE | OP_TASK_WAKEUP
  | OP_TASK_SET_PRIO | OP_TICK | OP_TICK_REPEAT | OP_CGROUP_CREATE | OP_CGROUP_SET_CPUSET | OP_CGROUP_SET_WEIGHT | OP_CGROUP_ADD_TASK
  | OP_CGROUP_DESTROY | OP_CGROUP_MOVE_TASK_ROOT | OP_TASK_FREEZE

record fuzz_task =
  ft_p :: "tptr option"
  ft_cgroup_id :: int
  ft_cur_cpu :: int
  ft_cur_policy :: int

record kstep_cgroup_state =
  cg_exists :: bool
  cg_parent_id :: int
  cg_tg :: "nat option"

text \<open>
  The kernel: what the operations do to it, and what the fuzzer reads of a task (on a CPU, asked to
  leave it, its state, policy, pid and CPU, whether it is frozen), of the processes (each with its two
  parents), of the cgroup behind a path (\<open>None\<close>: not found; then its group, if it has one).
\<close>

record 'm fkern =
  fk_create :: "'m \<Rightarrow> (tptr \<times> 'm) run"
  fk_fork :: "tptr \<Rightarrow> 'm \<Rightarrow> 'm run"
  fk_pin :: "tptr \<Rightarrow> int \<Rightarrow> int \<Rightarrow> 'm \<Rightarrow> 'm run"
  fk_set_policy :: "tptr \<Rightarrow> int \<Rightarrow> 'm \<Rightarrow> 'm run"
  fk_set_nice :: "tptr \<Rightarrow> int \<Rightarrow> 'm \<Rightarrow> 'm run"
  fk_pause :: "tptr \<Rightarrow> 'm \<Rightarrow> 'm run"
  fk_wakeup :: "tptr \<Rightarrow> 'm \<Rightarrow> 'm run"
  fk_freeze :: "tptr \<Rightarrow> 'm \<Rightarrow> 'm run"
  fk_thaw :: "tptr \<Rightarrow> 'm \<Rightarrow> 'm run"
  fk_tick :: "'m \<Rightarrow> 'm run"
  fk_cgroup_create :: "string \<Rightarrow> 'm \<Rightarrow> 'm run"
  fk_cgroup_set_cpuset :: "string \<Rightarrow> string \<Rightarrow> 'm \<Rightarrow> 'm run"
  fk_cgroup_set_weight :: "string \<Rightarrow> int \<Rightarrow> 'm \<Rightarrow> 'm run"
  fk_cgroup_move_task :: "string \<Rightarrow> int \<Rightarrow> 'm \<Rightarrow> 'm run"
  fk_cgroup_destroy :: "string \<Rightarrow> 'm \<Rightarrow> 'm run"
  fk_online :: nat
  fk_on_cpu :: "'m \<Rightarrow> tptr \<Rightarrow> bool"
  fk_need_resched :: "'m \<Rightarrow> tptr \<Rightarrow> bool"
  fk_need_resched_lazy :: "'m \<Rightarrow> tptr \<Rightarrow> bool"
  fk_state :: "'m \<Rightarrow> tptr \<Rightarrow> u32"
  fk_frozen :: "'m \<Rightarrow> tptr \<Rightarrow> bool"
  fk_policy :: "'m \<Rightarrow> tptr \<Rightarrow> int"
  fk_pid :: "'m \<Rightarrow> tptr \<Rightarrow> int"
  fk_cpu :: "'m \<Rightarrow> tptr \<Rightarrow> int"
  fk_processes :: "'m \<Rightarrow> (tptr \<times> tptr \<times> tptr) list"
  fk_cgroup_css :: "'m \<Rightarrow> string \<Rightarrow> nat option option"
  fk_tg_se :: "'m \<Rightarrow> nat \<Rightarrow> nat \<Rightarrow> nat option"
  fk_eligible :: "'m \<Rightarrow> nat \<Rightarrow> bool"

text \<open>What the checks print, with the values printed.\<close>

datatype fuzz_warning = Freeze_left int int u32 | Delayed_vruntime string nat u64 u64 | Not_conserving nat "nat list"
  | Cfs_util_drop nat | Rt_util_drop nat | Total_util_drop nat

text \<open>The two tables, the kernel, the coverage, the warnings printed, and the bytes written to the host.\<close>

record 'm fuzz =
  fu_tasks :: "int \<Rightarrow> fuzz_task"
  fu_cgroups :: "int \<Rightarrow> kstep_cgroup_state"
  fu_m :: 'm
  fu_cov :: fuzz_cov
  fu_warnings :: "fuzz_warning list"
  fu_sock :: "u8 list"

definition kstep_op_is_valid_task_id :: "int \<Rightarrow> bool" where
  "kstep_op_is_valid_task_id i \<longleftrightarrow> i \<ge> 0 \<and> i < MAX_TASKS"

definition kstep_op_is_valid_cgroup_id :: "int \<Rightarrow> bool" where
  "kstep_op_is_valid_cgroup_id i \<longleftrightarrow> i \<ge> 0 \<and> i < MAX_CGROUPS"

definition task_ids :: "int list" where "task_ids = map int [0..<1024]"
definition cgroup_ids :: "int list" where "cgroup_ids = map int [0..<1024]"

definition on_m :: "('m \<Rightarrow> 'm run) \<Rightarrow> 'm fuzz \<Rightarrow> 'm fuzz run" where
  "on_m f s = bind_run (f (fu_m s)) (\<lambda>m. Some (Inr (s\<lparr>fu_m := m\<rparr>)))"

section \<open>Names of cgroups\<close>

text \<open>
  The walk from a cgroup to the root, \<open>depth\<close> entries of the lineage filled so far; the array has
  room for as many as there are cgroups, and the walk fails when it is full.
\<close>

function cgroup_lineage :: "(int \<Rightarrow> kstep_cgroup_state) \<Rightarrow> nat \<Rightarrow> int \<Rightarrow> int list option" where
  "cgroup_lineage cgs depth cur =
     (if cur = -1 then Some []
      else if \<not> kstep_op_is_valid_cgroup_id cur \<or> \<not> cg_exists (cgs cur) \<or> int depth \<ge> MAX_CGROUPS then None
      else map_option (\<lambda>l. cur # l) (cgroup_lineage cgs (depth + 1) (cg_parent_id (cgs cur))))"
  by pat_completeness auto
termination
  by (relation "measure (\<lambda>(_, depth, _). 1024 - depth)") auto

declare cgroup_lineage.simps [simp del]

text \<open>
  \<open>scnprintf\<close> never reports as much as the room it has, so the check for the end of the buffer never
  fails: a longer name is cut.
\<close>

fun cgroup_name_loop :: "int list \<Rightarrow> string \<Rightarrow> string option" where
  "cgroup_name_loop [] buf = Some buf"
| "cgroup_name_loop (i # l) buf = (let buf = buf @ scnprintf (MAX_CGROUP_NAME_LEN - length buf) (''cg'' @ sdec i @ (if l \<noteq> [] then ''/'' else [])) in
     if length buf \<ge> MAX_CGROUP_NAME_LEN then None else cgroup_name_loop l buf)"

definition kstep_build_cgroup_name :: "(int \<Rightarrow> kstep_cgroup_state) \<Rightarrow> int \<Rightarrow> string option" where
  "kstep_build_cgroup_name cgs i = Option.bind (cgroup_lineage cgs 0 i) (\<lambda>l. cgroup_name_loop (rev l) [])"

section \<open>Operations on tasks\<close>

definition pid_known :: "'m fkern \<Rightarrow> 'm fuzz \<Rightarrow> int \<Rightarrow> bool" where
  "pid_known K s pid \<longleftrightarrow> list_ex (\<lambda>i. case ft_p (fu_tasks s i) of None \<Rightarrow> False | Some p \<Rightarrow> fk_pid K (fu_m s) p = pid) task_ids"

definition kstep_op_task_running :: "'m fkern \<Rightarrow> 'm \<Rightarrow> tptr \<Rightarrow> bool" where
  "kstep_op_task_running K m p \<longleftrightarrow> (if fk_need_resched_lazy K m p then False else fk_on_cpu K m p \<and> \<not> fk_need_resched K m p)"

definition find_new_child :: "'m fkern \<Rightarrow> tptr \<Rightarrow> 'm fuzz \<Rightarrow> tptr outcome" where
  "find_new_child K par s = (case find (\<lambda>(p, real_parent, parent).
       (real_parent = par \<or> parent = par) \<and> fk_pid K (fu_m s) p > fk_pid K (fu_m s) par \<and> \<not> pid_known K s (fk_pid K (fu_m s) p)) (fk_processes K (fu_m s)) of
     Some (p, _) \<Rightarrow> Inr p | None \<Rightarrow> Inl ''No new child found for parent %d'')"

text \<open>The task of a valid number; \<open>None\<close> is a null pointer.\<close>

definition task_of_id :: "'m fuzz \<Rightarrow> int \<Rightarrow> tptr option" where
  "task_of_id s a = (if kstep_op_is_valid_task_id a then ft_p (fu_tasks s a) else None)"

definition require_running_task :: "'m fkern \<Rightarrow> int \<Rightarrow> string \<Rightarrow> 'm fuzz \<Rightarrow> tptr option outcome" where
  "require_running_task K a verb s = (case task_of_id s a of None \<Rightarrow> Inr None
     | Some p \<Rightarrow> if \<not> kstep_op_task_running K (fu_m s) p then Inl (''Task %d is not on CPU when '' @ verb) else Inr (Some p))"

definition set_task :: "int \<Rightarrow> fuzz_task \<Rightarrow> 'm fuzz \<Rightarrow> 'm fuzz" where
  "set_task a t s = s\<lparr>fu_tasks := (fu_tasks s)(a := t)\<rparr>"

text \<open>An operation returns the steps it executed, 0 when it does not apply.\<close>

type_synonym 'm op = "'m fkern \<Rightarrow> int \<Rightarrow> int \<Rightarrow> int \<Rightarrow> 'm fuzz \<Rightarrow> (u8 \<times> 'm fuzz) run"

definition op_skip :: "'m fuzz \<Rightarrow> (u8 \<times> 'm fuzz) run" where
  "op_skip s = Some (Inr (0, s))"

definition op_done :: "'m fuzz run \<Rightarrow> (u8 \<times> 'm fuzz) run" where
  "op_done r = bind_run r (\<lambda>s. Some (Inr (1, s)))"

definition on_running :: "'m fkern \<Rightarrow> int \<Rightarrow> string \<Rightarrow> (tptr \<Rightarrow> 'm fuzz \<Rightarrow> (u8 \<times> 'm fuzz) run) \<Rightarrow> 'm fuzz \<Rightarrow> (u8 \<times> 'm fuzz) run" where
  "on_running K a verb f s = bind_run (Some (require_running_task K a verb s)) (\<lambda>p. case p of None \<Rightarrow> op_skip s | Some p \<Rightarrow> f p s)"

definition kstep_op_task_create :: "'m op" where
  "kstep_op_task_create K a b c s =
     (if \<not> kstep_op_is_valid_task_id a \<or> ft_p (fu_tasks s a) \<noteq> None then Some (Inl ''Invalid task id'')
      else op_done (bind_run (fk_create K (fu_m s)) (\<lambda>(p, m).
        Some (Inr (set_task a ((fu_tasks s a)\<lparr>ft_p := Some p, ft_cgroup_id := -1\<rparr>) (s\<lparr>fu_m := m\<rparr>))))))"

definition kstep_op_task_fork :: "'m op" where
  "kstep_op_task_fork K a b c s =
     (if \<not> kstep_op_is_valid_task_id a \<or> \<not> kstep_op_is_valid_task_id b then op_skip s
      else case (ft_p (fu_tasks s a), ft_p (fu_tasks s b)) of
        (Some par, None) \<Rightarrow>
          if \<not> kstep_op_task_running K (fu_m s) par then Some (Inl ''Task %d is not on CPU when forking'')
          else op_done (bind_run (on_m (fk_fork K par) s) (\<lambda>s.
            bind_run (Some (find_new_child K par s)) (\<lambda>p.
            Some (Inr (set_task b ((fu_tasks s b)\<lparr>ft_p := Some p, ft_cgroup_id := ft_cgroup_id (fu_tasks s a)\<rparr>) s)))))
      | _ \<Rightarrow> op_skip s)"

definition kstep_op_move_task_to_root :: "'m fkern \<Rightarrow> int \<Rightarrow> 'm fuzz \<Rightarrow> 'm fuzz run" where
  "kstep_op_move_task_to_root K a s = (case task_of_id s a of None \<Rightarrow> Some (Inl ''Invalid task id %d'')
     | Some p \<Rightarrow> bind_run (on_m (fk_cgroup_move_task K [] (fk_pid K (fu_m s) p)) s) (\<lambda>s.
         bind_run (on_m (fk_pin K p 1 (int (fk_online K) - 1)) s) (\<lambda>s.
         Some (Inr (set_task a ((fu_tasks s a)\<lparr>ft_cgroup_id := -1\<rparr>) s)))))"

abbreviation (input) SCHED_NORMAL :: int where "SCHED_NORMAL \<equiv> 0"
abbreviation (input) SCHED_FIFO :: int where "SCHED_FIFO \<equiv> 1"

definition kstep_op_task_pin :: "'m op" where
  "kstep_op_task_pin K a b c = on_running K a ''pinning'' (\<lambda>p s. op_done (on_m (fk_pin K p b c) s))"

definition kstep_op_task_fifo :: "'m op" where
  "kstep_op_task_fifo K a b c = on_running K a ''setting FIFO'' (\<lambda>p s.
     op_done (bind_run (kstep_op_move_task_to_root K a s) (on_m (fk_set_policy K p SCHED_FIFO))))"

definition kstep_op_task_cfs :: "'m op" where
  "kstep_op_task_cfs K a b c = on_running K a ''setting CFS'' (\<lambda>p s. op_done (on_m (fk_set_policy K p SCHED_NORMAL) s))"

definition kstep_op_task_pause :: "'m op" where
  "kstep_op_task_pause K a b c = on_running K a ''pausing'' (\<lambda>p s. op_done (on_m (fk_pause K p) s))"

abbreviation TASK_RUNNING :: u32 where "TASK_RUNNING \<equiv> 0"

definition kstep_op_task_wakeup :: "'m op" where
  "kstep_op_task_wakeup K a b c s = (case task_of_id s a of None \<Rightarrow> op_skip s
     | Some p \<Rightarrow> if fk_state K (fu_m s) p = TASK_RUNNING then Some (Inl ''Task %d is already on CPU when waking up'')
         else op_done (bind_run (if fk_frozen K (fu_m s) p then on_m (fk_thaw K p) s else Some (Inr s)) (on_m (fk_wakeup K p))))"

definition kstep_op_task_freeze :: "'m op" where
  "kstep_op_task_freeze K a b c s = (case task_of_id s a of None \<Rightarrow> op_skip s
     | Some p \<Rightarrow> if fk_state K (fu_m s) p = TASK_RUNNING then Some (Inl ''Task %d is running when freezing'')
         else op_done (on_m (fk_freeze K p) s))"

definition kstep_op_task_set_prio :: "'m op" where
  "kstep_op_task_set_prio K a b c = on_running K a ''setting priority'' (\<lambda>p s.
     if b < -20 \<or> b > 19 then op_skip s else op_done (on_m (fk_set_nice K p b) s))"

section \<open>Operations on cgroups\<close>

definition kstep_op_cgroup_is_leaf :: "'m fuzz \<Rightarrow> int \<Rightarrow> bool" where
  "kstep_op_cgroup_is_leaf s a \<longleftrightarrow> list_all (\<lambda>i. \<not> (cg_exists (fu_cgroups s i) \<and> cg_parent_id (fu_cgroups s i) = a)) cgroup_ids"

definition kstep_op_lookup_cgroup_task_group :: "'m fkern \<Rightarrow> string \<Rightarrow> 'm \<Rightarrow> nat option" where
  "kstep_op_lookup_cgroup_task_group K name m = (case fk_cgroup_css K m name of None \<Rightarrow> None | Some tg \<Rightarrow> tg)"

fun move_tasks_loop :: "'m fkern \<Rightarrow> int \<Rightarrow> int list \<Rightarrow> 'm fuzz \<Rightarrow> 'm fuzz run" where
  "move_tasks_loop K a [] s = Some (Inr s)"
| "move_tasks_loop K a (i # is) s = (if ft_p (fu_tasks s i) = None \<or> ft_cgroup_id (fu_tasks s i) \<noteq> a then move_tasks_loop K a is s
     else bind_run (kstep_op_move_task_to_root K i s) (move_tasks_loop K a is))"

definition kstep_op_cgroup_move_tasks_to_root :: "'m fkern \<Rightarrow> int \<Rightarrow> 'm fuzz \<Rightarrow> 'm fuzz run" where
  "kstep_op_cgroup_move_tasks_to_root K a s = move_tasks_loop K a task_ids s"

definition set_cgroup :: "int \<Rightarrow> kstep_cgroup_state \<Rightarrow> 'm fuzz \<Rightarrow> 'm fuzz" where
  "set_cgroup a g s = s\<lparr>fu_cgroups := (fu_cgroups s)(a := g)\<rparr>"

definition cgroup_of_id :: "'m fuzz \<Rightarrow> int \<Rightarrow> bool" where
  "cgroup_of_id s a \<longleftrightarrow> kstep_op_is_valid_cgroup_id a \<and> cg_exists (fu_cgroups s a)"

definition kstep_op_cgroup_create :: "'m op" where
  "kstep_op_cgroup_create K a b c s =
     (if \<not> kstep_op_is_valid_cgroup_id b \<or> cg_exists (fu_cgroups s b) then op_skip s
      else if a \<noteq> -1 \<and> \<not> cgroup_of_id s a then op_skip s
      else let s = set_cgroup b ((fu_cgroups s b)\<lparr>cg_parent_id := a, cg_exists := True\<rparr>) s in
        case kstep_build_cgroup_name (fu_cgroups s) b of None \<Rightarrow> op_skip s
        | Some name \<Rightarrow> op_done (
            bind_run (if a \<noteq> -1 then kstep_op_cgroup_move_tasks_to_root K a s else Some (Inr s)) (\<lambda>s.
            bind_run (on_m (fk_cgroup_create K name) s) (\<lambda>s.
            let tg = kstep_op_lookup_cgroup_task_group K name (fu_m s);
                s = set_cgroup b ((fu_cgroups s b)\<lparr>cg_tg := tg\<rparr>) s in
            if tg = None then Some (Inl ''Failed to resolve task group for cgroup %s'') else Some (Inr s)))))"

definition kstep_op_cgroup_set_cpuset :: "'m op" where
  "kstep_op_cgroup_set_cpuset K a b c s =
     (if \<not> cgroup_of_id s a then op_skip s
      else case kstep_build_cgroup_name (fu_cgroups s) a of None \<Rightarrow> op_skip s
      | Some name \<Rightarrow> if b > c \<or> b < 1 \<or> c > int (fk_online K) - 1 then op_skip s
          else let cpuset = scnprintf 32 (sdec b @ ''-'' @ sdec c) in
            if length cpuset \<ge> 32 then op_skip s else op_done (on_m (fk_cgroup_set_cpuset K name cpuset) s))"

definition kstep_op_cgroup_set_weight :: "'m op" where
  "kstep_op_cgroup_set_weight K a b c s =
     (if \<not> cgroup_of_id s a then op_skip s
      else case kstep_build_cgroup_name (fu_cgroups s) a of None \<Rightarrow> op_skip s
      | Some name \<Rightarrow> if b \<le> 0 \<or> b > 10000 then op_skip s else op_done (on_m (fk_cgroup_set_weight K name b) s))"

definition kstep_op_cgroup_add_task :: "'m op" where
  "kstep_op_cgroup_add_task K a b c s =
     (if \<not> cgroup_of_id s a then op_skip s
      else case kstep_build_cgroup_name (fu_cgroups s) a of None \<Rightarrow> op_skip s
      | Some name \<Rightarrow> (case task_of_id s b of None \<Rightarrow> op_skip s
          | Some p \<Rightarrow> op_done (
              bind_run (if fk_policy K (fu_m s) p \<noteq> 0 then on_m (fk_set_policy K p SCHED_NORMAL) s else Some (Inr s)) (\<lambda>s.
              bind_run (on_m (fk_cgroup_move_task K name (fk_pid K (fu_m s) p)) s) (\<lambda>s.
              Some (Inr (set_task b ((fu_tasks s b)\<lparr>ft_cgroup_id := a\<rparr>) s)))))))"

definition kstep_op_cgroup_destroy :: "'m op" where
  "kstep_op_cgroup_destroy K a b c s =
     (if \<not> cgroup_of_id s a then op_skip s
      else if \<not> kstep_op_cgroup_is_leaf s a then op_skip s
      else case kstep_build_cgroup_name (fu_cgroups s) a of None \<Rightarrow> op_skip s
      | Some name \<Rightarrow> op_done (
          bind_run (kstep_op_cgroup_move_tasks_to_root K a s) (\<lambda>s.
          bind_run (on_m (fk_cgroup_destroy K name) s) (\<lambda>s.
          Some (Inr (set_cgroup a \<lparr>cg_exists = False, cg_parent_id = -1, cg_tg = None\<rparr> s))))))"

definition kstep_op_cgroup_move_task_root :: "'m op" where
  "kstep_op_cgroup_move_task_root K a b c s =
     (if \<not> cgroup_of_id s a then op_skip s
      else if task_of_id s b = None then op_skip s
      else if ft_cgroup_id (fu_tasks s b) \<noteq> a then op_skip s
      else op_done (kstep_op_move_task_to_root K b s))"

section \<open>Ticks\<close>

definition kstep_op_tick :: "'m op" where
  "kstep_op_tick K a b c s = op_done (on_m (fk_tick K) s)"

definition count_ineligible_cgroup_se :: "'m fkern \<Rightarrow> 'm fuzz \<Rightarrow> nat" where
  "count_ineligible_cgroup_se K s = sum_list (map (\<lambda>i. if \<not> cg_exists (fu_cgroups s i) then 0
     else case cg_tg (fu_cgroups s i) of None \<Rightarrow> 0
     | Some tg \<Rightarrow> length (filter (\<lambda>cpu. case fk_tg_se K (fu_m s) tg cpu of None \<Rightarrow> False | Some se \<Rightarrow> \<not> fk_eligible K (fu_m s) se) [1..<fk_online K])) cgroup_ids)"

text \<open>The table of handlers; the handler of the repeated tick goes through the dispatcher and is an argument here.\<close>

fun op_handlers :: "'m op \<Rightarrow> kstep_op_type \<Rightarrow> 'm op" where
  "op_handlers R OP_TASK_CREATE = kstep_op_task_create"
| "op_handlers R OP_TASK_FORK = kstep_op_task_fork"
| "op_handlers R OP_TASK_PIN = kstep_op_task_pin"
| "op_handlers R OP_TASK_FIFO = kstep_op_task_fifo"
| "op_handlers R OP_TASK_CFS = kstep_op_task_cfs"
| "op_handlers R OP_TASK_PAUSE = kstep_op_task_pause"
| "op_handlers R OP_TASK_WAKEUP = kstep_op_task_wakeup"
| "op_handlers R OP_TASK_SET_PRIO = kstep_op_task_set_prio"
| "op_handlers R OP_TICK = kstep_op_tick"
| "op_handlers R OP_TICK_REPEAT = R"
| "op_handlers R OP_CGROUP_CREATE = kstep_op_cgroup_create"
| "op_handlers R OP_CGROUP_SET_CPUSET = kstep_op_cgroup_set_cpuset"
| "op_handlers R OP_CGROUP_SET_WEIGHT = kstep_op_cgroup_set_weight"
| "op_handlers R OP_CGROUP_ADD_TASK = kstep_op_cgroup_add_task"
| "op_handlers R OP_CGROUP_DESTROY = kstep_op_cgroup_destroy"
| "op_handlers R OP_CGROUP_MOVE_TASK_ROOT = kstep_op_cgroup_move_task_root"
| "op_handlers R OP_TASK_FREEZE = kstep_op_task_freeze"

section \<open>The forest of cgroups\<close>

text \<open>
  A path from a cgroup to the root through cgroups that exist. The table is a forest when every cgroup
  that exists is on such a path, and every task's cgroup exists.
\<close>

inductive rooted :: "(int \<Rightarrow> kstep_cgroup_state) \<Rightarrow> int \<Rightarrow> int list \<Rightarrow> bool" for cgs where
  root: "rooted cgs (-1) []"
| up: "kstep_op_is_valid_cgroup_id i \<Longrightarrow> cg_exists (cgs i) \<Longrightarrow> rooted cgs (cg_parent_id (cgs i)) l \<Longrightarrow> rooted cgs i (i # l)"

inductive_cases rootedE: "rooted cgs i l"

definition forest :: "(int \<Rightarrow> kstep_cgroup_state) \<Rightarrow> bool" where
  "forest cgs \<longleftrightarrow> (\<forall>i. kstep_op_is_valid_cgroup_id i \<longrightarrow> cg_exists (cgs i) \<longrightarrow> (\<exists>l. rooted cgs i l))"

definition fuzz_inv :: "'m fuzz \<Rightarrow> bool" where
  "fuzz_inv s \<longleftrightarrow> forest (fu_cgroups s)
     \<and> (\<forall>i. kstep_op_is_valid_task_id i \<longrightarrow> ft_p (fu_tasks s i) \<noteq> None \<longrightarrow> ft_cgroup_id (fu_tasks s i) = -1 \<or> cgroup_of_id s (ft_cgroup_id (fu_tasks s i)))"

lemma rooted_unique: "rooted cgs i l \<Longrightarrow> rooted cgs i l' \<Longrightarrow> l = l'"
proof (induction arbitrary: l' rule: rooted.induct)
  case root
  then show ?case by (auto elim: rootedE simp: kstep_op_is_valid_cgroup_id_def)
next
  case (up i l)
  then obtain k where "l' = i # k" "rooted cgs (cg_parent_id (cgs i)) k" by (auto elim: rootedE simp: kstep_op_is_valid_cgroup_id_def)
  then show ?case using up.IH by simp
qed

lemma rooted_members: "rooted cgs i l \<Longrightarrow> x \<in> set l \<Longrightarrow> kstep_op_is_valid_cgroup_id x \<and> cg_exists (cgs x) \<and> (\<exists>k. rooted cgs x (x # k) \<and> length k < length l)"
  by (induction rule: rooted.induct) (auto intro: rooted.up less_SucI)

lemma rooted_distinct: "rooted cgs i l \<Longrightarrow> distinct l"
proof (induction rule: rooted.induct)
  case (up i l)
  have "i \<notin> set l"
  proof
    assume "i \<in> set l"
    then obtain k where "rooted cgs i (i # k)" "length k < length l" using rooted_members[OF up.hyps(3)] by blast
    moreover have "rooted cgs i (i # l)" using up.hyps by (rule rooted.up)
    ultimately show False using rooted_unique by fastforce
  qed
  then show ?case using up.IH by simp
qed simp

lemma rooted_length: "rooted cgs i l \<Longrightarrow> length l \<le> 1024"
proof -
  assume r: "rooted cgs i l"
  have "set l \<subseteq> {0..<1024}" using rooted_members[OF r] by (auto simp: kstep_op_is_valid_cgroup_id_def)
  then have "card (set l) \<le> card {0..<1024 :: int}" by (intro card_mono) auto
  then show ?thesis using distinct_card[OF rooted_distinct[OF r]] by simp
qed

lemma lineage_rooted: "rooted cgs i l \<Longrightarrow> depth + length l \<le> 1024 \<Longrightarrow> cgroup_lineage cgs depth i = Some l"
  by (induction arbitrary: depth rule: rooted.induct)
    (subst cgroup_lineage.simps, simp add: kstep_op_is_valid_cgroup_id_def)+

text \<open>The name of a path, from the root down, cut to the buffer.\<close>

definition cgroup_path :: "int list \<Rightarrow> string" where
  "cgroup_path l = concat (map (\<lambda>i. ''cg'' @ sdec i @ ''/'') (butlast l)) @ (if l = [] then [] else ''cg'' @ sdec (last l))"

lemma cgroup_path_Cons: "cgroup_path (i # l) = ''cg'' @ sdec i @ (if l \<noteq> [] then ''/'' else []) @ cgroup_path l"
  by (cases l) (simp_all add: cgroup_path_def)

lemma name_loop: "length buf \<le> 255 \<Longrightarrow> cgroup_name_loop l buf = Some (take 255 (buf @ cgroup_path l))"
proof (induction l arbitrary: buf)
  case (Cons i l)
  let ?b = "buf @ take (255 - length buf) (''cg'' @ sdec i @ (if l \<noteq> [] then ''/'' else []))"
  have b: "?b = take 255 (buf @ ''cg'' @ sdec i @ (if l \<noteq> [] then ''/'' else []))" using Cons.prems by simp
  have "cgroup_name_loop (i # l) buf = cgroup_name_loop l ?b" using Cons.prems by (auto simp: scnprintf_def Let_def min_def)
  also have "\<dots> = Some (take 255 (?b @ cgroup_path l))" using Cons.prems by (intro Cons.IH) simp
  also have "take 255 (?b @ cgroup_path l) = take 255 (buf @ cgroup_path (i # l))" unfolding b take_take_append cgroup_path_Cons by simp
  finally show ?case .
qed (simp add: cgroup_path_def)

lemma build_name_rooted: "rooted cgs i l \<Longrightarrow> kstep_build_cgroup_name cgs i = Some (take 255 (cgroup_path (rev l)))"
  using rooted_length[of cgs i l] by (simp add: kstep_build_cgroup_name_def lineage_rooted name_loop)

section \<open>What an operation does to the tables\<close>

lemma rooted_add: "rooted cgs i l \<Longrightarrow> \<not> cg_exists (cgs b) \<Longrightarrow> rooted (cgs(b := g)) i l"
  by (induction rule: rooted.induct) (auto intro!: rooted.intros simp: rooted.up)

lemma rooted_remove:
  "rooted cgs i l \<Longrightarrow> i \<noteq> a \<Longrightarrow> (\<And>k. kstep_op_is_valid_cgroup_id k \<Longrightarrow> cg_exists (cgs k) \<Longrightarrow> cg_parent_id (cgs k) \<noteq> a) \<Longrightarrow> rooted (cgs(a := g)) i l"
  by (induction rule: rooted.induct) (auto intro!: rooted.intros simp: rooted.up)

lemma rooted_tg: "rooted (cgs(b := (cgs b)\<lparr>cg_tg := tg\<rparr>)) i l \<longleftrightarrow> rooted cgs i l"
proof
  show "rooted cgs i l" if "rooted (cgs(b := (cgs b)\<lparr>cg_tg := tg\<rparr>)) i l"
    using that by (induction rule: rooted.induct) (auto intro!: rooted.intros simp: rooted.up split: if_splits)
  show "rooted (cgs(b := (cgs b)\<lparr>cg_tg := tg\<rparr>)) i l" if "rooted cgs i l"
    using that by (induction rule: rooted.induct) (auto intro!: rooted.intros simp: rooted.up)
qed

lemma forest_add:
  assumes "forest cgs" "kstep_op_is_valid_cgroup_id b" "\<not> cg_exists (cgs b)" "a = -1 \<or> kstep_op_is_valid_cgroup_id a \<and> cg_exists (cgs a)"
  shows "forest (cgs(b := (cgs b)\<lparr>cg_parent_id := a, cg_exists := True\<rparr>))" (is "forest ?C")
proof -
  have old: "\<exists>l. rooted ?C i l" if "i = -1 \<or> kstep_op_is_valid_cgroup_id i \<and> cg_exists (cgs i)" for i
    using that assms(1) rooted_add[of cgs _ _ b, OF _ assms(3)] rooted.root unfolding forest_def by meson
  obtain l where l: "rooted ?C a l" using old assms(4) by blast
  have "rooted ?C b (b # l)" by (rule rooted.up) (use assms l in simp_all)
  then show ?thesis using old unfolding forest_def by (metis fun_upd_other)
qed

lemma forest_tg: "forest (cgs(b := (cgs b)\<lparr>cg_tg := tg\<rparr>)) = forest cgs"
  by (simp add: forest_def rooted_tg) (metis select_convs(1) update_convs(3))

lemma forest_remove:
  assumes "forest cgs" "\<And>k. kstep_op_is_valid_cgroup_id k \<Longrightarrow> cg_exists (cgs k) \<Longrightarrow> cg_parent_id (cgs k) \<noteq> a" "\<not> cg_exists g"
  shows "forest (cgs(a := g))"
  using assms rooted_remove[of cgs _ _ a g] unfolding forest_def by (metis fun_upd_apply)

lemma on_m_result: "on_m f s = Some (Inr s') \<Longrightarrow> \<exists>m. s' = s\<lparr>fu_m := m\<rparr>"
  by (auto simp: on_m_def bind_run_returns)

text \<open>A task moved to the root: its cgroup is forgotten, nothing else of the tables changes.\<close>

definition rest :: "'m fuzz \<Rightarrow> fuzz_cov \<times> fuzz_warning list \<times> u8 list" where
  "rest s = (fu_cov s, fu_warnings s, fu_sock s)"

lemma move_to_root_result:
  assumes "kstep_op_move_task_to_root K a s = Some (Inr s')"
  shows "fu_cgroups s' = fu_cgroups s \<and> fu_tasks s' = (fu_tasks s)(a := (fu_tasks s a)\<lparr>ft_cgroup_id := -1\<rparr>) \<and> rest s' = rest s"
  using assms by (auto simp: kstep_op_move_task_to_root_def set_task_def rest_def bind_run_returns split: option.splits dest!: on_m_result)

lemma move_tasks_result:
  assumes "move_tasks_loop K a is s = Some (Inr s')"
  shows "fu_cgroups s' = fu_cgroups s \<and> rest s' = rest s \<and> (\<forall>i. ft_p (fu_tasks s' i) = ft_p (fu_tasks s i)
    \<and> (ft_cgroup_id (fu_tasks s' i) = ft_cgroup_id (fu_tasks s i) \<or> ft_cgroup_id (fu_tasks s' i) = -1)
    \<and> (i \<in> set is \<longrightarrow> ft_p (fu_tasks s i) \<noteq> None \<longrightarrow> ft_cgroup_id (fu_tasks s i) = a \<longrightarrow> ft_cgroup_id (fu_tasks s' i) = -1))"
  using assms
proof (induction "is" arbitrary: s)
  case (Cons k "is")
  show ?case
  proof (cases "ft_p (fu_tasks s k) = None \<or> ft_cgroup_id (fu_tasks s k) \<noteq> a")
    case True
    then show ?thesis using Cons by auto
  next
    case False
    then obtain u where u: "kstep_op_move_task_to_root K k s = Some (Inr u)" "move_tasks_loop K a is u = Some (Inr s')"
      using Cons.prems by (auto simp: bind_run_returns)
    show ?thesis using Cons.IH[OF u(2)] move_to_root_result[OF u(1)] by (auto split: if_splits)
  qed
qed simp

lemma task_ids_set: "i \<in> set task_ids \<longleftrightarrow> kstep_op_is_valid_task_id i"
  by (auto simp: task_ids_def kstep_op_is_valid_task_id_def image_iff intro!: bexI[of _ "nat i"])

lemma cgroup_ids_set: "i \<in> set cgroup_ids \<longleftrightarrow> kstep_op_is_valid_cgroup_id i"
  by (auto simp: cgroup_ids_def kstep_op_is_valid_cgroup_id_def image_iff intro!: bexI[of _ "nat i"])

lemma fuzz_inv_m [simp]: "fuzz_inv (s\<lparr>fu_m := m\<rparr>) = fuzz_inv s"
  by (simp add: fuzz_inv_def cgroup_of_id_def)

lemma cgroup_of_id_m [simp]: "cgroup_of_id (s\<lparr>fu_m := m\<rparr>) a = cgroup_of_id s a"
  by (simp add: cgroup_of_id_def)

lemma fuzz_invD:
  "fuzz_inv s \<Longrightarrow> kstep_op_is_valid_task_id i \<Longrightarrow> ft_p (fu_tasks s i) = Some p \<Longrightarrow> ft_cgroup_id (fu_tasks s i) = -1 \<or> cgroup_of_id s (ft_cgroup_id (fu_tasks s i))"
  by (simp add: fuzz_inv_def)

lemma fuzz_inv_set_task:
  "fuzz_inv s \<Longrightarrow> ft_cgroup_id t = -1 \<or> cgroup_of_id s (ft_cgroup_id t) \<Longrightarrow> fuzz_inv (set_task a t s)"
  by (auto simp: fuzz_inv_def set_task_def cgroup_of_id_def)

lemma fuzz_inv_move_to_root: "kstep_op_move_task_to_root K a s = Some (Inr s') \<Longrightarrow> fuzz_inv s \<Longrightarrow> fuzz_inv s'"
  using move_to_root_result[of K a s s'] by (auto simp: fuzz_inv_def cgroup_of_id_def)

lemma fuzz_inv_move_tasks: "move_tasks_loop K a is s = Some (Inr s') \<Longrightarrow> fuzz_inv s \<Longrightarrow> fuzz_inv s'"
  using move_tasks_result[of K a "is" s s'] unfolding fuzz_inv_def cgroup_of_id_def by metis

lemma on_running_result:
  "on_running K a verb f s = Some (Inr r) \<Longrightarrow> r = (0, s) \<or> (\<exists>p. task_of_id s a = Some p \<and> kstep_op_task_running K (fu_m s) p \<and> f p s = Some (Inr r))"
  by (auto simp: on_running_def require_running_task_def op_skip_def split: option.splits if_splits)

lemmas op_defs = op_done_def op_skip_def bind_run_returns
lemmas op_splits = option.splits if_splits prod.splits sum.splits

text \<open>The operations that only act on the kernel.\<close>

lemmas kernel_ops = kstep_op_task_pin_def kstep_op_task_cfs_def kstep_op_task_pause_def kstep_op_task_wakeup_def kstep_op_task_freeze_def
  kstep_op_task_set_prio_def kstep_op_tick_def kstep_op_cgroup_set_cpuset_def kstep_op_cgroup_set_weight_def

lemma kernel_ops_tables:
  assumes "op \<in> {OP_TASK_PIN, OP_TASK_CFS, OP_TASK_PAUSE, OP_TASK_WAKEUP, OP_TASK_FREEZE, OP_TASK_SET_PRIO, OP_TICK, OP_CGROUP_SET_CPUSET, OP_CGROUP_SET_WEIGHT}"
    "op_handlers R op K a b c s = Some (Inr (n, s'))"
  shows "fu_tasks s' = fu_tasks s \<and> fu_cgroups s' = fu_cgroups s \<and> rest s' = rest s"
  using assms by (auto simp: kernel_ops op_defs Let_def rest_def split: op_splits dest!: on_running_result on_m_result)

lemma create_task_inv: "kstep_op_task_create K a b c s = Some (Inr (n, s')) \<Longrightarrow> fuzz_inv s \<Longrightarrow> fuzz_inv s'"
  by (auto simp: kstep_op_task_create_def op_defs split: op_splits intro!: fuzz_inv_set_task)

lemma fork_inv: "kstep_op_task_fork K a b c s = Some (Inr (n, s')) \<Longrightarrow> fuzz_inv s \<Longrightarrow> fuzz_inv s'"
  by (auto simp: kstep_op_task_fork_def op_defs split: op_splits dest!: on_m_result intro!: fuzz_inv_set_task dest: fuzz_invD)

lemma fifo_inv: "kstep_op_task_fifo K a b c s = Some (Inr (n, s')) \<Longrightarrow> fuzz_inv s \<Longrightarrow> fuzz_inv s'"
  by (auto simp: kstep_op_task_fifo_def op_defs split: op_splits dest!: on_running_result on_m_result) (erule (1) fuzz_inv_move_to_root)

lemma move_root_inv: "kstep_op_cgroup_move_task_root K a b c s = Some (Inr (n, s')) \<Longrightarrow> fuzz_inv s \<Longrightarrow> fuzz_inv s'"
  by (auto simp: kstep_op_cgroup_move_task_root_def op_defs split: op_splits intro: fuzz_inv_move_to_root)

lemma add_task_inv: "kstep_op_cgroup_add_task K a b c s = Some (Inr (n, s')) \<Longrightarrow> fuzz_inv s \<Longrightarrow> fuzz_inv s'"
  by (auto simp: kstep_op_cgroup_add_task_def op_defs split: op_splits dest!: on_m_result intro!: fuzz_inv_set_task simp: cgroup_of_id_def)

lemma leaf_no_child: "kstep_op_cgroup_is_leaf s a \<Longrightarrow> kstep_op_is_valid_cgroup_id k \<Longrightarrow> cg_exists (fu_cgroups s k) \<Longrightarrow> cg_parent_id (fu_cgroups s k) \<noteq> a"
  by (auto simp: kstep_op_cgroup_is_leaf_def list_all_iff cgroup_ids_set)

lemma create_cgroup_inv:
  assumes r: "kstep_op_cgroup_create K a b c s = Some (Inr (n, s'))" and inv: "fuzz_inv s"
  shows "fuzz_inv s'"
proof (cases "kstep_op_is_valid_cgroup_id b \<and> \<not> cg_exists (fu_cgroups s b) \<and> (a = -1 \<or> cgroup_of_id s a)")
  case True
  let ?s = "set_cgroup b ((fu_cgroups s b)\<lparr>cg_parent_id := a, cg_exists := True\<rparr>) s"
  have "forest (fu_cgroups ?s)" using forest_add[of "fu_cgroups s" b a] True inv by (simp add: set_cgroup_def fuzz_inv_def cgroup_of_id_def)
  then have i: "fuzz_inv ?s" using inv by (auto simp: fuzz_inv_def set_cgroup_def cgroup_of_id_def)
  have tg: "fuzz_inv (set_cgroup b ((fu_cgroups u b)\<lparr>cg_tg := tg\<rparr>) (u\<lparr>fu_m := m\<rparr>))" if "fuzz_inv u" for u tg m
    using that by (auto simp: fuzz_inv_def set_cgroup_def forest_tg cgroup_of_id_def)
  show ?thesis using r True i
    by (auto simp: kstep_op_cgroup_create_def kstep_op_cgroup_move_tasks_to_root_def op_defs Let_def split: op_splits
        dest!: on_m_result intro!: tg intro: fuzz_inv_move_tasks)
next
  case False
  then show ?thesis using r inv by (auto simp: kstep_op_cgroup_create_def op_defs split: op_splits)
qed

lemma destroy_inv:
  assumes r: "kstep_op_cgroup_destroy K a b c s = Some (Inr (n, s'))" and inv: "fuzz_inv s"
  shows "fuzz_inv s'"
proof (cases "s' = s")
  case False
  then have leaf: "kstep_op_cgroup_is_leaf s a" using r by (auto simp: kstep_op_cgroup_destroy_def op_defs split: op_splits)
  let ?g = "\<lparr>cg_exists = False, cg_parent_id = -1, cg_tg = None\<rparr>"
  obtain u m where u: "kstep_op_cgroup_move_tasks_to_root K a s = Some (Inr u)" "s' = set_cgroup a ?g (u\<lparr>fu_m := m\<rparr>)"
    using r False by (auto simp: kstep_op_cgroup_destroy_def op_defs split: op_splits dest!: on_m_result)
  note t = move_tasks_result[OF u(1)[unfolded kstep_op_cgroup_move_tasks_to_root_def]]
  have "fuzz_inv u" using fuzz_inv_move_tasks[OF _ inv] u(1) by (simp add: kstep_op_cgroup_move_tasks_to_root_def)
  moreover have "forest ((fu_cgroups s)(a := ?g))" using forest_remove[of "fu_cgroups s" a ?g] leaf_no_child[OF leaf] inv by (simp add: fuzz_inv_def)
  moreover have "ft_cgroup_id (fu_tasks u i) \<noteq> a" if "kstep_op_is_valid_task_id i" "ft_p (fu_tasks u i) \<noteq> None" "ft_cgroup_id (fu_tasks u i) \<noteq> -1" for i
    using t that task_ids_set by metis
  ultimately show ?thesis using t unfolding u(2) by (auto simp: fuzz_inv_def set_cgroup_def cgroup_of_id_def)
qed (simp add: inv)

lemma fuzz_inv_tables: "fu_tasks s' = fu_tasks s \<Longrightarrow> fu_cgroups s' = fu_cgroups s \<Longrightarrow> fuzz_inv s' = fuzz_inv s"
  by (simp add: fuzz_inv_def cgroup_of_id_def)

lemma handlers_keep_inv:
  assumes "op_handlers R op K a b c s = Some (Inr (n, s'))" "fuzz_inv s" "op \<noteq> OP_TICK_REPEAT"
  shows "fuzz_inv s'"
  using assms kernel_ops_tables[OF _ assms(1)] create_task_inv fork_inv fifo_inv move_root_inv add_task_inv create_cgroup_inv destroy_inv fuzz_inv_tables[of s' s]
  by (cases op) auto

end
