(* ===== verification/Fuzz_Exec.thy ===== *)
theory Fuzz_Exec
  imports Fuzz_Ops Reset
begin

text \<open>
  The executor of the archived in-guest fuzzer (docs/archive/old_fuzzer/kmod: checker.c, handler.c,
  executor.c): the checks around an operation, its dispatch, the state message sent to the host after
  it, and the console the operations are read from.
\<close>

section \<open>What the checks read\<close>

text \<open>
  Of a CPU: how many tasks run on it, the utilisation of its classes and what has been removed from
  it. Of a group's entity: whether it is queued, and late in leaving its queue. \<open>vx_update\<close> is the
  kernel's update of a queue's base vruntime; \<open>vx_trace\<close> the blocks entered between two states, each
  with its CPU and task.
\<close>

record 'm fview =
  vx_version :: nat
  vx_nr_running :: "'m \<Rightarrow> int \<Rightarrow> nat"
  vx_cpus :: "'m \<Rightarrow> tptr \<Rightarrow> nat list"
  vx_util :: "'m \<Rightarrow> int \<Rightarrow> u64"
  vx_removed :: "'m \<Rightarrow> int \<Rightarrow> u64"
  vx_leaf_removed :: "'m \<Rightarrow> int \<Rightarrow> u64 list"
  vx_rt_util :: "'m \<Rightarrow> int \<Rightarrow> u64"
  vx_se_on_rq :: "'m \<Rightarrow> nat \<Rightarrow> bool"
  vx_se_delayed :: "'m \<Rightarrow> nat \<Rightarrow> bool"
  vx_se_cfs_rq :: "'m \<Rightarrow> nat \<Rightarrow> nat option"
  vx_base :: "'m \<Rightarrow> nat \<Rightarrow> u64"
  vx_update :: "nat \<Rightarrow> 'm \<Rightarrow> 'm"
  vx_trace :: "'m \<Rightarrow> 'm \<Rightarrow> (nat \<times> u32 \<times> u64) list"
  vx_possible :: nat

record kstep_check_state =
  ch_cfs_util_avg :: "int \<Rightarrow> u64"
  ch_rt_util_avg :: "int \<Rightarrow> u64"

definition warn :: "fuzz_warning \<Rightarrow> 'm fuzz \<Rightarrow> 'm fuzz" where
  "warn w s = s\<lparr>fu_warnings := fu_warnings s @ [w]\<rparr>"

section \<open>The checks\<close>

text \<open>The comment asks for a warning when the freeze has not frozen the task; the code warns when it has.\<close>

definition kstep_check_task_freeze :: "'m fkern \<Rightarrow> int \<Rightarrow> 'm fuzz \<Rightarrow> 'm fuzz" where
  "kstep_check_task_freeze K task_id s = (case task_of_id s task_id of None \<Rightarrow> s
     | Some p \<Rightarrow> if fk_frozen K (fu_m s) p then warn (Freeze_left task_id (fk_pid K (fu_m s) p) (fk_state K (fu_m s) p)) s else s)"

definition check_weight_cpu :: "'m fkern \<Rightarrow> 'm fview \<Rightarrow> string \<Rightarrow> nat \<Rightarrow> nat \<Rightarrow> 'm fuzz \<Rightarrow> 'm fuzz" where
  "check_weight_cpu K V name tg cpu s = (case fk_tg_se K (fu_m s) tg cpu of None \<Rightarrow> s
     | Some se \<Rightarrow> if \<not> vx_se_on_rq V (fu_m s) se then s
         else if vx_version V \<ge> KERNEL_VERSION 6 12 0 \<and> vx_se_on_rq V (fu_m s) se \<and> vx_se_delayed V (fu_m s) se then s
         else (case vx_se_cfs_rq V (fu_m s) se of None \<Rightarrow> s
           | Some q \<Rightarrow> let old = vx_base V (fu_m s) q; s = s\<lparr>fu_m := vx_update V q (fu_m s)\<rparr>; new = vx_base V (fu_m s) q in
               if new \<noteq> old then warn (Delayed_vruntime name cpu old new) s else s))"

definition kstep_check_cgroup_set_weight :: "'m fkern \<Rightarrow> 'm fview \<Rightarrow> int \<Rightarrow> 'm fuzz \<Rightarrow> 'm fuzz" where
  "kstep_check_cgroup_set_weight K V cgroup_id s =
     (if \<not> cgroup_of_id s cgroup_id then s
      else case kstep_build_cgroup_name (fu_cgroups s) cgroup_id of None \<Rightarrow> s
      | Some name \<Rightarrow> (case cg_tg (fu_cgroups s cgroup_id) of None \<Rightarrow> s
          | Some tg \<Rightarrow> fold (check_weight_cpu K V name tg) [1..<fk_online K] s))"

definition old_check_work_conserve :: "'m fkern \<Rightarrow> 'm fview \<Rightarrow> 'm fuzz \<Rightarrow> 'm fuzz" where
  "old_check_work_conserve K V s = (let m = fu_m s;
     idle_cpus = filter (\<lambda>cpu. vx_nr_running V m (int cpu) = 0) [1..<fk_online K];
     runnable = List.map_filter (\<lambda>i. case ft_p (fu_tasks s i) of None \<Rightarrow> None | Some p \<Rightarrow> if fk_state K m p \<noteq> TASK_RUNNING then None else Some p) task_ids;
     eligible = list_ex (\<lambda>p. list_ex (\<lambda>cpu. cpu \<in> set idle_cpus) (vx_cpus V m p) \<and> vx_nr_running V m (fk_cpu K m p) > 1) runnable in
     if length runnable > fk_online K - 1 \<and> idle_cpus \<noteq> [] \<and> eligible then warn (Not_conserving (length runnable) idle_cpus) s else s)"

definition get_cfs_util_avg :: "'m fview \<Rightarrow> 'm \<Rightarrow> int \<Rightarrow> u64" where
  "get_cfs_util_avg V m cpu = vx_util V m cpu - vx_removed V m cpu - sum_list (vx_leaf_removed V m cpu)"

definition get_rt_util_avg :: "'m fview \<Rightarrow> 'm \<Rightarrow> int \<Rightarrow> u64" where
  "get_rt_util_avg V m cpu = vx_rt_util V m cpu"

definition kstep_check_before_op :: "'m fkern \<Rightarrow> 'm fview \<Rightarrow> 'm \<Rightarrow> kstep_check_state" where
  "kstep_check_before_op K V m = (let on = (\<lambda>cpu. 1 \<le> cpu \<and> cpu < int (fk_online K)) in
     \<lparr>ch_cfs_util_avg = (\<lambda>cpu. if on cpu then get_cfs_util_avg V m cpu else 0), ch_rt_util_avg = (\<lambda>cpu. if on cpu then get_rt_util_avg V m cpu else 0)\<rparr>)"

text \<open>A task that has moved, or changed its policy, takes the baseline of its CPU with it.\<close>

definition forget_moved :: "'m fkern \<Rightarrow> int \<Rightarrow> kstep_check_state \<times> 'm fuzz \<Rightarrow> kstep_check_state \<times> 'm fuzz" where
  "forget_moved K i cs = (let (ch, s) = cs in case ft_p (fu_tasks s i) of None \<Rightarrow> (ch, s)
     | Some p \<Rightarrow> let t = fu_tasks s i;
         (ch, t) = (if ft_cur_cpu t \<noteq> fk_cpu K (fu_m s) p
           then (ch\<lparr>ch_cfs_util_avg := (ch_cfs_util_avg ch)(ft_cur_cpu t := 0)\<rparr>, t\<lparr>ft_cur_cpu := fk_cpu K (fu_m s) p\<rparr>) else (ch, t));
         (ch, t) = (if ft_cur_policy t \<noteq> fk_policy K (fu_m s) p
           then (ch\<lparr>ch_cfs_util_avg := (ch_cfs_util_avg ch)(ft_cur_cpu t := 0)\<rparr>, t\<lparr>ft_cur_policy := fk_policy K (fu_m s) p\<rparr>) else (ch, t)) in
       (ch, set_task i t s))"

definition check_util_cpu :: "'m fview \<Rightarrow> kstep_check_state \<Rightarrow> nat \<Rightarrow> 'm fuzz \<Rightarrow> 'm fuzz" where
  "check_util_cpu V ch cpu s = (let m = fu_m s; cfs = ch_cfs_util_avg ch (int cpu); rt = ch_rt_util_avg ch (int cpu);
     cfs' = get_cfs_util_avg V m (int cpu); rt' = get_rt_util_avg V m (int cpu) in
     if sint (cfs - cfs') > 1010 then warn (Cfs_util_drop cpu) s
     else if sint (rt - rt') > 1010 then warn (Rt_util_drop cpu) s
     else if sint (rt + cfs - cfs' - rt') > 1010 then warn (Total_util_drop cpu) s else s)"

definition kstep_check_after_op :: "'m fkern \<Rightarrow> 'm fview \<Rightarrow> kstep_check_state \<Rightarrow> kstep_op_type \<Rightarrow> int \<Rightarrow> 'm fuzz \<Rightarrow> 'm fuzz" where
  "kstep_check_after_op K V ch type a s = (let (ch, s) = fold (forget_moved K) task_ids (ch, s);
     s = fold (check_util_cpu V ch) [1..<fk_online K] s;
     s = (if type = OP_TASK_FREEZE then kstep_check_task_freeze K a s else s) in
     if type = OP_CGROUP_SET_WEIGHT then kstep_check_cgroup_set_weight K V a s else s)"

section \<open>Dispatch\<close>

definition op_task_state_ready :: "'m fkern \<Rightarrow> kstep_op_type \<Rightarrow> 'm \<Rightarrow> tptr \<Rightarrow> bool" where
  "op_task_state_ready K type m p \<longleftrightarrow> (if type = OP_TASK_WAKEUP \<or> type = OP_TASK_FREEZE then fk_state K m p \<noteq> TASK_RUNNING else kstep_op_task_running K m p)"

definition is_task_signal_op :: "kstep_op_type \<Rightarrow> bool" where
  "is_task_signal_op type \<longleftrightarrow> type \<in> {OP_TASK_FORK, OP_TASK_PIN, OP_TASK_FIFO, OP_TASK_CFS, OP_TASK_PAUSE, OP_TASK_WAKEUP, OP_TASK_SET_PRIO, OP_TASK_FREEZE}"

definition cov_of :: "(fuzz_cov \<Rightarrow> fuzz_cov outcome) \<Rightarrow> 'm fuzz \<Rightarrow> 'm fuzz run" where
  "cov_of f s = bind_run (Some (f (fu_cov s))) (\<lambda>v. Some (Inr (s\<lparr>fu_cov := v\<rparr>)))"

text \<open>The blocks entered while the handler ran are recorded, the hook being set.\<close>

definition execute_one_op :: "'m fkern \<Rightarrow> 'm fview \<Rightarrow> 'm op \<Rightarrow> kstep_op_type \<Rightarrow> int \<Rightarrow> int \<Rightarrow> int \<Rightarrow> 'm fuzz \<Rightarrow> (u8 \<times> 'm fuzz) run" where
  "execute_one_op K V R type a b c s = (let ch = kstep_check_before_op K V (fu_m s); s = s\<lparr>fu_cov := kstep_cov_enable (fu_cov s)\<rparr> in
     bind_run (op_handlers R type K a b c s) (\<lambda>(n, s').
     bind_run (cov_of (fold_outcome (\<lambda>(cpu, pid, ip). kstep_cov_record cpu pid ip) (vx_trace V (fu_m s) (fu_m s'))) s') (\<lambda>s'.
     let s' = s'\<lparr>fu_cov := kstep_cov_disable (fu_cov s')\<rparr> in
     if n = 0 then Some (Inr (0, s'))
     else bind_run (cov_of (kstep_cov_dump (vx_possible V)) s') (\<lambda>s'.
       let s' = s'\<lparr>fu_cov := kstep_cov_cmd_id_inc (fu_cov s')\<rparr> in
       Some (Inr (n, kstep_check_after_op K V ch type a s'))))))"

definition execute_op :: "'m fkern \<Rightarrow> 'm fview \<Rightarrow> 'm op \<Rightarrow> kstep_op_type \<Rightarrow> int \<Rightarrow> int \<Rightarrow> int \<Rightarrow> 'm fuzz \<Rightarrow> (u8 \<times> 'm fuzz) run" where
  "execute_op K V R type a b c s =
     (if type = OP_TICK_REPEAT then op_handlers R type K a b c s
      else if is_task_signal_op type then
        (case task_of_id s a of None \<Rightarrow> Some (Inl ''Task %d not found'')
         | Some p \<Rightarrow> if \<not> op_task_state_ready K type (fu_m s) p then Some (Inr (0, s)) else execute_one_op K V R type a b c s)
      else execute_one_op K V R type a b c s)"

text \<open>
  The repeated tick executes the tick through the dispatcher, which for a tick never comes back to it.
  The steps are counted in a byte; the tick at which the loop stops early is not counted.
\<close>

fun tick_repeat_loop :: "'m fview \<Rightarrow> 'm fkern \<Rightarrow> nat \<Rightarrow> u8 \<Rightarrow> 'm fuzz \<Rightarrow> (u8 \<times> 'm fuzz) run" where
  "tick_repeat_loop V K 0 n s = Some (Inr (n, s))"
| "tick_repeat_loop V K (Suc k) n s = bind_run (execute_op K V (\<lambda>_ _ _ _. op_skip) OP_TICK 0 0 0 s) (\<lambda>(_, s).
     if count_ineligible_cgroup_se K s > fk_online K - 1 then Some (Inr (n, s)) else tick_repeat_loop V K k (n + 1) s)"

definition kstep_op_tick_repeat :: "'m fview \<Rightarrow> 'm op" where
  "kstep_op_tick_repeat V K a b c s = tick_repeat_loop V K (nat a) 0 s"

definition kstep_execute_op :: "'m fkern \<Rightarrow> 'm fview \<Rightarrow> kstep_op_type \<Rightarrow> int \<Rightarrow> int \<Rightarrow> int \<Rightarrow> 'm fuzz \<Rightarrow> (u8 \<times> 'm fuzz) run" where
  "kstep_execute_op K V = execute_op K V (kstep_op_tick_repeat V)"

lemma execute_tick: "execute_op K V R OP_TICK a b c s = kstep_execute_op K V OP_TICK a b c s"
  by (simp add: kstep_execute_op_def execute_op_def is_task_signal_op_def execute_one_op_def)

section \<open>The state message\<close>

definition task_state_byte :: "'m fkern \<Rightarrow> 'm \<Rightarrow> tptr \<Rightarrow> u8" where
  "task_state_byte K m p = (if kstep_op_task_running K m p then 2 else if fk_state K m p = TASK_RUNNING then 1 else 0)"

text \<open>The byte of the first operation that is none (\<open>OP_TYPE_NR\<close>), 17.\<close>

definition state_message :: "u8 \<Rightarrow> (int \<times> u8) list \<Rightarrow> u8 list" where
  "state_message executed_steps tasks = [17, executed_steps + 11] @ concat (map (\<lambda>(i, st). [of_int i + 11, st]) tasks) @ [0, 10]"

definition live_tasks :: "'m fkern \<Rightarrow> 'm fuzz \<Rightarrow> (int \<times> u8) list" where
  "live_tasks K s = List.map_filter (\<lambda>i. map_option (\<lambda>p. (i, task_state_byte K (fu_m s) p)) (ft_p (fu_tasks s i))) task_ids"

definition kstep_write_state :: "'m fkern \<Rightarrow> u8 \<Rightarrow> 'm fuzz \<Rightarrow> 'm fuzz" where
  "kstep_write_state K executed_steps s = s\<lparr>fu_sock := fu_sock s @ state_message executed_steps (live_tasks K s)\<rparr>"

section \<open>The console\<close>

abbreviation MAX_LINE_LENGTH :: nat where "MAX_LINE_LENGTH \<equiv> 1024"

definition op_types :: "kstep_op_type list" where
  "op_types = [OP_TASK_CREATE, OP_TASK_FORK, OP_TASK_PIN, OP_TASK_FIFO, OP_TASK_CFS, OP_TASK_PAUSE, OP_TASK_WAKEUP, OP_TASK_SET_PRIO, OP_TICK, OP_TICK_REPEAT,
     OP_CGROUP_CREATE, OP_CGROUP_SET_CPUSET, OP_CGROUP_SET_WEIGHT, OP_CGROUP_ADD_TASK, OP_CGROUP_DESTROY, OP_CGROUP_MOVE_TASK_ROOT, OP_TASK_FREEZE]"

text \<open>\<open>n\<close> integers separated by commas, and what follows them.\<close>

fun parse_fields :: "klib \<Rightarrow> nat \<Rightarrow> string option \<Rightarrow> (int list \<times> string option) option" where
  "parse_fields L 0 cursor = Some ([], cursor)"
| "parse_fields L (Suc n) None = None"
| "parse_fields L (Suc n) (Some s) = (let (token, cursor) = strsep {CHR '',''} s in
     if token = [] then None
     else case kstrtoint L token of None \<Rightarrow> None
     | Some i \<Rightarrow> map_option (\<lambda>(is, r). (i # is, r)) (parse_fields L n cursor))"

definition parse_console_input :: "klib \<Rightarrow> string \<Rightarrow> (kstep_op_type \<times> int \<times> int \<times> int) option" where
  "parse_console_input L buf = (let buf = strim buf in
     if buf = [] then None
     else case parse_fields L 4 (Some buf) of
       Some ([t, a, b, c], cursor) \<Rightarrow>
         if cursor \<noteq> None \<and> cursor \<noteq> Some [] then None
         else if t < 0 \<or> t \<ge> int (length op_types) then None else Some (op_types ! nat t, a, b, c)
     | _ \<Rightarrow> None)"

definition console_line :: "klib \<Rightarrow> 'm fkern \<Rightarrow> 'm fview \<Rightarrow> string \<Rightarrow> 'm fuzz \<Rightarrow> 'm fuzz run" where
  "console_line L K V line s = (case parse_console_input L line of None \<Rightarrow> Some (Inr s)
     | Some (t, a, b, c) \<Rightarrow> bind_run (kstep_execute_op K V t a b c s) (\<lambda>(n, s). Some (Inr (kstep_write_state K n s))))"

definition isdigit :: "char \<Rightarrow> bool" where
  "isdigit c \<longleftrightarrow> of_char c \<in> {48..57 :: nat}"

text \<open>The kernel's table has the letters of Latin-1 too.\<close>

definition isalpha :: "char \<Rightarrow> bool" where
  "isalpha c \<longleftrightarrow> (let n = of_char c :: nat in n \<in> {65..90} \<or> n \<in> {97..122} \<or> n \<ge> 192 \<and> n \<noteq> 215 \<and> n \<noteq> 247)"

text \<open>The bytes of a chunk: whether the line \<open>EXIT\<close> was among them, the line begun, the state.\<close>

fun process_console_chunk :: "klib \<Rightarrow> 'm fkern \<Rightarrow> 'm fview \<Rightarrow> string \<Rightarrow> string \<times> 'm fuzz \<Rightarrow> (bool \<times> string \<times> 'm fuzz) run" where
  "process_console_chunk L K V [] (line, s) = Some (Inr (False, line, s))"
| "process_console_chunk L K V (ch # buf) (line, s) =
     (if ch = newline then
        if length line + 1 < MAX_LINE_LENGTH then
          if line = ''EXIT'' then Some (Inr (True, line, s))
          else bind_run (console_line L K V line s) (\<lambda>s. process_console_chunk L K V buf ([], s))
        else process_console_chunk L K V buf ([], s)
      else if length line + 1 < MAX_LINE_LENGTH \<and> (isdigit ch \<or> isalpha ch \<or> ch = CHR '','' \<or> ch = CHR ''-'')
      then process_console_chunk L K V buf (line @ [ch], s)
      else process_console_chunk L K V buf (line, s))"

fun ticks :: "'m fkern \<Rightarrow> nat \<Rightarrow> 'm fuzz \<Rightarrow> 'm fuzz run" where
  "ticks K 0 s = Some (Inr s)"
| "ticks K (Suc n) s = bind_run (on_m (fk_tick K) s) (ticks K n)"

text \<open>
  The loop over what is read, here the chunks in order (a read of nothing is no chunk): on \<open>EXIT\<close> the
  rest of the chunk is dropped, a hundred ticks are run and work conservation is checked.
\<close>

fun run_chunks :: "klib \<Rightarrow> 'm fkern \<Rightarrow> 'm fview \<Rightarrow> string list \<Rightarrow> string \<times> 'm fuzz \<Rightarrow> (bool \<times> string \<times> 'm fuzz) run" where
  "run_chunks L K V [] (line, s) = Some (Inr (False, line, s))"
| "run_chunks L K V (c # cs) (line, s) = bind_run (process_console_chunk L K V c (line, s)) (\<lambda>(ex, line, s).
     if ex then bind_run (ticks K 100 s) (\<lambda>s. Some (Inr (True, line, old_check_work_conserve K V s)))
     else run_chunks L K V cs (line, s))"

definition executor_run :: "klib \<Rightarrow> 'm fkern \<Rightarrow> 'm fview \<Rightarrow> bool \<Rightarrow> string list \<Rightarrow> 'm fuzz \<Rightarrow> (bool \<times> string \<times> 'm fuzz) run" where
  "executor_run L K V opened chunks s =
     (if \<not> opened then Some (Inl ''Failed to open /dev/hvc2'')
      else run_chunks L K V chunks ([], kstep_write_state K 1 s))"

section \<open>Operations keep the tables in order\<close>

text \<open>The tables are the same but for what the checks remember of a task.\<close>

definition same_tables :: "'m fuzz \<Rightarrow> 'm fuzz \<Rightarrow> bool" where
  "same_tables s s' \<longleftrightarrow> fu_cgroups s' = fu_cgroups s \<and> (\<forall>i. ft_p (fu_tasks s' i) = ft_p (fu_tasks s i) \<and> ft_cgroup_id (fu_tasks s' i) = ft_cgroup_id (fu_tasks s i))"

lemma same_tables_refl [simp]: "same_tables s s" "same_tables s (s\<lparr>fu_cov := v\<rparr>)" "same_tables s (s\<lparr>fu_m := m\<rparr>)" "same_tables s (warn w s)"
  by (simp_all add: same_tables_def warn_def)

lemma same_tables_trans: "same_tables s u \<Longrightarrow> same_tables u t \<Longrightarrow> same_tables s t"
  by (simp add: same_tables_def)

lemma same_tables_inv: "same_tables s s' \<Longrightarrow> fuzz_inv s' = fuzz_inv s"
  by (simp add: same_tables_def fuzz_inv_def cgroup_of_id_def)

lemma same_tables_fold: "(\<And>x s. same_tables s (f x s)) \<Longrightarrow> same_tables s (fold f xs s)"
  by (induction xs arbitrary: s) (auto intro: same_tables_trans)

lemma check_weight_same: "same_tables s (check_weight_cpu K V name tg cpu s)"
  by (auto simp: check_weight_cpu_def Let_def same_tables_def warn_def split: option.splits)

lemma forget_moved_same: "same_tables s (snd (forget_moved K i (ch, s)))"
  by (auto simp: forget_moved_def Let_def same_tables_def set_task_def split: option.splits)

lemma forget_moved_fold_same: "same_tables s (snd (fold (forget_moved K) is (ch, s)))"
proof (induction "is" arbitrary: ch s)
  case (Cons i "is")
  obtain ch' s' where "forget_moved K i (ch, s) = (ch', s')" by fastforce
  then show ?case using Cons[of s' ch'] forget_moved_same[of s K i ch] by (auto intro: same_tables_trans)
qed simp

lemma check_after_same: "same_tables s (kstep_check_after_op K V ch type a s)"
proof -
  obtain ch' s' where f: "fold (forget_moved K) task_ids (ch, s) = (ch', s')" by fastforce
  have "same_tables u (check_util_cpu V ch' cpu u)" for cpu u by (simp add: check_util_cpu_def Let_def)
  then have "same_tables s (fold (check_util_cpu V ch') [1..<fk_online K] s')"
    using forget_moved_fold_same[of s K task_ids ch] same_tables_fold same_tables_trans unfolding f by fastforce
  moreover have "same_tables u (kstep_check_task_freeze K a u)" "same_tables u (kstep_check_cgroup_set_weight K V a u)" for u
    by (auto simp: kstep_check_task_freeze_def kstep_check_cgroup_set_weight_def split: option.splits intro: same_tables_fold check_weight_same)
  ultimately show ?thesis unfolding kstep_check_after_op_def f Let_def by (auto intro: same_tables_trans)
qed

lemma cov_of_same: "cov_of f s = Some (Inr s') \<Longrightarrow> same_tables s s'"
  by (auto simp: cov_of_def bind_run_returns same_tables_def)

lemma fuzz_inv_cov [simp]: "fuzz_inv (s\<lparr>fu_cov := v\<rparr>) = fuzz_inv s"
  by (rule same_tables_inv) simp

lemma fuzz_inv_check [simp]: "fuzz_inv (kstep_check_after_op K V ch type a s) = fuzz_inv s"
  by (rule same_tables_inv[OF check_after_same])

lemma cov_of_inv: "cov_of f s = Some (Inr s') \<Longrightarrow> fuzz_inv s' = fuzz_inv s"
  by (rule same_tables_inv[OF cov_of_same])

lemma execute_one_op_inv:
  assumes "execute_one_op K V R type a b c s = Some (Inr (n, s'))" "fuzz_inv s" "type \<noteq> OP_TICK_REPEAT"
  shows "fuzz_inv s'"
proof -
  let ?s = "s\<lparr>fu_cov := kstep_cov_enable (fu_cov s)\<rparr>"
  obtain k u where u: "op_handlers R type K a b c ?s = Some (Inr (k, u))"
    using assms(1) by (auto simp: execute_one_op_def Let_def bind_run_returns)
  have "fuzz_inv u" using handlers_keep_inv[OF u] assms(2,3) by simp
  then show ?thesis
    using assms(1) u by (cases "k = 0") (auto simp: execute_one_op_def Let_def bind_run_returns dest!: cov_of_inv)
qed

lemma execute_op_inv: "execute_op K V R type a b c s = Some (Inr (n, s')) \<Longrightarrow> type \<noteq> OP_TICK_REPEAT \<Longrightarrow> fuzz_inv s \<Longrightarrow> fuzz_inv s'"
  by (auto simp: execute_op_def split: if_splits option.splits dest: execute_one_op_inv)

lemma tick_repeat_inv: "tick_repeat_loop V K k n s = Some (Inr (n', s')) \<Longrightarrow> fuzz_inv s \<Longrightarrow> fuzz_inv s'"
proof (induction k arbitrary: n s)
  case (Suc k)
  then obtain j u where u: "execute_op K V (\<lambda>_ _ _ _. op_skip) OP_TICK 0 0 0 s = Some (Inr (j, u))"
    "u = s' \<or> tick_repeat_loop V K k (n + 1) u = Some (Inr (n', s'))" by (auto simp: bind_run_returns split: if_splits)
  have "fuzz_inv u" using execute_op_inv[OF u(1)] Suc.prems by simp
  then show ?case using u(2) Suc.IH by blast
qed simp

lemma kstep_execute_op_inv:
  assumes "kstep_execute_op K V type a b c s = Some (Inr (n, s'))" "fuzz_inv s"
  shows "fuzz_inv s'"
proof (cases "type = OP_TICK_REPEAT")
  case True
  then show ?thesis using assms tick_repeat_inv[of V K "nat a" 0 s n s'] by (simp add: kstep_execute_op_def execute_op_def kstep_op_tick_repeat_def)
next
  case False
  then show ?thesis using assms execute_op_inv[of K V "kstep_op_tick_repeat V"] by (simp add: kstep_execute_op_def)
qed

text \<open>A run of operations, and the state the module starts from.\<close>

fun exec_ops :: "'m fkern \<Rightarrow> 'm fview \<Rightarrow> (kstep_op_type \<times> int \<times> int \<times> int) list \<Rightarrow> 'm fuzz \<Rightarrow> 'm fuzz run" where
  "exec_ops K V [] s = Some (Inr s)"
| "exec_ops K V ((t, a, b, c) # ops) s = bind_run (kstep_execute_op K V t a b c s) (\<lambda>(_, s). exec_ops K V ops s)"

definition fuzz_zero :: "'m \<Rightarrow> fuzz_cov \<Rightarrow> 'm fuzz" where
  "fuzz_zero m v = \<lparr>fu_tasks = (\<lambda>_. \<lparr>ft_p = None, ft_cgroup_id = 0, ft_cur_cpu = 0, ft_cur_policy = 0\<rparr>),
     fu_cgroups = (\<lambda>_. \<lparr>cg_exists = False, cg_parent_id = 0, cg_tg = None\<rparr>), fu_m = m, fu_cov = v, fu_warnings = [], fu_sock = []\<rparr>"

lemma fuzz_zero_inv: "fuzz_inv (fuzz_zero m v)"
  by (simp add: fuzz_zero_def fuzz_inv_def forest_def)

lemma exec_ops_inv: "exec_ops K V ops s = Some (Inr s') \<Longrightarrow> fuzz_inv s \<Longrightarrow> fuzz_inv s'"
proof (induction ops arbitrary: s)
  case (Cons x ops)
  obtain t a b c where x: "x = (t, a, b, c)" by (cases x)
  obtain n u where u: "kstep_execute_op K V t a b c s = Some (Inr (n, u))" "exec_ops K V ops u = Some (Inr s')"
    using Cons.prems(1) by (auto simp: x bind_run_returns)
  show ?case using Cons.IH[OF u(2)] kstep_execute_op_inv[OF u(1)] Cons.prems(2) by simp
qed simp

text \<open>The last part of a name is the cgroup's own.\<close>

lemma dec_digits: "c \<in> set (dec n) \<Longrightarrow> of_char c \<in> {48..57 :: nat}"
  using set_dec[of n] of_char_digit by fastforce

lemma sdec_no_slash: "CHR ''/'' \<notin> set (sdec i)"
  using dec_digits[of "CHR ''/''"] by (auto simp: sdec_def)

lemma sdec_inject: "sdec i = sdec j \<longleftrightarrow> i = j"
proof -
  have "CHR ''-'' \<notin> set (dec b)" for b using dec_digits[of "CHR ''-''" b] by auto
  then have "CHR ''-'' # dec a \<noteq> dec b" for a b by (metis list.set_intros(1))
  moreover from this have "dec b \<noteq> CHR ''-'' # dec a" for a b by metis
  ultimately show ?thesis by (simp add: sdec_def) linarith
qed

lemma path_own_part: "takeWhile (\<lambda>c. c \<noteq> CHR ''/'') (rev (cgroup_path (xs @ [i]))) = rev (''cg'' @ sdec i)"
proof -
  let ?P = "\<lambda>c. c \<noteq> CHR ''/''"
  have own: "\<forall>c \<in> set (rev (''cg'' @ sdec i)). ?P c" using sdec_no_slash by auto
  show ?thesis
  proof (cases xs rule: rev_cases)
    case Nil
    then show ?thesis using takeWhile_eq_all_conv[of ?P "rev (''cg'' @ sdec i)"] own by (simp add: cgroup_path_def)
  next
    case (snoc ys y)
    then have "rev (cgroup_path (xs @ [i])) = rev (''cg'' @ sdec i) @ CHR ''/'' # rev (concat (map (\<lambda>i. ''cg'' @ sdec i @ ''/'') ys) @ ''cg'' @ sdec y)"
      by (simp add: cgroup_path_def butlast_append)
    then show ?thesis using own by (simp only: takeWhile_append2[OF own[rule_format]]) simp
  qed
qed

lemma names_differ:
  assumes "rooted cgs i l" "rooted cgs j k" "i \<noteq> -1" "j \<noteq> -1" "cgroup_path (rev l) = cgroup_path (rev k)"
  shows "i = j"
proof -
  have c: "\<exists>l'. l = i # l'" if "rooted cgs i l" "i \<noteq> -1" for i l using that by (cases rule: rooted.cases) auto
  obtain l' k' where "l = i # l'" "k = j # k'" using c assms(1-4) by blast
  then show ?thesis using path_own_part[of "rev l'" i] path_own_part[of "rev k'" j] assms(5) by (simp add: sdec_inject)
qed

text \<open>
  C27. Over any operations from the start, whatever the kernel does, the cgroups are a forest: each that
  exists has parents up to the root, all existing, and the name the operations use of it is the path
  of their numbers, cut to 255 bytes. Two cgroups whose paths fit have different names, and a task's
  cgroup exists.
\<close>
theorem fuzz_cgroups_forest:
  assumes "exec_ops K V ops (fuzz_zero m v) = Some (Inr s)"
  shows "\<exists>path. (\<forall>i. cgroup_of_id s i \<longrightarrow> rooted (fu_cgroups s) i (path i) \<and> kstep_build_cgroup_name (fu_cgroups s) i = Some (take 255 (cgroup_path (rev (path i)))))
    \<and> (\<forall>i j. cgroup_of_id s i \<and> cgroup_of_id s j \<and> length (cgroup_path (rev (path i))) \<le> 255 \<and> length (cgroup_path (rev (path j))) \<le> 255
         \<and> kstep_build_cgroup_name (fu_cgroups s) i = kstep_build_cgroup_name (fu_cgroups s) j \<longrightarrow> i = j)
    \<and> (\<forall>t. task_of_id s t \<noteq> None \<longrightarrow> ft_cgroup_id (fu_tasks s t) = -1 \<or> cgroup_of_id s (ft_cgroup_id (fu_tasks s t)))"
proof -
  have inv: "fuzz_inv s" using exec_ops_inv[OF assms fuzz_zero_inv] .
  then obtain path where path: "\<forall>i. cgroup_of_id s i \<longrightarrow> rooted (fu_cgroups s) i (path i)" unfolding fuzz_inv_def forest_def cgroup_of_id_def by metis
  have "i = j" if "cgroup_of_id s i" "cgroup_of_id s j" "length (cgroup_path (rev (path i))) \<le> 255" "length (cgroup_path (rev (path j))) \<le> 255"
    "kstep_build_cgroup_name (fu_cgroups s) i = kstep_build_cgroup_name (fu_cgroups s) j" for i j
  proof (rule names_differ)
    show "rooted (fu_cgroups s) i (path i)" "rooted (fu_cgroups s) j (path j)" using path that by auto
    show "i \<noteq> -1" "j \<noteq> -1" using that by (auto simp: cgroup_of_id_def kstep_op_is_valid_cgroup_id_def)
    show "cgroup_path (rev (path i)) = cgroup_path (rev (path j))"
      using that build_name_rooted[of "fu_cgroups s" i "path i"] build_name_rooted[of "fu_cgroups s" j "path j"] path by simp
  qed
  moreover have "ft_cgroup_id (fu_tasks s t) = -1 \<or> cgroup_of_id s (ft_cgroup_id (fu_tasks s t))" if "task_of_id s t \<noteq> None" for t
    using inv that unfolding fuzz_inv_def task_of_id_def by (metis (full_types))
  ultimately show ?thesis using path build_name_rooted by (intro exI[of _ path]) blast
qed

text \<open>A kernel that does nothing and finds a group for every cgroup.\<close>

definition demo_fkern :: "unit fkern" where
  "demo_fkern = \<lparr>fk_create = (\<lambda>m. Some (Inr (100, m))), fk_fork = (\<lambda>_ m. Some (Inr m)), fk_pin = (\<lambda>_ _ _ m. Some (Inr m)), fk_set_policy = (\<lambda>_ _ m. Some (Inr m)),
     fk_set_nice = (\<lambda>_ _ m. Some (Inr m)), fk_pause = (\<lambda>_ m. Some (Inr m)), fk_wakeup = (\<lambda>_ m. Some (Inr m)), fk_freeze = (\<lambda>_ m. Some (Inr m)),
     fk_thaw = (\<lambda>_ m. Some (Inr m)), fk_tick = (\<lambda>m. Some (Inr m)), fk_cgroup_create = (\<lambda>_ m. Some (Inr m)), fk_cgroup_set_cpuset = (\<lambda>_ _ m. Some (Inr m)),
     fk_cgroup_set_weight = (\<lambda>_ _ m. Some (Inr m)), fk_cgroup_move_task = (\<lambda>_ _ m. Some (Inr m)), fk_cgroup_destroy = (\<lambda>_ m. Some (Inr m)), fk_online = 3,
     fk_on_cpu = (\<lambda>_ _. True), fk_need_resched = (\<lambda>_ _. False), fk_need_resched_lazy = (\<lambda>_ _. False), fk_state = (\<lambda>_ _. 0), fk_frozen = (\<lambda>_ _. False),
     fk_policy = (\<lambda>_ _. 0), fk_pid = (\<lambda>_ p. int p), fk_cpu = (\<lambda>_ _. 1), fk_processes = (\<lambda>_. []), fk_cgroup_css = (\<lambda>_ _. Some (Some 0)),
     fk_tg_se = (\<lambda>_ _ _. None), fk_eligible = (\<lambda>_ _. True)\<rparr>"

definition demo_fview :: "unit fview" where
  "demo_fview = \<lparr>vx_version = 0, vx_nr_running = (\<lambda>_ _. 1), vx_cpus = (\<lambda>_ _. [1, 2]), vx_util = (\<lambda>_ _. 0), vx_removed = (\<lambda>_ _. 0), vx_leaf_removed = (\<lambda>_ _. []),
     vx_rt_util = (\<lambda>_ _. 0), vx_se_on_rq = (\<lambda>_ _. False), vx_se_delayed = (\<lambda>_ _. False), vx_se_cfs_rq = (\<lambda>_ _. None), vx_base = (\<lambda>_ _. 0), vx_update = (\<lambda>_ m. m),
     vx_trace = (\<lambda>_ _. []), vx_possible = 3\<rparr>"

definition demo_fcov :: fuzz_cov where
  "demo_fcov = \<lparr>fv_mode = COV_DISABLED, fv_hook = False, fv_buffer = (\<lambda>_. []), fv_cmd_id = 0, fv_slots = (\<lambda>_. no_slot), fv_file = False, fv_out = []\<rparr>"

text \<open>Without tasks the loops over the tasks do nothing.\<close>

lemma move_tasks_none: "(\<And>i. ft_p (fu_tasks s i) = None) \<Longrightarrow> move_tasks_loop K a is s = Some (Inr s)"
  by (induction "is") simp_all

lemma forget_moved_none: "(\<And>i. ft_p (fu_tasks s i) = None) \<Longrightarrow> fold (forget_moved K) is (ch, s) = (ch, s)"
  by (induction "is") (simp_all add: forget_moved_def)

definition demo_cg :: "int \<Rightarrow> kstep_cgroup_state" where
  "demo_cg parent_id = \<lparr>cg_exists = True, cg_parent_id = parent_id, cg_tg = Some 0\<rparr>"

lemma demo_create:
  assumes "\<And>i. ft_p (fu_tasks s i) = None" "kstep_op_is_valid_cgroup_id b" "\<not> cg_exists (fu_cgroups s b)" "a = -1 \<or> cgroup_of_id s a"
    "kstep_build_cgroup_name ((fu_cgroups s)(b := (fu_cgroups s b)\<lparr>cg_parent_id := a, cg_exists := True\<rparr>)) b = Some name" "\<not> fv_file (fu_cov s)"
  shows "\<exists>s'. kstep_execute_op demo_fkern demo_fview OP_CGROUP_CREATE a b c s = Some (Inr (1, s')) \<and> fu_tasks s' = fu_tasks s \<and> \<not> fv_file (fu_cov s')
    \<and> fu_cgroups s' = (fu_cgroups s)(b := demo_cg a)"
  using assms
  by (auto simp: kstep_execute_op_def execute_op_def is_task_signal_op_def execute_one_op_def kstep_op_cgroup_create_def op_done_def op_skip_def on_m_def set_cgroup_def
      cgroup_of_id_def kstep_op_cgroup_move_tasks_to_root_def move_tasks_none cov_of_def kstep_cov_enable_def kstep_cov_disable_def kstep_cov_dump_def kstep_cov_cmd_id_inc_def
      kstep_op_lookup_cgroup_task_group_def kstep_check_after_op_def forget_moved_none check_util_cpu_def kstep_check_before_op_def get_cfs_util_avg_def get_rt_util_avg_def
      Let_def demo_fkern_def demo_fview_def upt_rec demo_cg_def)

theorem fuzz_cgroups_forest_witness:
  "\<exists>s. exec_ops demo_fkern demo_fview [(OP_CGROUP_CREATE, -1, 3, 0), (OP_CGROUP_CREATE, 3, 5, 0)] (fuzz_zero () demo_fcov) = Some (Inr s)
    \<and> cgroup_of_id s 5 \<and> kstep_build_cgroup_name (fu_cgroups s) 5 = Some ''cg3/cg5''"
proof -
  let ?z = "fuzz_zero () demo_fcov"
  have dec: "sdec 3 = ''3''" "sdec 5 = ''5''" by code_simp+
  note name = kstep_build_cgroup_name_def cgroup_lineage.simps kstep_op_is_valid_cgroup_id_def scnprintf_def Let_def
  obtain u where u: "kstep_execute_op demo_fkern demo_fview OP_CGROUP_CREATE (-1) 3 0 ?z = Some (Inr (1, u))"
    "fu_tasks u = fu_tasks ?z" "\<not> fv_file (fu_cov u)" "fu_cgroups u = (fu_cgroups ?z)(3 := demo_cg (-1))"
    using demo_create[of ?z 3 "-1" "''cg3''" 0] by (auto simp: fuzz_zero_def demo_fcov_def name dec)
  obtain s where s: "kstep_execute_op demo_fkern demo_fview OP_CGROUP_CREATE 3 5 0 u = Some (Inr (1, s))" "fu_cgroups s = (fu_cgroups u)(5 := demo_cg 3)"
    using demo_create[of u 5 3 "''cg3/cg5''" 0] u(2-4) by (auto simp: fuzz_zero_def cgroup_of_id_def name dec demo_cg_def)
  have run: "exec_ops demo_fkern demo_fview [(OP_CGROUP_CREATE, -1, 3, 0), (OP_CGROUP_CREATE, 3, 5, 0)] ?z = Some (Inr s)" using u(1) s(1) by simp
  have c: "cgroup_of_id s 5" using s(2) by (simp add: cgroup_of_id_def kstep_op_is_valid_cgroup_id_def demo_cg_def)
  obtain path :: "int \<Rightarrow> int list" where p: "rooted (fu_cgroups s) 5 (path 5)" "kstep_build_cgroup_name (fu_cgroups s) 5 = Some (take 255 (cgroup_path (rev (path 5))))"
    using fuzz_cgroups_forest[OF run] c by blast
  have "rooted (fu_cgroups s) 5 [5, 3]" using s(2) u(4) by (auto intro!: rooted.intros simp: kstep_op_is_valid_cgroup_id_def demo_cg_def)
  then have "path 5 = [5, 3]" using p(1) rooted_unique by metis
  then show ?thesis using run c p(2) by (simp add: cgroup_path_def dec)
qed

section \<open>The console does not see how its bytes are read\<close>

lemma process_append:
  "process_console_chunk L K V (xs @ ys) (line, s) = bind_run (process_console_chunk L K V xs (line, s))
     (\<lambda>(ex, st). if ex then Some (Inr (True, st)) else process_console_chunk L K V ys st)"
proof (induction L K V xs "(line, s)" arbitrary: line s rule: process_console_chunk.induct)
  case (2 L K V ch buf line s)
  show ?case
  proof (cases "ch = newline \<and> length line + 1 < MAX_LINE_LENGTH \<and> line \<noteq> ''EXIT''")
    case True
    then show ?thesis using 2(1) by (cases "console_line L K V line s") (auto simp: bind_run_def split: sum.splits)
  next
    case False
    then show ?thesis using 2(2-) by auto
  qed
qed simp

text \<open>
  However the console's bytes are cut into reads, the executor does the same: the same operations, in
  the same order, with the same state at the end, up to the \<open>EXIT\<close> line and the check behind it.
\<close>
theorem console_reads_do_not_matter:
  "run_chunks L K V chunks (line, s) = run_chunks L K V [concat chunks] (line, s)"
proof (induction chunks arbitrary: line s)
  case (Cons c cs)
  have "run_chunks L K V (c # cs) (line, s) = bind_run (process_console_chunk L K V c (line, s)) (\<lambda>(ex, line, s).
     if ex then bind_run (ticks K 100 s) (\<lambda>s. Some (Inr (True, line, old_check_work_conserve K V s))) else run_chunks L K V [concat cs] (line, s))"
    using Cons by (simp cong: if_cong)
  then show ?case by (cases "process_console_chunk L K V c (line, s)") (auto simp: process_append bind_run_def split: sum.splits option.splits)
qed simp

section \<open>The state message can be read back\<close>

text \<open>A reader of the format: the type, the steps, then pairs up to the zero.\<close>

fun decode_tasks :: "u8 list \<Rightarrow> (int \<times> u8) list" where
  "decode_tasks (b # st # bs) = (if b = 0 then [] else (uint (b - 11), st) # decode_tasks bs)"
| "decode_tasks bs = []"

definition decode_state :: "u8 list \<Rightarrow> u8 \<times> (int \<times> u8) list" where
  "decode_state bs = (bs ! 1 - 11, decode_tasks (drop 2 bs))"

lemma id_byte:
  assumes "0 \<le> i" "i < 245"
  shows "(of_int i + 11 :: u8) \<noteq> 0" "(of_int i + 11 :: u8) \<noteq> 10" "uint (of_int i :: u8) = i"
proof -
  have u: "uint (of_int i + 11 :: u8) = i + 11" using assms by (simp add: uint_word_ariths uint_word_of_int)
  have "uint (of_int i + 11 :: u8) \<noteq> uint (0 :: u8)" "uint (of_int i + 11 :: u8) \<noteq> uint (10 :: u8)" unfolding u using assms by simp_all
  then show "(of_int i + 11 :: u8) \<noteq> 0" "(of_int i + 11 :: u8) \<noteq> 10" by metis+
  show "uint (of_int i :: u8) = i" using assms by (simp add: uint_word_of_int)
qed

lemma decode_encoded:
  assumes "list_all (\<lambda>(i, st). 0 \<le> i \<and> i < 245 \<and> st \<noteq> 10) ts"
  shows "10 \<notin> set (concat (map (\<lambda>(i, st). [of_int i + 11, st :: u8]) ts)) \<and> decode_tasks (concat (map (\<lambda>(i, st). [of_int i + 11, st]) ts) @ [0, 10]) = ts"
  using assms id_byte by (induction ts) auto



text \<open>Beyond that it cannot: the number of task 255 is a line break.\<close>

lemma state_message_breaks: "10 \<in> set (butlast (state_message n [(255, st)]))"
  by (simp add: state_message_def)

end
