(* ===== verification/Old_Kcov.thy ===== *)
theory Old_Kcov
  imports Json Cstr
begin

text \<open>
  The archived coverage of single tasks (docs/archive/kcov_helpers.c, kcov.c): a task records the
  addresses its system calls run through, sorts them, removes duplicates in place and writes them to a
  file; the module waits for the file's last line and adds its lines to a set of texts it sends to the
  host. The kernel's recording, the file system and memory allocation are arguments.
\<close>

section \<open>The task\<close>

text \<open>Word 0 of the mapped area counts the addresses recorded behind it.\<close>

record kcov =
  kc_fd :: int
  kc_area :: "u64 list"
  kc_words :: nat

abbreviation KCOV_ENTRIES :: nat where "KCOV_ENTRIES \<equiv> 131072"

definition kcov_init_task :: "int \<Rightarrow> int \<Rightarrow> u64 list option \<Rightarrow> kcov \<Rightarrow> kcov outcome" where
  "kcov_init_task fd ret area s = (if fd < 0 then Inl ''Failed to open %s''
     else if ret \<noteq> 0 then Inl ''KCOV_INIT_TRACE failed''
     else (case area of None \<Rightarrow> Inl ''mmap(kcov) failed'' | Some a \<Rightarrow> Inr (s\<lparr>kc_fd := fd, kc_words := KCOV_ENTRIES, kc_area := a\<rparr>)))"

definition kcov_start :: "int \<Rightarrow> kcov \<Rightarrow> kcov outcome" where
  "kcov_start ret s = (let s = s\<lparr>kc_area := (kc_area s)[0 := 0]\<rparr> in if ret \<noteq> 0 then Inl ''KCOV_ENABLE failed'' else Inr s)"

definition kcov_stop :: "int \<Rightarrow> kcov \<Rightarrow> kcov outcome" where
  "kcov_stop ret s = (if ret \<noteq> 0 then Inl ''KCOV_DISABLE failed'' else Inr s)"

definition cmp_ulong :: "u64 \<Rightarrow> u64 \<Rightarrow> int" where
  "cmp_ulong av bv = (if av < bv then -1 else if av > bv then 1 else 0)"

text \<open>\<open>qsort\<close> of \<open>n\<close> words from index 1; the order of \<open>cmp_ulong\<close> is that of the words.\<close>

definition sort_area :: "nat \<Rightarrow> u64 list \<Rightarrow> u64 list" where
  "sort_area n a = (if n > 1 then take 1 a @ sort (take n (drop 1 a)) @ drop (n + 1) a else a)"

text \<open>Duplicates removed in the array that is read: \<open>unique\<close> addresses kept so far.\<close>

definition kcov_unique_step :: "nat \<Rightarrow> nat \<times> u64 list \<Rightarrow> nat \<times> u64 list" where
  "kcov_unique_step i st = (case st of (unique, a) \<Rightarrow>
     if i = 0 \<or> a ! (i + 1) \<noteq> a ! i then (unique + 1, a[1 + unique := a ! (i + 1)]) else (unique, a))"

definition kcov_count :: "kcov \<Rightarrow> nat" where
  "kcov_count s = (if kc_words s \<le> 1 then 0 else min (unat (kc_area s ! 0)) (kc_words s - 1))"

definition kcov_line :: "u64 \<Rightarrow> string" where
  "kcov_line pc = hex_digits (unat pc) @ [newline]"

text \<open>The path, the text of the file and the area left behind; \<open>out\<close> is what opening the file returned.\<close>

definition kcov_dump :: "int \<Rightarrow> int \<Rightarrow> kcov \<Rightarrow> (string \<times> string \<times> kcov) outcome" where
  "kcov_dump pid out s = (let n = kcov_count s; a = sort_area n (kc_area s);
     (unique, a) = fold kcov_unique_step [0..<n] (0, a);
     path = take 63 (''/kstep_kcov_'' @ sdec pid @ ''.txt'') in
     if out < 0 then Inl ''Failed to open %s''
     else Inr (path, concat (map (\<lambda>i. kcov_line (a ! (i + 1))) [0..<unique]) @ ''END'' @ [newline], s\<lparr>kc_area := a\<rparr>))"

section \<open>The module\<close>

record kcov_unique_pcs =
  up_pcs :: "string list"
  up_cap :: nat

definition unique_zero :: kcov_unique_pcs where
  "unique_zero = \<lparr>up_pcs = [], up_cap = 0\<rparr>"

text \<open>\<open>alloc\<close> says whether memory of a size is there; entries are compared as the C strings they are kept as.\<close>

definition kcov_unique_pcs_add :: "(nat \<Rightarrow> bool) \<Rightarrow> string \<Rightarrow> kcov_unique_pcs \<Rightarrow> kcov_unique_pcs outcome" where
  "kcov_unique_pcs_add alloc pc us = (
     if pc = [] \<or> pc = ''END'' then Inr us
     else if list_ex (\<lambda>e. length (cstr e) = length pc \<and> take (length pc) e = pc) (up_pcs us) then Inr us
     else let full = (length (up_pcs us) = up_cap us); new_cap = (if up_cap us = 0 then 64 else up_cap us * 2) in
       if full \<and> \<not> alloc (new_cap * 8) then Inl ''Failed to allocate unique KCOV set''
       else let us = (if full then us\<lparr>up_cap := new_cap\<rparr> else us) in
         if \<not> alloc (length pc + 1) then Inl ''Failed to allocate unique KCOV entry''
         else Inr (us\<lparr>up_pcs := up_pcs us @ [pc]\<rparr>))"

text \<open>A file as it is read, \<open>n\<close> bytes at a time.\<close>

fun pieces :: "nat \<Rightarrow> 'a list \<Rightarrow> 'a list list" where
  "pieces n xs = (if n = 0 \<or> xs = [] then [] else take n xs # pieces n (drop n xs))"

declare pieces.simps [simp del]

definition kcov_char :: "(nat \<Rightarrow> bool) \<Rightarrow> char \<Rightarrow> string \<times> kcov_unique_pcs \<Rightarrow> (string \<times> kcov_unique_pcs) outcome" where
  "kcov_char alloc c st = (case st of (line, us) \<Rightarrow>
     if c = newline then bind_outcome (kcov_unique_pcs_add alloc line us) (\<lambda>us. Inr ([], us))
     else Inr (if length line + 1 < 256 then line @ [c] else line, us))"

definition kcov_collect_pcs_file :: "(nat \<Rightarrow> bool) \<Rightarrow> string option \<Rightarrow> kcov_unique_pcs \<Rightarrow> kcov_unique_pcs outcome" where
  "kcov_collect_pcs_file alloc file us = (case file of None \<Rightarrow> Inl ''Failed to open %s''
   | Some text \<Rightarrow> if \<not> alloc 512 \<or> \<not> alloc 256 then Inl ''Failed to allocate buffer for reading %s''
       else bind_outcome (fold_outcome (fold_outcome (kcov_char alloc)) (pieces 512 text) ([], us)) (\<lambda>(line, us).
         if length line > 0 then kcov_unique_pcs_add alloc line us else Inr us))"

text \<open>The calls that write a list into a record, of a version of the record writer that is not kept.\<close>

record ('j, 'o) json_list =
  jl_begin :: 'j
  jl_list_begin :: "string \<Rightarrow> 'j \<Rightarrow> 'j"
  jl_append :: "string \<Rightarrow> 'j \<Rightarrow> 'j"
  jl_list_end :: "'j \<Rightarrow> 'j"
  jl_end :: "'j \<Rightarrow> 'o"

definition kcov_unique_pcs_json :: "('j, 'o) json_list \<Rightarrow> kcov_unique_pcs \<Rightarrow> 'o" where
  "kcov_unique_pcs_json J us = jl_end J (jl_list_end J (fold (\<lambda>pc. jl_append J (cstr pc)) (up_pcs us) (jl_list_begin J ''fork_kcov_pcs'' (jl_begin J))))"

definition kcov_unique_pcs_free :: "kcov_unique_pcs \<Rightarrow> kcov_unique_pcs" where
  "kcov_unique_pcs_free us = us\<lparr>up_pcs := [], up_cap := 0\<rparr>"

definition kcov_flush_json :: "('j, 'o) json_list \<Rightarrow> kcov_unique_pcs \<Rightarrow> 'o \<times> kcov_unique_pcs" where
  "kcov_flush_json J unique = (kcov_unique_pcs_json J unique, kcov_unique_pcs_free unique)"

definition kcov_file_contains_end :: "string option \<Rightarrow> bool" where
  "kcov_file_contains_end file = (case file of None \<Rightarrow> False | Some text \<Rightarrow> list_ex (\<lambda>buf. strstr (cstr buf) ''END'') (pieces 511 text))"

text \<open>\<open>files\<close> is what a path holds on a machine, \<open>sleep\<close> what the machine does while the module sleeps.\<close>

fun wait_for_end :: "('m \<Rightarrow> string \<Rightarrow> string option) \<Rightarrow> ('m \<Rightarrow> 'm) \<Rightarrow> string \<Rightarrow> nat \<Rightarrow> 'm \<Rightarrow> bool \<times> 'm" where
  "wait_for_end files sleep path 0 m = (False, m)"
| "wait_for_end files sleep path (Suc j) m =
     (if kcov_file_contains_end (files m path) then (True, m) else wait_for_end files sleep path j (sleep m))"

definition kcov_collect_pcs :: "(nat \<Rightarrow> bool) \<Rightarrow> ('m \<Rightarrow> string \<Rightarrow> string option) \<Rightarrow> ('m \<Rightarrow> 'm) \<Rightarrow> string \<Rightarrow>
    'm \<times> kcov_unique_pcs \<Rightarrow> ('m \<times> kcov_unique_pcs) outcome" where
  "kcov_collect_pcs alloc files sleep path st = (let (found, m) = wait_for_end files sleep path 10000 (fst st) in
     if \<not> found then Inr (m, snd st)
     else bind_outcome (kcov_collect_pcs_file alloc (files m path) (snd st)) (\<lambda>us. Inr (m, us)))"

section \<open>Removing duplicates in place\<close>

lemma cmp_ulong_order: "cmp_ulong a b \<le> 0 \<longleftrightarrow> a \<le> b"
  by (auto simp: cmp_ulong_def)

lemma remdups_adj_snoc: "remdups_adj (xs @ [x]) = (if xs \<noteq> [] \<and> last xs = x then remdups_adj xs else remdups_adj xs @ [x])"
  by (induction xs rule: remdups_adj.induct) auto

text \<open>After \<open>k\<close> turns the first part is the result for the first \<open>k\<close> words, and what is yet to be read is as it was.\<close>

definition compacted :: "u64 list \<Rightarrow> nat \<Rightarrow> nat \<times> u64 list \<Rightarrow> bool" where
  "compacted xs k st \<longleftrightarrow> (case st of (u, a) \<Rightarrow> length xs < length a \<and> u \<le> k \<and> take u (drop 1 a) = remdups_adj (take k xs)
     \<and> (\<forall>j < length xs. k - 1 \<le> j \<longrightarrow> a ! (j + 1) = xs ! j))"

lemma compacted_step:
  assumes "compacted xs k st" "k < length xs"
  shows "compacted xs (Suc k) (kcov_unique_step k st)"
proof -
  obtain u a where st: "st = (u, a)" by fastforce
  have a: "length xs < length a" "u \<le> k" "take u (drop 1 a) = remdups_adj (take k xs)" "\<And>j. j < length xs \<Longrightarrow> k - 1 \<le> j \<Longrightarrow> a ! (j + 1) = xs ! j"
    using assms(1) by (auto simp: compacted_def st)
  have xk: "a ! (k + 1) = xs ! k" using a(4)[of k] assms(2) by simp
  have xk': "a ! k = xs ! (k - 1)" if "k > 0" using a(4)[of "k - 1"] assms(2) that by simp
  have ta: "take (Suc k) xs = take k xs @ [xs ! k]" using assms(2) by (simp add: take_Suc_conv_app_nth)
  have lt: "last (take k xs) = xs ! (k - 1)" if "k > 0" using that assms(2) by (subst last_conv_nth) auto
  show ?thesis
  proof (cases "k = 0 \<or> a ! (k + 1) \<noteq> a ! k")
    case True
    have "\<not> (take k xs \<noteq> [] \<and> last (take k xs) = xs ! k)"
      using True xk xk' lt by auto
    then have r: "remdups_adj (take (Suc k) xs) = take u (drop 1 a) @ [xs ! k]" unfolding ta a(3) remdups_adj_snoc by auto
    have "drop 1 (a[1 + u := xs ! k]) = (drop 1 a)[u := xs ! k]" using drop_update_swap[of 1 "1 + u" a "xs ! k"] by simp
    then have "take (Suc u) (drop 1 (a[1 + u := xs ! k])) = take u (drop 1 a) @ [xs ! k]"
      using a(1,2) assms(2) by (simp add: take_Suc_conv_app_nth)
    then show ?thesis using True a(1,2,4) xk r
      by (auto simp: compacted_def kcov_unique_step_def st nth_list_update)
  next
    case False
    then have "take k xs \<noteq> []" "last (take k xs) = xs ! k" using xk xk' lt assms(2) by auto
    then have "remdups_adj (take (Suc k) xs) = take u (drop 1 a)" unfolding ta a(3) remdups_adj_snoc by simp
    then show ?thesis using False a(1,2,4) by (auto simp: compacted_def kcov_unique_step_def st)
  qed
qed

lemma compacted_fold:
  assumes "length xs < length a" "\<And>j. j < length xs \<Longrightarrow> a ! (j + 1) = xs ! j" "k \<le> length xs"
  shows "compacted xs k (fold kcov_unique_step [0..<k] (0, a))"
  using assms(3)
proof (induction k)
  case 0
  then show ?case using assms(1,2) by (simp add: compacted_def)
next
  case (Suc k)
  then show ?case using compacted_step[of xs k] by simp
qed

text \<open>What the task recorded, and the text it writes of it.\<close>

definition recorded :: "kcov \<Rightarrow> u64 list" where
  "recorded s = take (kcov_count s) (drop 1 (kc_area s))"

lemma sort_short: "length xs \<le> 1 \<Longrightarrow> sort xs = (xs :: 'a::linorder list)"
  by (cases xs; cases "tl xs") auto

lemma sort_area_facts:
  assumes "n < length a"
  shows "length (sort_area n a) = length a" "j < n \<Longrightarrow> sort_area n a ! (j + 1) = sort (take n (drop 1 a)) ! j"
proof -
  have l: "length (take n (drop 1 a)) = n" "length (take 1 a) = 1" using assms by simp_all
  show "length (sort_area n a) = length a" using assms by (cases a) (auto simp: sort_area_def)
  have "sort (take n (drop 1 a)) = take n (drop 1 a)" if "\<not> n > 1"
    using that l(1) sort_short[of "take n (drop 1 a)"] by simp
  then show "j < n \<Longrightarrow> sort_area n a ! (j + 1) = sort (take n (drop 1 a)) ! j"
    using assms l by (cases "n > 1") (auto simp: sort_area_def nth_append)
qed

definition dump_text :: "u64 list \<Rightarrow> string" where
  "dump_text pcs = concat (map kcov_line (remdups_adj (sort pcs))) @ ''END'' @ [newline]"

lemma kcov_count_bound: "length (kc_area s) = kc_words s \<Longrightarrow> 0 < kc_words s \<Longrightarrow> kcov_count s < length (kc_area s)"
  by (auto simp: kcov_count_def)

lemma kcov_dump_text:
  assumes "length (kc_area s) = kc_words s" "0 < kc_words s" "0 \<le> out"
  shows "\<exists>path s'. kcov_dump pid out s = Inr (path, dump_text (recorded s), s')"
proof -
  let ?n = "kcov_count s" and ?xs = "sort (recorded s)"
  have n: "?n < length (kc_area s)" using kcov_count_bound assms by blast
  then have len: "length ?xs = ?n" by (simp add: recorded_def)
  note sa = sort_area_facts[OF n, folded recorded_def]
  obtain u a where f: "fold kcov_unique_step [0..<?n] (0, sort_area ?n (kc_area s)) = (u, a)" by fastforce
  have "compacted ?xs ?n (u, a)"
    using compacted_fold[of ?xs "sort_area ?n (kc_area s)" ?n] sa n len unfolding f by simp
  then have c: "take u (drop 1 a) = remdups_adj ?xs" "u \<le> ?n" "?n < length a" using len by (auto simp: compacted_def)
  have "map (\<lambda>i. kcov_line (a ! (i + 1))) [0..<u] = map kcov_line (take u (drop 1 a))"
    using c(2,3) by (intro nth_equalityI) auto
  then show ?thesis using assms(3) unfolding kcov_dump_def Let_def f c(1) by (simp add: dump_text_def del: upt_Suc)
qed

section \<open>Collecting the lines\<close>

lemma concat_pieces [simp]: "0 < n \<Longrightarrow> concat (pieces n xs) = xs"
  by (induction n xs rule: pieces.induct) (subst pieces.simps, simp)

lemma fold_outcome_concat: "fold_outcome (fold_outcome f) xss s = fold_outcome f (concat xss) s"
proof (induction xss arbitrary: s)
  case (Cons xs xss)
  then show ?case by (cases "fold_outcome f xs s") (simp_all add: fold_outcome_append)
qed simp

text \<open>The entries are different C strings, and there is room for them.\<close>

definition unique_inv :: "kcov_unique_pcs \<Rightarrow> bool" where
  "unique_inv us \<longleftrightarrow> distinct (up_pcs us) \<and> length (up_pcs us) \<le> up_cap us \<and> list_all (\<lambda>e. cstr e = e) (up_pcs us)"

lemma unique_add:
  assumes "\<forall>n. alloc n" "unique_inv us" "cstr pc = pc" "pc \<noteq> []" "pc \<noteq> ''END''"
  shows "\<exists>us'. kcov_unique_pcs_add alloc pc us = Inr us' \<and> unique_inv us'
    \<and> up_pcs us' = up_pcs us @ (if pc \<in> set (up_pcs us) then [] else [pc])"
proof -
  have "list_ex (\<lambda>e. length (cstr e) = length pc \<and> take (length pc) e = pc) (up_pcs us) \<longleftrightarrow> pc \<in> set (up_pcs us)"
    using assms(2,3) by (auto simp: unique_inv_def list_ex_iff list_all_iff)
  then show ?thesis using assms by (auto simp: kcov_unique_pcs_add_def unique_inv_def Let_def)
qed

lemma collect_chars:
  "newline \<notin> set l \<Longrightarrow> length line + length l < 256 \<Longrightarrow> fold_outcome (kcov_char alloc) l (line, us) = Inr (line @ l, us)"
  by (induction l arbitrary: line) (auto simp: kcov_char_def)

lemma collect_line:
  assumes "newline \<notin> set l" "length l < 256"
  shows "fold_outcome (kcov_char alloc) (l @ [newline]) ([], us) = bind_outcome (kcov_unique_pcs_add alloc l us) (\<lambda>us. Inr ([], us))"
  using collect_chars[OF assms(1), of "[]"] assms(2)
  by (cases "kcov_unique_pcs_add alloc l us") (simp_all add: fold_outcome_append kcov_char_def)

lemma hex_text:
  fixes pc :: u64
  shows "newline \<notin> set (hex_digits (unat pc))" "length (hex_digits (unat pc)) < 256" "cstr (hex_digits (unat pc)) = hex_digits (unat pc)"
    "hex_digits (unat pc) \<noteq> ''END''"
proof -
  have s: "set (hex_digits (unat pc)) \<subseteq> set ''0123456789abcdef''" by (rule set_hex)
  show "newline \<notin> set (hex_digits (unat pc))" using s by auto
  have "unat pc < 2 ^ 64" using unsigned_less[of pc] by simp
  then have "unat pc < 16 ^ 16" by simp
  from length_hex[OF _ this] show "length (hex_digits (unat pc)) < 256" by simp
  show "cstr (hex_digits (unat pc)) = hex_digits (unat pc)" unfolding cstr_def using s by (auto simp: takeWhile_eq_all_conv)
  show "hex_digits (unat pc) \<noteq> ''END''"
  proof
    assume "hex_digits (unat pc) = ''END''"
    then show False using s by simp
  qed
qed

lemma collect_lines:
  assumes "\<forall>n. alloc n"
  shows "unique_inv us \<Longrightarrow> \<exists>us'. fold_outcome (kcov_char alloc) (concat (map kcov_line pcs)) ([], us) = Inr ([], us') \<and> unique_inv us'
    \<and> set (up_pcs us') = set (up_pcs us) \<union> (hex_digits \<circ> unat) ` set pcs"
proof (induction pcs arbitrary: us)
  case (Cons pc pcs)
  obtain u where u: "kcov_unique_pcs_add alloc (hex_digits (unat pc)) us = Inr u" "unique_inv u"
    "up_pcs u = up_pcs us @ (if hex_digits (unat pc) \<in> set (up_pcs us) then [] else [hex_digits (unat pc)])"
    using unique_add[of alloc us "hex_digits (unat pc)"] assms Cons.prems hex_text by auto
  have "fold_outcome (kcov_char alloc) (kcov_line pc) ([], us) = Inr ([], u)"
    unfolding kcov_line_def using collect_line[OF hex_text(1,2)] u(1) by simp
  moreover obtain us' where "fold_outcome (kcov_char alloc) (concat (map kcov_line pcs)) ([], u) = Inr ([], us')" "unique_inv us'"
    "set (up_pcs us') = set (up_pcs u) \<union> (hex_digits \<circ> unat) ` set pcs" using Cons.IH[OF u(2)] by blast
  ultimately show ?case using u(3) by (auto simp: fold_outcome_append)
qed simp

lemma collect_dump:
  assumes "\<forall>n. alloc n" "unique_inv us"
  shows "\<exists>us'. kcov_collect_pcs_file alloc (Some (dump_text pcs)) us = Inr us' \<and> unique_inv us'
    \<and> set (up_pcs us') = set (up_pcs us) \<union> (hex_digits \<circ> unat) ` set pcs"
proof -
  obtain us' where us': "fold_outcome (kcov_char alloc) (concat (map kcov_line (remdups_adj (sort pcs)))) ([], us) = Inr ([], us')" "unique_inv us'"
    "set (up_pcs us') = set (up_pcs us) \<union> (hex_digits \<circ> unat) ` set (remdups_adj (sort pcs))"
    using collect_lines[OF assms] by blast
  have "fold_outcome (kcov_char alloc) (''END'' @ [newline]) ([], us') = Inr ([], us')"
    using collect_line[of "''END''" alloc us'] by (simp add: kcov_unique_pcs_add_def)
  with us' show ?thesis using assms(1)
    by (simp add: kcov_collect_pcs_file_def fold_outcome_concat dump_text_def fold_outcome_append)
qed


definition demo_kcov :: "u64 list \<Rightarrow> kcov" where
  "demo_kcov pcs = \<lparr>kc_fd = 3, kc_area = of_nat (length pcs) # pcs @ [0], kc_words = length pcs + 2\<rparr>"


section \<open>Seeing the end\<close>

lemma strstr_append_free:
  assumes "CHR ''E'' \<notin> set l"
  shows "strstr (l @ s) ''END'' \<longleftrightarrow> strstr s ''END''"
  using assms by (induction l) (auto simp: strstarts_def)

lemma strstr_free: "CHR ''E'' \<notin> set l \<Longrightarrow> \<not> strstr l ''END''"
  by (induction l) (auto simp: strstarts_def)

text \<open>In text with no capital \<open>E\<close> before it, the last line is seen exactly when one read holds all of it.\<close>

lemma end_in_a_piece:
  assumes "3 < n"
  shows "CHR ''E'' \<notin> set l \<Longrightarrow> list_ex (\<lambda>b. strstr b ''END'') (pieces n (l @ ''END'' @ [newline])) \<longleftrightarrow> length l mod n < n - 2"
proof (induction "length l" arbitrary: l rule: less_induct)
  case less
  show ?case
  proof (cases "n \<le> length l")
    case True
    have e: "CHR ''E'' \<notin> set (take n l)" "CHR ''E'' \<notin> set (drop n l)" using less.prems by (auto dest: in_set_takeD in_set_dropD)
    have "length (drop n l) < length l" using True assms by simp
    from less.hyps[OF this e(2)] have "list_ex (\<lambda>b. strstr b ''END'') (pieces n (drop n l @ ''END'' @ [newline])) \<longleftrightarrow> (length l - n) mod n < n - 2" by simp
    moreover have "pieces n (l @ ''END'' @ [newline]) = take n l # pieces n (drop n l @ ''END'' @ [newline])"
      using True assms by (subst pieces.simps) simp
    moreover have "(length l - n) mod n = length l mod n" using True by (simp add: le_mod_geq)
    ultimately show ?thesis using strstr_free[OF e(1)] by simp
  next
    case False
    let ?k = "n - length l"
    have p: "pieces n (l @ ''END'' @ [newline]) = (l @ take ?k (''END'' @ [newline])) # pieces n (drop ?k (''END'' @ [newline]))"
      using False assms by (subst pieces.simps) simp
    have m: "length l mod n = length l" using False by simp
    have k: "?k = 1 \<or> ?k = 2 \<or> ?k \<ge> 3" using False by arith
    then consider "?k = 1" | "?k = 2" | "3 \<le> ?k" by blast
    then show ?thesis
    proof cases
      case 3
      then obtain j where "?k = 3 + j" using le_Suc_ex by blast
      then have j: "?k = Suc (Suc (Suc j))" by simp
      have "strstr (take ?k (''END'' @ [newline])) ''END''" unfolding j by (simp add: strstarts_def)
      moreover have "length l < n - 2" using 3 by arith
      ultimately show ?thesis unfolding p m using strstr_append_free[OF less.prems] by simp
    next
      case 1
      have t: "take ?k (''END'' @ [newline]) = ''E''" "drop ?k (''END'' @ [newline]) = ''ND'' @ [newline]" unfolding 1 by simp_all
      have "pieces n (''ND'' @ [newline]) = [''ND'' @ [newline]]" using assms by (simp add: pieces.simps)
      then show ?thesis unfolding p t m using strstr_append_free[OF less.prems] 1 by (simp add: strstarts_def)
    next
      case 2
      have t: "take ?k (''END'' @ [newline]) = ''EN''" "drop ?k (''END'' @ [newline]) = ''D'' @ [newline]" unfolding 2 by (simp_all add: numeral_2_eq_2)
      have "pieces n (''D'' @ [newline]) = [''D'' @ [newline]]" using assms by (simp add: pieces.simps)
      then show ?thesis unfolding p t m using strstr_append_free[OF less.prems] 2 by (simp add: strstarts_def)
    qed
  qed
qed

lemma contains_end_iff:
  "kcov_file_contains_end (Some (dump_text pcs)) \<longleftrightarrow> length (concat (map kcov_line (remdups_adj (sort pcs)))) mod 511 < 509"
proof -
  let ?l = "concat (map kcov_line (remdups_adj (sort pcs)))"
  have "set (kcov_line pc) \<subseteq> set ''0123456789abcdef'' \<union> {newline}" for pc 
  proof -
    have "set (kcov_line pc) = set (hex_digits (unat pc)) \<union> {newline}" by (simp add: kcov_line_def)
    then show ?thesis using set_hex[of "unat pc"] by blast
  qed
  then have c: "set ?l \<subseteq> set ''0123456789abcdef'' \<union> {newline}" unfolding set_concat set_map by blast
  have "CHR 0x00 \<notin> set (dump_text pcs)" using c by (auto simp: dump_text_def)
  then have "CHR 0x00 \<notin> set b" if "b \<in> set (pieces 511 (dump_text pcs))" for b
    using that concat_pieces[of 511 "dump_text pcs"] by (metis UN_I set_concat zero_less_numeral)
  then have "cstr b = b" if "b \<in> set (pieces 511 (dump_text pcs))" for b
    using that unfolding cstr_def by (auto simp: takeWhile_eq_all_conv)
  then have "list_ex (\<lambda>b. strstr (cstr b) ''END'') (pieces 511 (dump_text pcs)) = list_ex (\<lambda>b. strstr b ''END'') (pieces 511 (dump_text pcs))"
    by (auto simp: list_ex_iff)
  moreover have "CHR ''E'' \<notin> set ?l" using c by auto
  ultimately show ?thesis using end_in_a_piece[of 511 ?l] by (simp add: kcov_file_contains_end_def dump_text_def)
qed

text \<open>
  The module sees the end of a task's file exactly when its last line does not lie across the end of one
  of its reads of 511 bytes. It waits ten thousand times for a file where it does, and gives up.
\<close>
theorem kcov_end_seen_iff:
  "kcov_file_contains_end (Some (dump_text pcs)) \<longleftrightarrow> length (concat (map kcov_line (remdups_adj (sort pcs)))) mod 511 < 509"
  by (rule contains_end_iff)

text \<open>So thirty addresses of the kernel, sixteen digits each, are never collected.\<close>

lemma kcov_thirty_missed:
  assumes "length (remdups_adj (sort pcs)) = 30" "\<forall>pc \<in> set pcs. length (hex_digits (unat pc)) = 16"
  shows "\<not> kcov_file_contains_end (Some (dump_text pcs))"
proof -
  have "\<forall>pc \<in> set (remdups_adj (sort pcs)). length (kcov_line pc) = 17" using assms(2) by (simp add: kcov_line_def)
  then have "map length (map kcov_line (remdups_adj (sort pcs))) = replicate 30 17"
    using assms(1) by (intro replicate_eqI) auto
  then have "length (concat (map kcov_line (remdups_adj (sort pcs)))) = 510" by (simp add: length_concat sum_list_replicate del: map_map)
  then show ?thesis unfolding contains_end_iff by simp
qed

end
