(* ===== verification/Old_Cgroup.thy ===== *)
theory Old_Cgroup
  imports Json
begin

text \<open>
  The archived cgroup process (docs/archive/cgroup.c): a process that creates cgroups and writes their
  weights and CPUs on signals from the module. It numbers the cgroups of each level and keeps, for each,
  the path of its parent. The file system and the numbers of the signals (a header that is not kept) are
  arguments.
\<close>

unbundle bit_operations_syntax

section \<open>State and files\<close>

abbreviation MAX_CGROUP_LEVELS :: nat where "MAX_CGROUP_LEVELS \<equiv> 8"
abbreviation MAX_ID_IN_LEVEL :: nat where "MAX_ID_IN_LEVEL \<equiv> 65536"
abbreviation MAX_CGROUP_PATH_LENGTH :: nat where "MAX_CGROUP_PATH_LENGTH \<equiv> 128"

definition CGROUP_ROOT_DIR :: string where
  "CGROUP_ROOT_DIR = ''/sys/fs/cgroup''"

record 'm cgroup_proc =
  cp_m :: 'm
  cp_nextId :: "nat \<Rightarrow> nat"
  cp_parent_paths :: "nat \<Rightarrow> nat \<Rightarrow> string"

text \<open>\<open>fo_open\<close> and \<open>fo_access\<close> say whether the call succeeds, \<open>fo_mkdir\<close> also what is left.\<close>

record 'm file_ops =
  fo_open :: "'m \<Rightarrow> string \<Rightarrow> bool"
  fo_write :: "string \<Rightarrow> string \<Rightarrow> 'm \<Rightarrow> 'm"
  fo_access :: "'m \<Rightarrow> string \<Rightarrow> bool"
  fo_mkdir :: "string \<Rightarrow> 'm \<Rightarrow> bool \<times> 'm"
  fo_nprocessors :: int

definition write_file :: "'m file_ops \<Rightarrow> string \<Rightarrow> string \<Rightarrow> 'm cgroup_proc \<Rightarrow> 'm cgroup_proc" where
  "write_file F path val s = (if fo_open F (cp_m s) path then s\<lparr>cp_m := fo_write F path val (cp_m s)\<rparr> else s)"

definition init_cgroup_nextId :: "'m cgroup_proc \<Rightarrow> 'm cgroup_proc" where
  "init_cgroup_nextId s = s\<lparr>cp_nextId := (\<lambda>_. 0)\<rparr>"

definition init_cgroup_parent_paths :: "'m cgroup_proc \<Rightarrow> 'm cgroup_proc" where
  "init_cgroup_parent_paths s = s\<lparr>cp_parent_paths := (\<lambda>_ _. [])\<rparr>"

text \<open>\<open>snprintf\<close> into \<open>n\<close> bytes, refused where the text does not fit.\<close>

definition form :: "nat \<Rightarrow> string \<Rightarrow> string option" where
  "form n text = (if 0 < length text \<and> length text < n then Some text else None)"

definition form_subtree_control_path :: "string \<Rightarrow> string option" where
  "form_subtree_control_path parent = form MAX_CGROUP_PATH_LENGTH (parent @ ''/cgroup.subtree_control'')"

definition form_cpuset_path :: "string \<Rightarrow> string option" where
  "form_cpuset_path parent = form MAX_CGROUP_PATH_LENGTH (parent @ ''/cpuset.cpus'')"

definition form_weight_path :: "string \<Rightarrow> string option" where
  "form_weight_path parent = form MAX_CGROUP_PATH_LENGTH (parent @ ''/cpu.weight'')"

definition child_name :: "nat \<Rightarrow> nat \<Rightarrow> string" where
  "child_name level i = ''/l'' @ dec level @ ''_'' @ dec i"

definition make_child_cgroup_path :: "string \<Rightarrow> nat \<Rightarrow> nat \<Rightarrow> string option" where
  "make_child_cgroup_path parent level i = form MAX_CGROUP_PATH_LENGTH (parent @ child_name level i)"

definition form_cpuset_buffer :: "int \<Rightarrow> string option" where
  "form_cpuset_buffer nprocs = form 10 (sdec 1 @ ''-'' @ sdec (nprocs - 1))"

section \<open>The signals\<close>

text \<open>The two halves of a signal's value. A level or number past the arrays has no meaning in C; it is an outcome of its own.\<close>

definition level_of :: "u32 \<Rightarrow> nat" where
  "level_of v = unat (drop_bit 16 v AND 0xFFFF)"

definition id_of :: "u32 \<Rightarrow> nat" where
  "id_of v = unat (v AND 0xFFFF)"

definition cgroup_create_made :: "'m file_ops \<Rightarrow> nat \<Rightarrow> string \<Rightarrow> 'm cgroup_proc \<Rightarrow> 'm cgroup_proc outcome" where
  "cgroup_create_made F level parent_path s = (case make_child_cgroup_path parent_path level (cp_nextId s level) of None \<Rightarrow> Inr s
   | Some child_path \<Rightarrow> let (ok, m) = fo_mkdir F child_path (cp_m s); s = s\<lparr>cp_m := m\<rparr> in
       if ok \<and> cp_nextId s level \<ge> MAX_ID_IN_LEVEL then Inl ''out of bounds: parent_cgroup_paths[][]''
       else let s = (if ok then s\<lparr>cp_parent_paths := (cp_parent_paths s)(level := (cp_parent_paths s level)(cp_nextId s level := parent_path)),
           cp_nextId := (cp_nextId s)(level := cp_nextId s level + 1)\<rparr> else s) in
         Inr (case form_cpuset_path child_path of None \<Rightarrow> s
           | Some cpuset_path \<Rightarrow> (case form_cpuset_buffer (fo_nprocessors F) of None \<Rightarrow> s
             | Some cpus \<Rightarrow> write_file F cpuset_path cpus s)))"

definition cgroup_create :: "'m file_ops \<Rightarrow> u32 \<Rightarrow> 'm cgroup_proc \<Rightarrow> 'm cgroup_proc outcome" where
  "cgroup_create F val s = (let level = level_of val; i = id_of val in
     if level + 1 \<ge> MAX_CGROUP_LEVELS then Inl ''out of bounds: nextId[]''
     else if level = 0 \<and> i \<noteq> 0 then Inr s
     else (case (if level = 0 then Some CGROUP_ROOT_DIR else make_child_cgroup_path (cp_parent_paths s level i) level i) of None \<Rightarrow> Inr s
       | Some parent_path \<Rightarrow> if \<not> fo_access F (cp_m s) parent_path then Inr s
           else (case form_subtree_control_path parent_path of None \<Rightarrow> Inr s
             | Some control \<Rightarrow> cgroup_create_made F (level + 1) parent_path (write_file F control ''+cpu +cpuset'' s))))"

definition cgroup_reweight :: "'m file_ops \<Rightarrow> u32 \<Rightarrow> int \<Rightarrow> 'm cgroup_proc \<Rightarrow> 'm cgroup_proc outcome" where
  "cgroup_reweight F val val2 s = (let level = level_of val; i = id_of val in
     if level \<ge> MAX_CGROUP_LEVELS then Inl ''out of bounds: parent_cgroup_paths[]''
     else Inr (case make_child_cgroup_path (cp_parent_paths s level i) level i of None \<Rightarrow> s
       | Some path \<Rightarrow> (case form_weight_path path of None \<Rightarrow> s
         | Some weight_path \<Rightarrow> (case form 10 (sdec val2) of None \<Rightarrow> s | Some buf \<Rightarrow> write_file F weight_path buf s))))"

definition cgroup_setcpu :: "'m file_ops \<Rightarrow> u32 \<Rightarrow> int \<Rightarrow> int \<Rightarrow> 'm cgroup_proc \<Rightarrow> 'm cgroup_proc outcome" where
  "cgroup_setcpu F val val2 val3 s = (let level = level_of val; i = id_of val in
     if level \<ge> MAX_CGROUP_LEVELS then Inl ''out of bounds: parent_cgroup_paths[]''
     else Inr (case make_child_cgroup_path (cp_parent_paths s level i) level i of None \<Rightarrow> s
       | Some path \<Rightarrow> (case form_cpuset_path path of None \<Rightarrow> s
         | Some cpuset_path \<Rightarrow> (case form 10 (if val3 = 0 then sdec val2 else sdec val2 @ ''-'' @ sdec val3) of None \<Rightarrow> s
           | Some buf \<Rightarrow> write_file F cpuset_path buf s))))"

text \<open>The codes of the three signals, then a signal: its code, its value and its two further numbers.\<close>

record sigcodes =
  sg_create :: int
  sg_reweight :: int
  sg_setcpu :: int

type_synonym cgroup_signal = "int \<times> u32 \<times> int \<times> int"

definition signal_handler :: "'m file_ops \<Rightarrow> sigcodes \<Rightarrow> cgroup_signal \<Rightarrow> 'm cgroup_proc \<Rightarrow> 'm cgroup_proc outcome" where
  "signal_handler F C sig s = (case sig of (code, val, val2, val3) \<Rightarrow>
     if code = sg_create C then cgroup_create F val s
     else if code = sg_reweight C then cgroup_reweight F val val2 s
     else if code = sg_setcpu C then cgroup_setcpu F val val2 val3 s
     else Inr s)"

definition cgroup_main :: "'m file_ops \<Rightarrow> sigcodes \<Rightarrow> cgroup_signal list \<Rightarrow> 'm cgroup_proc \<Rightarrow> 'm cgroup_proc outcome" where
  "cgroup_main F C sigs s = fold_outcome (signal_handler F C) sigs (init_cgroup_parent_paths (init_cgroup_nextId s))"

section \<open>The tree of cgroups\<close>

text \<open>What the process relies on of the file system: the directories there are, and what changes them.\<close>

definition dirs_ok :: "'m file_ops \<Rightarrow> ('m \<Rightarrow> string set) \<Rightarrow> bool" where
  "dirs_ok F dirs \<longleftrightarrow> (\<forall>m p. fo_access F m p \<longrightarrow> p \<in> dirs m) \<and> (\<forall>m p v. dirs (fo_write F p v m) = dirs m)
     \<and> (\<forall>m p m'. fo_mkdir F p m = (True, m') \<longrightarrow> p \<notin> dirs m \<and> dirs m' = insert p (dirs m))
     \<and> (\<forall>m p m'. fo_mkdir F p m = (False, m') \<longrightarrow> dirs m' = dirs m)"

definition cgroup_path_of :: "'m cgroup_proc \<Rightarrow> nat \<Rightarrow> nat \<Rightarrow> string" where
  "cgroup_path_of s level i = (if level = 0 then CGROUP_ROOT_DIR else cp_parent_paths s level i @ child_name level i)"

definition numbered :: "'m cgroup_proc \<Rightarrow> nat \<Rightarrow> nat \<Rightarrow> bool" where
  "numbered s level i \<longleftrightarrow> (if level = 0 then i = 0 else level < MAX_CGROUP_LEVELS \<and> i < cp_nextId s level)"

text \<open>
  Every numbered cgroup but the root is a directory below a numbered one of the level above; no two are
  the same directory; nothing else has a path; and no directory has a name of the root's children.
\<close>

definition tree_inv :: "('m \<Rightarrow> string set) \<Rightarrow> 'm cgroup_proc \<Rightarrow> bool" where
  "tree_inv dirs s \<longleftrightarrow>
     (\<forall>level i. 0 < level \<and> numbered s level i \<longrightarrow>
        cgroup_path_of s level i \<in> dirs (cp_m s) \<and> (\<exists>j. numbered s (level - 1) j \<and> cp_parent_paths s level i = cgroup_path_of s (level - 1) j))
     \<and> (\<forall>level i level' i'. 0 < level \<and> 0 < level' \<and> numbered s level i \<and> numbered s level' i' \<and> cgroup_path_of s level i = cgroup_path_of s level' i'
          \<longrightarrow> level = level' \<and> i = i')
     \<and> (\<forall>level i. numbered s level i \<longrightarrow> take 2 (cgroup_path_of s level i) = ''/s'')
     \<and> (\<forall>level i. 0 < level \<and> \<not> numbered s level i \<longrightarrow> cp_parent_paths s level i = [])
     \<and> (\<forall>level i. child_name level i \<notin> dirs (cp_m s))"

lemma tree_invI:
  assumes "\<And>level i. 0 < level \<Longrightarrow> numbered s level i \<Longrightarrow>
      cgroup_path_of s level i \<in> dirs (cp_m s) \<and> (\<exists>j. numbered s (level - 1) j \<and> cp_parent_paths s level i = cgroup_path_of s (level - 1) j)"
    and "\<And>level level' i i'. 0 < level \<Longrightarrow> 0 < level' \<Longrightarrow> numbered s level i \<Longrightarrow> numbered s level' i' \<Longrightarrow>
      cgroup_path_of s level i = cgroup_path_of s level' i' \<Longrightarrow> level = level' \<and> i = i'"
    and "\<And>level i. numbered s level i \<Longrightarrow> take 2 (cgroup_path_of s level i) = ''/s''"
    and "\<And>level i. 0 < level \<Longrightarrow> \<not> numbered s level i \<Longrightarrow> cp_parent_paths s level i = []"
    and "\<And>level i. child_name level i \<notin> dirs (cp_m s)"
  shows "tree_inv dirs s"
  unfolding tree_inv_def
proof (intro conjI allI impI)
  fix level i level' i'
  assume a: "0 < level \<and> 0 < level' \<and> numbered s level i \<and> numbered s level' i' \<and> cgroup_path_of s level i = cgroup_path_of s level' i'"
  show "level = level'" "i = i'" using assms(2)[of level level' i i'] a by simp_all
qed (use assms in simp_all)

lemma tree_up:
  "tree_inv dirs s \<Longrightarrow> 0 < level \<Longrightarrow> numbered s level i \<Longrightarrow>
    cgroup_path_of s level i \<in> dirs (cp_m s) \<and> (\<exists>j. numbered s (level - 1) j \<and> cp_parent_paths s level i = cgroup_path_of s (level - 1) j)"
  by (simp add: tree_inv_def)

lemma tree_inj:
  "tree_inv dirs s \<Longrightarrow> 0 < level \<Longrightarrow> 0 < level' \<Longrightarrow> numbered s level i \<Longrightarrow> numbered s level' i' \<Longrightarrow>
    cgroup_path_of s level i = cgroup_path_of s level' i' \<Longrightarrow> level = level' \<and> i = i'"
  by (simp add: tree_inv_def)

lemma tree_inv_cong:
  assumes "cp_nextId s' = cp_nextId s" "cp_parent_paths s' = cp_parent_paths s" "dirs (cp_m s') = dirs (cp_m s)"
  shows "tree_inv dirs s' = tree_inv dirs s"
  using assms by (simp add: tree_inv_def numbered_def cgroup_path_of_def)

lemma dirs_mkdir:
  "dirs_ok F dirs \<Longrightarrow> fo_mkdir F p m = (ok', m') \<Longrightarrow> (if ok' then p \<notin> dirs m \<and> dirs m' = insert p (dirs m) else dirs m' = dirs m)"
  by (cases ok') (simp_all add: dirs_ok_def)

lemma write_file_tree: "dirs_ok F dirs \<Longrightarrow> tree_inv dirs (write_file F path v s) = tree_inv dirs s"
  by (intro tree_inv_cong) (auto simp: write_file_def dirs_ok_def)

lemma write_file_tables [simp]: "cp_nextId (write_file F path v s) = cp_nextId s" "cp_parent_paths (write_file F path v s) = cp_parent_paths s"
  by (simp_all add: write_file_def)

text \<open>The state with one more cgroup below a numbered one.\<close>

definition add_cgroup :: "nat \<Rightarrow> string \<Rightarrow> 'm \<Rightarrow> 'm cgroup_proc \<Rightarrow> 'm cgroup_proc" where
  "add_cgroup level parent_path m s = s\<lparr>cp_m := m,
     cp_parent_paths := (cp_parent_paths s)(level := (cp_parent_paths s level)(cp_nextId s level := parent_path)),
     cp_nextId := (cp_nextId s)(level := cp_nextId s level + 1)\<rparr>"

lemma add_cgroup_numbered:
  "0 < level \<Longrightarrow> level < MAX_CGROUP_LEVELS \<Longrightarrow> numbered (add_cgroup level p m s) l i \<longleftrightarrow> numbered s l i \<or> l = level \<and> i = cp_nextId s level"
  by (auto simp: numbered_def add_cgroup_def)

lemma add_cgroup_paths:
  assumes "0 < level" "level < MAX_CGROUP_LEVELS"
  shows "numbered s l i \<Longrightarrow> cgroup_path_of (add_cgroup level p m s) l i = cgroup_path_of s l i"
    "cgroup_path_of (add_cgroup level p m s) level (cp_nextId s level) = p @ child_name level (cp_nextId s level)"
    "\<not> (l = level \<and> i = cp_nextId s level) \<Longrightarrow> cp_parent_paths (add_cgroup level p m s) l i = cp_parent_paths s l i"
    "cp_parent_paths (add_cgroup level p m s) level (cp_nextId s level) = p"
  using assms by (auto simp: cgroup_path_of_def add_cgroup_def numbered_def)

lemma child_name_start: "take 2 (child_name level i) = ''/l''"
  by (simp add: child_name_def)

lemma add_cgroup_tree:
  assumes "tree_inv dirs s" "0 < level" "level < MAX_CGROUP_LEVELS" "numbered s (level - 1) j" "parent_path = cgroup_path_of s (level - 1) j"
    and "parent_path @ child_name level (cp_nextId s level) \<notin> dirs (cp_m s)"
    and "dirs m = insert (parent_path @ child_name level (cp_nextId s level)) (dirs (cp_m s))"
  shows "tree_inv dirs (add_cgroup level parent_path m s)"
proof -
  let ?n = "cp_nextId s level" and ?s = "add_cgroup level parent_path m s"
  let ?child = "parent_path @ child_name level ?n"
  note num = add_cgroup_numbered[OF assms(2,3), of parent_path m s]
  note path = add_cgroup_paths[OF assms(2,3)]
  have t: "\<And>l i. 0 < l \<Longrightarrow> numbered s l i \<Longrightarrow> cgroup_path_of s l i \<in> dirs (cp_m s)"
    "\<And>l i. 0 < l \<Longrightarrow> numbered s l i \<Longrightarrow> \<exists>j. numbered s (l - 1) j \<and> cp_parent_paths s l i = cgroup_path_of s (l - 1) j"
    "\<And>l i l' i'. 0 < l \<Longrightarrow> 0 < l' \<Longrightarrow> numbered s l i \<Longrightarrow> numbered s l' i' \<Longrightarrow> cgroup_path_of s l i = cgroup_path_of s l' i' \<Longrightarrow> l = l' \<and> i = i'"
    "\<And>l i. numbered s l i \<Longrightarrow> take 2 (cgroup_path_of s l i) = ''/s''" "\<And>l i. 0 < l \<Longrightarrow> \<not> numbered s l i \<Longrightarrow> cp_parent_paths s l i = []"
    "\<And>l i. child_name l i \<notin> dirs (cp_m s)"
    using assms(1) unfolding tree_inv_def by blast+
  have fresh: "\<not> numbered s level ?n" using assms(2) by (simp add: numbered_def)
  have dm: "dirs (cp_m ?s) = insert ?child (dirs (cp_m s))" using assms(7) by (simp add: add_cgroup_def)
  have start: "take 2 ?child = ''/s''"
  proof -
    have "take 2 parent_path = ''/s''" using t(4)[OF assms(4)] assms(5) by simp
    then have "length (take 2 parent_path) = 2" by (simp only:) simp
    then have "2 \<le> length parent_path" by simp
    then show ?thesis using t(4)[OF assms(4)] assms(5) by simp
  qed
  have "cgroup_path_of ?s l i \<in> dirs (cp_m ?s) \<and> (\<exists>j. numbered ?s (l - 1) j \<and> cp_parent_paths ?s l i = cgroup_path_of ?s (l - 1) j)"
    if l: "0 < l" "numbered ?s l i" for l i
  proof (cases "l = level \<and> i = ?n")
    case True
    have "numbered ?s (level - 1) j \<and> cp_parent_paths ?s level ?n = cgroup_path_of ?s (level - 1) j"
      using assms(4,5) num path(1)[OF assms(4)] path(4) by simp
    then show ?thesis using True path(2) dm by auto
  next
    case False
    then have n: "numbered s l i" using l num by blast
    then obtain k where k: "numbered s (l - 1) k" "cp_parent_paths s l i = cgroup_path_of s (l - 1) k" using t(2) l(1) by blast
    then show ?thesis using t(1)[OF l(1) n] path(1)[OF n] path(1)[OF k(1)] path(3)[OF False] num dm by auto
  qed
  moreover have "l = l' \<and> i = i'" if l: "0 < l" "0 < l'" "numbered ?s l i" "numbered ?s l' i'" "cgroup_path_of ?s l i = cgroup_path_of ?s l' i'" for l i l' i'
  proof -
    have new: "\<not> (numbered s k e \<and> 0 < k \<and> cgroup_path_of ?s k e = ?child)" for k e using t(1)[of k e] path(1)[of s k e parent_path m] assms(6) by auto
    have cases: "numbered s l i \<or> l = level \<and> i = ?n" "numbered s l' i' \<or> l' = level \<and> i' = ?n" using l(3,4) num by simp_all
    show ?thesis
    proof (cases "numbered s l i \<and> numbered s l' i'")
      case True
      then have "cgroup_path_of s l i = cgroup_path_of s l' i'" using l(5) path(1)[of s l i] path(1)[of s l' i'] by simp
      then show ?thesis using t(3)[OF l(1,2)] True by blast
    next
      case False
      then consider "l = level" "i = ?n" "l' = level" "i' = ?n" | "numbered s l i" "l' = level" "i' = ?n" | "numbered s l' i'" "l = level" "i = ?n"
        using cases by blast
      then show ?thesis
      proof cases
        case 2
        then show ?thesis using new[of l i] l(1,5) path(2)[of parent_path m s] by simp
      next
        case 3
        then show ?thesis using new[of l' i'] l(2,5) path(2)[of parent_path m s] by simp
      qed simp
    qed
  qed
  moreover have "take 2 (cgroup_path_of ?s l i) = ''/s''" if "numbered ?s l i" for l i
    using that t(4)[of l i] start path(1)[of s l i parent_path m] path(2)[of parent_path m s] unfolding num by auto
  moreover have "cp_parent_paths ?s l i = []" if "0 < l" "\<not> numbered ?s l i" for l i
    using that(2) t(5)[OF that(1), of i] path(3)[of l i s parent_path m] unfolding num by auto
  moreover have "child_name l i \<notin> dirs (cp_m ?s)" for l i
  proof
    assume "child_name l i \<in> dirs (cp_m ?s)"
    then have "child_name l i = ?child" using t(6)[of l i] unfolding dm by blast
    then have "''/l'' = ''/s''" using start child_name_start[of l i] by (simp only:)
    then show False by simp
  qed
  ultimately show ?thesis by (rule tree_invI)
qed

lemma create_made_tree:
  assumes "cgroup_create_made F level parent_path s = Inr s'" "dirs_ok F dirs" "tree_inv dirs s" "0 < level" "level < MAX_CGROUP_LEVELS"
    "numbered s (level - 1) j" "parent_path = cgroup_path_of s (level - 1) j"
  shows "tree_inv dirs s'"
proof (cases "make_child_cgroup_path parent_path level (cp_nextId s level)")
  case None
  then show ?thesis using assms(1,3) by (simp add: cgroup_create_made_def)
next
  case (Some child)
  then have child: "child = parent_path @ child_name level (cp_nextId s level)" by (auto simp: make_child_cgroup_path_def form_def split: if_splits)
  obtain ok' m where mk: "fo_mkdir F child (cp_m s) = (ok', m)" by fastforce
  define s1 where "s1 = (if ok' then add_cgroup level parent_path m s else s\<lparr>cp_m := m\<rparr>)"
  have "tree_inv dirs s1"
  proof (cases ok')
    case True
    have "child \<notin> dirs (cp_m s) \<and> dirs m = insert child (dirs (cp_m s))" using dirs_mkdir[OF assms(2) mk] True by simp
    then show ?thesis using add_cgroup_tree[OF assms(3-7)] True by (simp add: s1_def child)
  next
    case False
    then have "dirs m = dirs (cp_m s)" using dirs_mkdir[OF assms(2) mk] by simp
    then show ?thesis using False assms(3) tree_inv_cong[of "s\<lparr>cp_m := m\<rparr>" s dirs] by (simp add: s1_def)
  qed
  moreover have "s' = s1 \<or> (\<exists>path v. s' = write_file F path v s1)"
    using assms(1) Some mk by (auto simp: cgroup_create_made_def s1_def add_cgroup_def Let_def split: if_splits option.splits)
  ultimately show ?thesis using write_file_tree[OF assms(2)] by auto
qed

lemma cgroup_create_tree:
  assumes "cgroup_create F val s = Inr s'" "dirs_ok F dirs" "tree_inv dirs s"
  shows "tree_inv dirs s'"
proof -
  let ?l = "level_of val" and ?i = "id_of val"
  let ?parent = "if ?l = 0 then Some CGROUP_ROOT_DIR else make_child_cgroup_path (cp_parent_paths s ?l ?i) ?l ?i"
  have b: "?l + 1 < MAX_CGROUP_LEVELS" using assms(1) by (auto simp: cgroup_create_def Let_def split: if_splits)
  consider "s' = s" | p control where "?parent = Some p" "fo_access F (cp_m s) p" "\<not> (?l = 0 \<and> ?i \<noteq> 0)"
    "cgroup_create_made F (?l + 1) p (write_file F control ''+cpu +cpuset'' s) = Inr s'"
  proof -
    define par where "par = ?parent"
    have "(if ?l = 0 \<and> ?i \<noteq> 0 then Inr s else (case par of None \<Rightarrow> Inr s
       | Some parent_path \<Rightarrow> if \<not> fo_access F (cp_m s) parent_path then Inr s
           else (case form_subtree_control_path parent_path of None \<Rightarrow> Inr s
             | Some control \<Rightarrow> cgroup_create_made F (?l + 1) parent_path (write_file F control ''+cpu +cpuset'' s)))) = Inr s'"
      using assms(1) b unfolding cgroup_create_def Let_def par_def by (simp only: if_False not_le[symmetric] simp_thms)
    then have "s' = s \<or> (\<exists>p control. par = Some p \<and> fo_access F (cp_m s) p \<and> \<not> (?l = 0 \<and> ?i \<noteq> 0)
        \<and> cgroup_create_made F (?l + 1) p (write_file F control ''+cpu +cpuset'' s) = Inr s')"
      by (cases par) (auto split: if_split_asm option.split_asm)
    then show ?thesis
    proof (elim disjE exE conjE)
      fix p control
      assume c: "par = Some p" "fo_access F (cp_m s) p" "\<not> (?l = 0 \<and> ?i \<noteq> 0)"
        "cgroup_create_made F (?l + 1) p (write_file F control ''+cpu +cpuset'' s) = Inr s'"
      show ?thesis by (rule that(2)[OF c[unfolded par_def]])
    qed (rule that(1))
  qed
  then show ?thesis
  proof cases
    case 1
    then show ?thesis using assms(3) by simp
  next
    case 2
    let ?w = "write_file F control ''+cpu +cpuset'' s"
    have p: "p \<in> dirs (cp_m s)" using 2(2) assms(2) unfolding dirs_ok_def by blast
    have "numbered s ?l ?i \<and> p = cgroup_path_of s ?l ?i"
    proof (cases "?l = 0")
      case True
      then show ?thesis using 2(1,3) by (simp add: numbered_def cgroup_path_of_def)
    next
      case False
      then have pe: "p = cp_parent_paths s ?l ?i @ child_name ?l ?i" using 2(1) by (auto simp: make_child_cgroup_path_def form_def split: if_splits)
      moreover have "numbered s ?l ?i"
      proof (rule ccontr)
        assume "\<not> numbered s ?l ?i"
        then have "cp_parent_paths s ?l ?i = []" using assms(3) False unfolding tree_inv_def by blast
        then show False using p pe assms(3) unfolding tree_inv_def by auto
      qed
      ultimately show ?thesis using False by (simp add: cgroup_path_of_def)
    qed
    then have "numbered ?w (?l + 1 - 1) ?i" "p = cgroup_path_of ?w (?l + 1 - 1) ?i" by (simp_all add: numbered_def cgroup_path_of_def)
    from create_made_tree[OF 2(4) assms(2) _ _ b this] show ?thesis using write_file_tree[OF assms(2)] assms(3) by simp
  qed
qed

lemma signal_tree: "dirs_ok F dirs \<Longrightarrow> tree_inv dirs s \<Longrightarrow> signal_handler F C sig s = Inr s' \<Longrightarrow> tree_inv dirs s'"
  using cgroup_create_tree write_file_tree[of F dirs]
  by (auto simp: signal_handler_def cgroup_reweight_def cgroup_setcpu_def Let_def split: if_splits option.splits prod.splits)

text \<open>
  C28. Whatever signals come, as long as none names a level past the tables, the numbered cgroups are a tree
  of directories: each is a directory of its own, below the root or below a numbered cgroup of the level
  above, so the number the module sends always names one and the same cgroup.
\<close>
theorem cgroup_numbers_are_a_tree:
  assumes "dirs_ok F dirs" "cgroup_main F C sigs s = Inr s'" "\<forall>level i. child_name level i \<notin> dirs (cp_m s)"
  shows "(\<forall>level i. 0 < level \<and> numbered s' level i \<longrightarrow> cgroup_path_of s' level i \<in> dirs (cp_m s')
      \<and> (\<exists>j. numbered s' (level - 1) j \<and> cgroup_path_of s' level i = cgroup_path_of s' (level - 1) j @ child_name level i))
    \<and> (\<forall>level i level' i'. 0 < level \<and> 0 < level' \<and> numbered s' level i \<and> numbered s' level' i' \<and> cgroup_path_of s' level i = cgroup_path_of s' level' i'
        \<longrightarrow> level = level' \<and> i = i')"
proof -
  have "tree_inv dirs (init_cgroup_parent_paths (init_cgroup_nextId s))"
    using assms(3) by (auto simp: tree_inv_def numbered_def init_cgroup_parent_paths_def init_cgroup_nextId_def cgroup_path_of_def CGROUP_ROOT_DIR_def)
  from fold_outcome_invariant[OF assms(2)[unfolded cgroup_main_def], of "tree_inv dirs", OF this signal_tree[OF assms(1)]]
  have inv: "tree_inv dirs s'" .
  show ?thesis
  proof (intro conjI allI impI)
    fix level i
    assume l: "0 < level \<and> numbered s' level i"
    then obtain j where j: "numbered s' (level - 1) j" "cp_parent_paths s' level i = cgroup_path_of s' (level - 1) j" and d: "cgroup_path_of s' level i \<in> dirs (cp_m s')"
      using tree_up[OF inv, of level i] by blast
    show "cgroup_path_of s' level i \<in> dirs (cp_m s')" by (rule d)
    have "cgroup_path_of s' level i = cp_parent_paths s' level i @ child_name level i" using l by (simp add: cgroup_path_of_def)
    then show "\<exists>j. numbered s' (level - 1) j \<and> cgroup_path_of s' level i = cgroup_path_of s' (level - 1) j @ child_name level i" using j by metis
  next
    fix level i level' i'
    assume "0 < level \<and> 0 < level' \<and> numbered s' level i \<and> numbered s' level' i' \<and> cgroup_path_of s' level i = cgroup_path_of s' level' i'"
    then have "level = level' \<and> i = i'" using tree_inj[OF inv, of level level' i i'] by simp
    then show "level = level'" "i = i'" by simp_all
  qed
qed

text \<open>A file system that is the set of its directories, the root of the cgroups among them, on a machine of five CPUs.\<close>

definition demo_file_ops :: "string set file_ops" where
  "demo_file_ops = \<lparr>fo_open = (\<lambda>_ _. True), fo_write = (\<lambda>_ _ m. m), fo_access = (\<lambda>m p. p \<in> m),
     fo_mkdir = (\<lambda>p m. if p \<in> m then (False, m) else (True, insert p m)), fo_nprocessors = 5\<rparr>"

definition demo_sigcodes :: sigcodes where
  "demo_sigcodes = \<lparr>sg_create = 1, sg_reweight = 2, sg_setcpu = 3\<rparr>"

definition demo_cgroup_proc :: "string set cgroup_proc" where
  "demo_cgroup_proc = \<lparr>cp_m = {CGROUP_ROOT_DIR}, cp_nextId = (\<lambda>_. 0), cp_parent_paths = (\<lambda>_ _. [])\<rparr>"

theorem cgroup_numbers_are_a_tree_witness:
  "\<exists>s'. cgroup_main demo_file_ops demo_sigcodes [(1, 0, 0, 0), (1, 0x10000, 0, 0)] demo_cgroup_proc = Inr s'
    \<and> numbered s' 2 0 \<and> cgroup_path_of s' 2 0 \<in> cp_m s'"
proof -
  have d: "dec 0 = ''0''" "dec (Suc 0) = ''1''" "dec (Suc (Suc 0)) = ''2''" "sdec 1 = ''1''" "sdec 4 = ''4''" by code_simp+
  have l: "level_of 0 = 0" "id_of 0 = 0" "level_of 0x10000 = 1" "id_of 0x10000 = 0" by (simp_all add: level_of_def id_of_def)
  note defs = signal_handler_def cgroup_create_def cgroup_create_made_def demo_sigcodes_def demo_file_ops_def form_subtree_control_path_def
    make_child_cgroup_path_def form_def child_name_def CGROUP_ROOT_DIR_def form_cpuset_path_def form_cpuset_buffer_def write_file_def Let_def
  define s0 where "s0 = init_cgroup_parent_paths (init_cgroup_nextId demo_cgroup_proc)"
  have s0: "cp_m s0 = {''/sys/fs/cgroup''}" "cp_nextId s0 = (\<lambda>_. 0)"
    by (simp_all add: s0_def init_cgroup_parent_paths_def init_cgroup_nextId_def demo_cgroup_proc_def CGROUP_ROOT_DIR_def)
  obtain s1 where s1: "signal_handler demo_file_ops demo_sigcodes (1, 0, 0, 0) s0 = Inr s1" "cp_m s1 = {''/sys/fs/cgroup/l1_0'', ''/sys/fs/cgroup''}"
    "cp_nextId s1 2 = 0" "cp_parent_paths s1 1 0 = ''/sys/fs/cgroup''"
    by (simp add: defs l d s0 numeral_2_eq_2)
  obtain s' where "signal_handler demo_file_ops demo_sigcodes (1, 0x10000, 0, 0) s1 = Inr s'" "numbered s' 2 0"
    using s1(2-4) by (simp add: defs l d numbered_def numeral_2_eq_2)
  then have s': "cgroup_main demo_file_ops demo_sigcodes [(1, 0, 0, 0), (1, 0x10000, 0, 0)] demo_cgroup_proc = Inr s'" "numbered s' 2 0"
    using s1(1) by (simp_all add: cgroup_main_def s0_def[symmetric])
  have "dirs_ok demo_file_ops (\<lambda>m. m)" by (auto simp: dirs_ok_def demo_file_ops_def split: if_splits)
  moreover have "\<forall>level i. child_name level i \<notin> cp_m demo_cgroup_proc" by (simp add: demo_cgroup_proc_def child_name_def CGROUP_ROOT_DIR_def)
  ultimately show ?thesis using cgroup_numbers_are_a_tree[of demo_file_ops "\<lambda>m. m" demo_sigcodes _ demo_cgroup_proc s'] s' by (intro exI[of _ s']) simp
qed

text \<open>A level past the tables is not refused.\<close>

lemma cgroup_level_unchecked: "cgroup_create F 0x70000 s = Inl ''out of bounds: nextId[]''"
  by (simp add: cgroup_create_def level_of_def Let_def)

end
