(* ===== verification/Old_Shell.thy ===== *)
theory Old_Shell
  imports Json Cstr
begin

text \<open>
  The archived first process and its tools (docs/archive/init.c, echo.c, insmod.c): mounts, the module
  loaded with the command line's parameters, a start-up script run line by line, an interactive shell,
  \<open>echo\<close> with redirection and \<open>insmod\<close>. The system calls are operations on a machine, an argument.
\<close>

section \<open>The system\<close>

text \<open>What waiting for a command gives: its exit status, or another end, or no process at all.\<close>

datatype wait_result = Exited int | Other_end int | Fork_failed

record 'm shell_ops =
  so_mkdir :: "string \<Rightarrow> 'm \<Rightarrow> int \<times> 'm"
  so_mount :: "string \<Rightarrow> string \<Rightarrow> 'm \<Rightarrow> bool \<times> 'm"
  so_affinity :: "'m \<Rightarrow> 'm"
  so_chdir :: "string \<Rightarrow> 'm \<Rightarrow> 'm"
  so_print :: "string \<Rightarrow> 'm \<Rightarrow> 'm"
  so_getcwd :: "'m \<Rightarrow> string option"
  so_poweroff :: "'m \<Rightarrow> 'm"
  so_exec :: "string list \<Rightarrow> 'm \<Rightarrow> wait_result \<times> 'm"
  so_ignore_children :: "'m \<Rightarrow> 'm"

abbreviation MAX_LINE :: nat where "MAX_LINE \<equiv> 1024"
abbreviation MAX_ARGS :: nat where "MAX_ARGS \<equiv> 64"
abbreviation MAX_PATH :: nat where "MAX_PATH \<equiv> 1024"
abbreviation EEXIST_NO :: int where "EEXIST_NO \<equiv> 17"

text \<open>The program exits where it panics: \<open>Inl\<close>.\<close>

definition old_mount_fs :: "'m shell_ops \<Rightarrow> string \<Rightarrow> string \<Rightarrow> 'm \<Rightarrow> 'm outcome" where
  "old_mount_fs O' dir ty m = (let (e, m) = so_mkdir O' dir m in
     if e \<noteq> 0 \<and> e \<noteq> EEXIST_NO then Inl ''Failed to create directory %s''
     else let m = (if e = EEXIST_NO then so_print O' (''Directory '' @ dir @ '' already exists'' @ [newline]) m else m);
          (ok, m) = so_mount O' dir ty m in if ok then Inr m else Inl ''Failed to mount %s as %s'')"

definition mount_filesystems :: "'m shell_ops \<Rightarrow> 'm \<Rightarrow> 'm outcome" where
  "mount_filesystems O' = fold_outcome (\<lambda>(dir, ty). old_mount_fs O' dir ty)
     [(''/proc'', ''proc''), (''/sys'', ''sysfs''), (''/sys/kernel/debug'', ''debugfs''), (''/sys/fs/cgroup'', ''cgroup2'')]"

section \<open>The built-in commands\<close>

definition builtin_cd :: "'m shell_ops \<Rightarrow> string list \<Rightarrow> 'm \<Rightarrow> 'm" where
  "builtin_cd O' args m = (if length args < 2 then m else so_chdir O' (args ! 1) m)"

definition builtin_pwd :: "'m shell_ops \<Rightarrow> 'm \<Rightarrow> 'm" where
  "builtin_pwd O' m = (case so_getcwd O' m of None \<Rightarrow> m
   | Some cwd \<Rightarrow> if length cwd < MAX_PATH then so_print O' (cwd @ [newline]) m else m)"

definition help_lines :: "string list" where
  "help_lines = [''Built-in commands:'', ''  help            - Show this help'', ''  cd <dir>        - Change directory'',
     ''  pwd             - Print working directory'', ''  Ctrl+C / exit   - Exit the shell'', ''External commands:'',
     ''  ps              - List processes'', ''  ls <dir>        - List directory:         `ls /proc`'',
     ''  cat <file>      - Print file contents:    `cat /sys/kernel/debug/sched/debug`'',
     ''  insmod <file>   - Load a kernel module:   `insmod trace.ko`'', ''  rmmod <module>  - Unload a kernel module: `rmmod trace`'']"

definition builtin_help :: "'m shell_ops \<Rightarrow> 'm \<Rightarrow> 'm" where
  "builtin_help O' m = fold (\<lambda>l. so_print O' (l @ [newline])) help_lines m"

definition builtin_exit :: "'m shell_ops \<Rightarrow> 'm \<Rightarrow> 'm" where
  "builtin_exit O' = so_poweroff O'"

definition builtins :: "'m shell_ops \<Rightarrow> (string \<times> (string list \<Rightarrow> 'm \<Rightarrow> 'm)) list" where
  "builtins O' = [(''cd'', builtin_cd O'), (''pwd'', \<lambda>_. builtin_pwd O'), (''exit'', \<lambda>_. builtin_exit O'), (''help'', \<lambda>_. builtin_help O')]"

definition is_builtin :: "'m shell_ops \<Rightarrow> string \<Rightarrow> (string list \<Rightarrow> 'm \<Rightarrow> 'm) option" where
  "is_builtin O' cmd = map_of (builtins O') cmd"

section \<open>Lines and words\<close>

definition word_delims :: "char set" where
  "word_delims = {CHR '' '', CHR 0x09, newline, CHR 0x0D}"

text \<open>\<open>strtok\<close>: delimiters skipped, then the word up to the next, and where to go on.\<close>

definition strtok :: "char set \<Rightarrow> string \<Rightarrow> (string \<times> string) option" where
  "strtok d s = (let t = dropWhile (\<lambda>c. c \<in> d) s in
     if t = [] then None else Some (takeWhile (\<lambda>c. c \<notin> d) t, drop 1 (dropWhile (\<lambda>c. c \<notin> d) t)))"

text \<open>At most \<open>n\<close> words.\<close>

fun parse_words :: "nat \<Rightarrow> string \<Rightarrow> string list" where
  "parse_words 0 line = []"
| "parse_words (Suc n) line = (case strtok word_delims line of None \<Rightarrow> [] | Some (w, rest) \<Rightarrow> w # parse_words n rest)"

definition parse_line :: "string \<Rightarrow> string list" where
  "parse_line line = parse_words (MAX_ARGS - 1) (cstr line)"

text \<open>\<open>fgets\<close> into \<open>n\<close> bytes, again and again: up to a line break or \<open>n - 1\<close> bytes at a time.\<close>

fun fgets_all :: "nat \<Rightarrow> string \<Rightarrow> string list" where
  "fgets_all n [] = []"
| "fgets_all n (c # s) = (if n \<le> 1 then [] else let l = takeWhile (\<lambda>c. c \<noteq> newline) (take (n - 1) (c # s));
      k = (if length l < n - 1 \<and> length l < length (c # s) then length l + 1 else length l) in
      take k (c # s) # fgets_all n (drop k (c # s)))"

section \<open>Commands, the script, the shell\<close>

definition execute_external :: "'m shell_ops \<Rightarrow> string list \<Rightarrow> 'm \<Rightarrow> int \<times> 'm" where
  "execute_external O' args m = (let (r, m) = so_exec O' args m in
     case r of Exited status \<Rightarrow> (status, if status \<noteq> 0 then so_print O' (''Command '' @ hd args @ '' exited with status '' @ sdec status @ [newline]) m else m)
     | Other_end status \<Rightarrow> (1, so_print O' (''Command '' @ hd args @ '' exited with unknown status '' @ sdec status @ [newline]) m)
     | Fork_failed \<Rightarrow> (1, m))"

definition PROMPT :: string where
  "PROMPT = [CHR 0x1B] @ ''[0;32m# '' @ [CHR 0x1B] @ ''[0m''"

definition shell_line :: "'m shell_ops \<Rightarrow> string \<Rightarrow> 'm \<Rightarrow> 'm" where
  "shell_line O' line m = (let m = so_print O' PROMPT m; args = parse_line line in
     if args = [] then m
     else (case is_builtin O' (hd args) of Some f \<Rightarrow> f args m | None \<Rightarrow> snd (execute_external O' args m)))"

text \<open>\<open>input\<close> is everything typed up to the end of the input.\<close>

definition shell_loop :: "'m shell_ops \<Rightarrow> string \<Rightarrow> 'm \<Rightarrow> 'm" where
  "shell_loop O' input m = (let m = fold (shell_line O') (fgets_all MAX_LINE input) (builtin_help O' m) in
     builtin_exit O' (so_print O' [newline] (so_print O' PROMPT m)))"

definition run_command :: "'m shell_ops \<Rightarrow> string \<Rightarrow> 'm \<Rightarrow> int \<times> 'm" where
  "run_command O' cmd m = (let m = so_print O' (PROMPT @ cmd @ [newline]) m in execute_external O' (parse_line (take MAX_LINE cmd)) m)"

definition c_isspace :: "char \<Rightarrow> bool" where
  "c_isspace c \<longleftrightarrow> c \<in> {CHR '' '', CHR 0x09, CHR 0x0A, CHR 0x0B, CHR 0x0C, CHR 0x0D}"

definition script_command :: "string \<Rightarrow> string" where
  "script_command line = dropWhile c_isspace (takeWhile (\<lambda>c. c \<noteq> newline) (cstr line))"

fun init_sh_lines :: "'m shell_ops \<Rightarrow> string list \<Rightarrow> 'm \<Rightarrow> 'm" where
  "init_sh_lines O' [] m = m"
| "init_sh_lines O' (line # lines) m = (let cmd = script_command line in
     if cmd = [] \<or> hd cmd = CHR ''#'' then init_sh_lines O' lines m
     else let (status, m) = run_command O' cmd m in if status \<noteq> 0 then m else init_sh_lines O' lines m)"

definition run_init_sh :: "'m shell_ops \<Rightarrow> string option \<Rightarrow> 'm \<Rightarrow> 'm" where
  "run_init_sh O' file m = (case file of None \<Rightarrow> m | Some text \<Rightarrow> init_sh_lines O' (fgets_all MAX_LINE text) m)"

text \<open>Reading past the end of the environment and writing past \<open>cmdline[63]\<close> have no meaning in C; each is an outcome of its own.\<close>

definition run_sched_test :: "'m shell_ops \<Rightarrow> string list \<Rightarrow> string list \<Rightarrow> 'm \<Rightarrow> 'm outcome" where
  "run_sched_test O' argv envp m = (let cmdline = [''insmod'', ''kmod.ko''] @ drop 2 argv @ drop 2 envp in
     if length envp < 2 then Inl ''out of bounds: envp[]''
     else if length cmdline \<ge> MAX_ARGS then Inl ''out of bounds: cmdline[]''
     else Inr (snd (execute_external O' cmdline m)))"

definition old_init_main :: "'m shell_ops \<Rightarrow> string list \<Rightarrow> string list \<Rightarrow> string option \<Rightarrow> string \<Rightarrow> 'm \<Rightarrow> 'm outcome" where
  "old_init_main O' argv envp script input m =
     bind_outcome (mount_filesystems O' (so_print O' (''Welcome to kSTEP'' @ [newline]) (so_print O' [newline] m))) (\<lambda>m.
     bind_outcome (run_sched_test O' argv envp (so_affinity O' m)) (\<lambda>m.
     Inr (builtin_exit O' (shell_loop O' input (so_ignore_children O' (run_init_sh O' script m))))))"

section \<open>echo\<close>

text \<open>The words to print and the file: \<open>None\<close> for a \<open>>\<close> with nothing behind it.\<close>

fun echo_split :: "string list \<Rightarrow> (string list \<times> string option) option" where
  "echo_split [] = Some ([], None)"
| "echo_split (a # as) = (if a = ''>'' then (case as of [] \<Rightarrow> None | f # _ \<Rightarrow> Some ([], Some f))
     else map_option (\<lambda>(ws, f). (a # ws, f)) (echo_split as))"

text \<open>The bytes of the buffer that are to be written; more of them than it has, no meaning in C, is an outcome of its own.\<close>

fun echo_buffer :: "string list \<Rightarrow> string \<Rightarrow> string outcome" where
  "echo_buffer [] buf = Inr buf"
| "echo_buffer (w # ws) buf = (let buf = buf @ w in
     if length buf > MAX_LINE then Inl ''out of bounds: buffer[]''
     else if length buf = MAX_LINE then Inr buf
     else echo_buffer ws (buf @ [if ws = [] then newline else CHR '' '']))"

datatype echo_out = Echo_error | Echo_wrote "string option" string

text \<open>\<open>args\<close> is the command line without the program's name; \<open>opens\<close> says whether a file opens.\<close>

definition echo_main :: "(string \<Rightarrow> bool) \<Rightarrow> string list \<Rightarrow> echo_out outcome" where
  "echo_main opens args = (case echo_split args of None \<Rightarrow> Inr Echo_error
   | Some (ws, file) \<Rightarrow> if (case file of None \<Rightarrow> False | Some f \<Rightarrow> \<not> opens f) then Inr Echo_error
       else bind_outcome (echo_buffer ws []) (\<lambda>buf. Inr (Echo_wrote file buf)))"

section \<open>insmod\<close>

text \<open>
  \<open>strncat\<close> at the end of the parameters, with the room the code computes: the size of the array less
  the bytes used, without the terminator, and all of memory once more bytes are used than there are.
\<close>

definition strncat_params :: "string \<Rightarrow> string \<Rightarrow> string outcome" where
  "strncat_params params src = (let n = (if length params \<le> 1024 then 1024 - length params else 2 ^ 64 + 1024 - length params) in
     if length params + min (length src) n + 1 > 1024 then Inl ''out of bounds: params[]'' else Inr (params @ take n src))"

definition insmod_params :: "string list \<Rightarrow> string outcome" where
  "insmod_params args = fold_outcome (\<lambda>a ps. bind_outcome (strncat_params ps a) (\<lambda>ps. strncat_params ps '' '')) args []"

text \<open>Opening the file, its size and mapping it may each fail; \<open>io_init_module\<close> is the system call with the path's contents.\<close>

record 'm insmod_ops =
  io_open :: "'m \<Rightarrow> string \<Rightarrow> bool"
  io_fstat :: "'m \<Rightarrow> string \<Rightarrow> bool"
  io_mmap :: "'m \<Rightarrow> string \<Rightarrow> bool"
  io_init_module :: "string \<Rightarrow> string \<Rightarrow> 'm \<Rightarrow> bool \<times> 'm"

text \<open>The exit status and the machine; \<open>args\<close> is the command line without the program's name.\<close>

definition insmod_main :: "'m insmod_ops \<Rightarrow> string list \<Rightarrow> 'm \<Rightarrow> (int \<times> 'm) outcome" where
  "insmod_main O' args m = (case args of [] \<Rightarrow> Inr (1, m)
   | path # rest \<Rightarrow> if \<not> io_open O' m path \<or> \<not> io_fstat O' m path \<or> \<not> io_mmap O' m path then Inr (1, m)
       else bind_outcome (insmod_params rest) (\<lambda>params. let (ok, m) = io_init_module O' path params m in Inr (if ok then 0 else 1, m)))"

section \<open>The words of a line\<close>

lemma strsep_all_split:
  "strsep_all d s = takeWhile (\<lambda>c. c \<notin> d) s # (case dropWhile (\<lambda>c. c \<notin> d) s of [] \<Rightarrow> [] | _ # r \<Rightarrow> strsep_all d r)"
  by (subst strsep_all.simps) (cases "dropWhile (\<lambda>c. c \<notin> d) s", simp_all add: strsep_def del: dropWhile_eq_Nil_conv)

definition words_of :: "string \<Rightarrow> string list" where
  "words_of s = filter (\<lambda>w. w \<noteq> []) (strsep_all word_delims s)"

lemma words_of_skip: "words_of s = words_of (dropWhile (\<lambda>c. c \<in> word_delims) s)"
  by (induction s) (simp_all add: words_of_def)

lemma words_of_strtok: "words_of s = (case strtok word_delims s of None \<Rightarrow> [] | Some (w, rest) \<Rightarrow> w # words_of rest)"
proof -
  let ?t = "dropWhile (\<lambda>c. c \<in> word_delims) s"
  have s: "words_of s = words_of ?t" by (rule words_of_skip)
  show ?thesis
  proof (cases "?t = []")
    case True
    show ?thesis unfolding s True by (simp add: strtok_def words_of_def True del: dropWhile_eq_Nil_conv)
  next
    case False
    let ?w = "takeWhile (\<lambda>c. c \<notin> word_delims) ?t" and ?r = "dropWhile (\<lambda>c. c \<notin> word_delims) ?t"
    have "hd ?t \<notin> word_delims" using hd_dropWhile[OF False] .
    then have w: "?w \<noteq> []" using False by (cases ?t) auto
    have "words_of ?t = ?w # words_of (drop 1 ?r)"
    proof (cases ?r)
      case Nil
      show ?thesis using w by (simp only: words_of_def strsep_all_split[of word_delims ?t] Nil) simp
    next
      case (Cons c r)
      show ?thesis using w by (simp only: words_of_def strsep_all_split[of word_delims ?t] Cons) simp
    qed
    then show ?thesis unfolding s using False by (simp add: strtok_def Let_def)
  qed
qed

lemma parse_words_take: "parse_words n s = take n (words_of s)"
proof (induction n arbitrary: s)
  case (Suc n)
  show ?case using words_of_strtok[of s] Suc by (cases "strtok word_delims s") auto
qed simp

section \<open>The script\<close>

lemma takeWhile_take_short: "length (takeWhile P xs) \<le> m \<Longrightarrow> takeWhile P (take m xs) = takeWhile P xs"
  by (induction xs arbitrary: m) (auto simp: take_Cons split: nat.splits)

lemma fgets_line:
  assumes "length (takeWhile (\<lambda>c. c \<noteq> newline) body) < n - 1" "body \<noteq> []"
  shows "fgets_all n body = (case dropWhile (\<lambda>c. c \<noteq> newline) body of [] \<Rightarrow> [body] | _ # r \<Rightarrow> (takeWhile (\<lambda>c. c \<noteq> newline) body @ [newline]) # fgets_all n r)"
proof -
  let ?l = "takeWhile (\<lambda>c. c \<noteq> newline) body"
  have l: "takeWhile (\<lambda>c. c \<noteq> newline) (take (n - 1) body) = ?l" using assms(1) by (intro takeWhile_take_short) simp
  obtain c t where ct: "body = c # t" using assms(2) by (cases body) auto
  have f: "fgets_all n body = (let k = (if length ?l < length body then length ?l + 1 else length ?l) in take k body # fgets_all n (drop k body))"
    using assms(1) l unfolding ct by (simp add: Let_def)
  show ?thesis
  proof (cases "dropWhile (\<lambda>c. c \<noteq> newline) body")
    case Nil
    have "?l = body" using takeWhile_dropWhile_id[of "\<lambda>c. c \<noteq> newline" body] unfolding Nil by simp
    show ?thesis unfolding f Nil \<open>?l = body\<close> by simp
  next
    case (Cons d r)
    then have "d = newline" using hd_dropWhile[of "\<lambda>c. c \<noteq> newline" body] by simp
    then have t: "body = ?l @ newline # r" using takeWhile_dropWhile_id[of "\<lambda>c. c \<noteq> newline" body] Cons by metis
    then have "length ?l < length body" by (metis length_append length_Cons less_add_Suc1 add_Suc_right)
    moreover have "take (length ?l + 1) body = ?l @ [newline]" "drop (length ?l + 1) body = r" using t by (metis append_Cons append_Nil append_assoc length_append_singleton append_eq_conv_conj Suc_eq_plus1)+
    ultimately show ?thesis unfolding f Cons by simp
  qed
qed

text \<open>The commands of a script: its lines without leading blanks, but for the empty ones and the comments.\<close>

definition is_script_command :: "string \<Rightarrow> bool" where
  "is_script_command c \<longleftrightarrow> c \<noteq> [] \<and> hd c \<noteq> CHR ''#''"

definition script_commands :: "string \<Rightarrow> string list" where
  "script_commands body = filter is_script_command (map (dropWhile c_isspace) (strsep_all {newline} body))"

lemma cstr_id: "CHR 0x00 \<notin> set s \<Longrightarrow> cstr s = s"
  unfolding cstr_def by (auto simp: takeWhile_eq_all_conv)

lemma script_commands_fgets:
  "CHR 0x00 \<notin> set body \<Longrightarrow> list_all (\<lambda>l. length l < n - 1) (strsep_all {newline} body) \<Longrightarrow>
    filter is_script_command (map script_command (fgets_all n body)) = script_commands body"
proof (induction "length body" arbitrary: body rule: less_induct)
  case less
  let ?l = "takeWhile (\<lambda>c. c \<noteq> newline) body"
  have split: "strsep_all {newline} body = ?l # (case dropWhile (\<lambda>c. c \<noteq> newline) body of [] \<Rightarrow> [] | _ # r \<Rightarrow> strsep_all {newline} r)"
    using strsep_all_split[of "{newline}" body] by simp
  have short: "length ?l < n - 1" using less.prems(2) split by simp
  show ?case
  proof (cases "body = []")
    case True
    then show ?thesis by (simp add: script_commands_def is_script_command_def)
  next
    case False
    note f = fgets_line[OF short False]
    show ?thesis
    proof (cases "dropWhile (\<lambda>c. c \<noteq> newline) body")
      case Nil
      then have "?l = body" using takeWhile_dropWhile_id[of "\<lambda>c. c \<noteq> newline" body] by simp
      then show ?thesis unfolding f script_commands_def split Nil by (simp add: script_command_def cstr_id[OF less.prems(1)])
    next
      case (Cons d r)
      then have "d = newline" using hd_dropWhile[of "\<lambda>c. c \<noteq> newline" body] by simp
      then have t: "body = ?l @ newline # r" using takeWhile_dropWhile_id[of "\<lambda>c. c \<noteq> newline" body] Cons by metis
      have r: "length r < length body" "CHR 0x00 \<notin> set r" "CHR 0x00 \<notin> set ?l"
        using t less.prems(1) by (metis length_append length_Cons less_add_Suc2 add_Suc_right, metis Un_iff set_append list.set_intros(2), metis Un_iff set_append)
      have "list_all (\<lambda>l. length l < n - 1) (strsep_all {newline} r)" using less.prems(2) split Cons by simp
      note ih = less.hyps[OF r(1,2) this]
      have "script_command (?l @ [newline]) = dropWhile c_isspace ?l"
        using r(3) by (simp add: script_command_def cstr_id takeWhile_append)
      then show ?thesis unfolding f script_commands_def split Cons using ih by (simp add: script_commands_def)
    qed
  qed
qed

text \<open>Commands one after the other, each as its words, up to the first that fails.\<close>

fun run_script :: "'m shell_ops \<Rightarrow> string list \<Rightarrow> 'm \<Rightarrow> 'm" where
  "run_script O' [] m = m"
| "run_script O' (c # cs) m = (let (status, m) = execute_external O' (take 63 (words_of c)) (so_print O' (PROMPT @ c @ [newline]) m) in
     if status \<noteq> 0 then m else run_script O' cs m)"

lemma init_sh_lines_script:
  "list_all (\<lambda>l. CHR 0x00 \<notin> set (script_command l) \<and> length (script_command l) \<le> 1024) lines \<Longrightarrow>
    init_sh_lines O' lines m = run_script O' (filter is_script_command (map script_command lines)) m"
proof (induction lines arbitrary: m)
  case (Cons l ls)
  have "run_command O' (script_command l) m = execute_external O' (take 63 (words_of (script_command l))) (so_print O' (PROMPT @ script_command l @ [newline]) m)"
    using Cons.prems by (simp add: run_command_def parse_line_def parse_words_take cstr_id)
  then show ?case using Cons by (auto simp: is_script_command_def Let_def split: prod.splits)
qed simp

lemma fgets_all_member: "l \<in> set (fgets_all n s) \<Longrightarrow> set l \<subseteq> set s \<and> length l \<le> n - 1"
proof (induction n s rule: fgets_all.induct)
  case (2 n c s)
  let ?l = "takeWhile (\<lambda>c. c \<noteq> newline) (take (n - 1) (c # s))"
  let ?k = "if length ?l < n - 1 \<and> length ?l < length (c # s) then length ?l + 1 else length ?l"
  have "length ?l \<le> n - 1" using length_takeWhile_le[of "\<lambda>c. c \<noteq> newline" "take (n - 1) (c # s)"] by (simp del: take_Cons')
  then have k: "?k \<le> n - 1" by auto
  show ?case
  proof (cases "n \<le> 1")
    case False
    then have "fgets_all n (c # s) = take ?k (c # s) # fgets_all n (drop ?k (c # s))"
      by (simp only: fgets_all.simps(2) Let_def if_False)
    then have "l = take ?k (c # s) \<or> l \<in> set (fgets_all n (drop ?k (c # s)))" using 2(2) by (metis set_ConsD)
    then show ?thesis
    proof
      assume l: "l = take ?k (c # s)"
      have "length l \<le> ?k" unfolding l length_take by (rule min.cobounded2)
      then have "length l \<le> n - 1" using k by (rule le_trans)
      moreover have "set l \<subseteq> set (c # s)" unfolding l by (rule set_take_subset)
      ultimately show ?thesis by (rule conjI[rotated])
    next
      assume "l \<in> set (fgets_all n (drop ?k (c # s)))"
      from 2(1)[OF False refl refl this] show ?thesis using set_drop_subset[of ?k "c # s"] by blast
    qed
  qed (use 2(2) in simp)
qed simp

text \<open>
  The start-up script is run line by line: for a script of lines shorter than the buffer, its commands
  (not the blank lines, not the comments) are executed in order, each as its words and at most 63 of
  them, and the first that fails ends the script.
\<close>
theorem init_script_runs_its_lines:
  assumes "CHR 0x00 \<notin> set body" "list_all (\<lambda>l. length l < 1023) (strsep_all {newline} body)"
  shows "run_init_sh O' (Some body) m = run_script O' (script_commands body) m"
proof -
  have "CHR 0x00 \<notin> set (script_command l) \<and> length (script_command l) \<le> 1024" if "l \<in> set (fgets_all 1024 body)" for l
  proof -
    have l: "set l \<subseteq> set body" "length l \<le> 1023" using fgets_all_member[OF that] by auto
    have "set (script_command l) \<subseteq> set l"
      unfolding script_command_def cstr_def by (blast dest: set_dropWhileD set_takeWhileD)
    moreover have "length (script_command l) \<le> length l"
      unfolding script_command_def cstr_def by (rule le_trans[OF length_dropWhile_le le_trans[OF length_takeWhile_le length_takeWhile_le]])
    ultimately show ?thesis using l assms(1) by auto
  qed
  then have "list_all (\<lambda>l. CHR 0x00 \<notin> set (script_command l) \<and> length (script_command l) \<le> 1024) (fgets_all 1024 body)"
    by (simp add: list_all_iff)
  from init_sh_lines_script[OF this] show ?thesis
    using script_commands_fgets[OF assms(1), of 1024] assms(2) by (simp add: run_init_sh_def)
qed

text \<open>A machine that keeps the commands it is given; one command fails.\<close>

definition demo_shell :: "string list list shell_ops" where
  "demo_shell = \<lparr>so_mkdir = (\<lambda>_ m. (0, m)), so_mount = (\<lambda>_ _ m. (True, m)), so_affinity = id, so_chdir = (\<lambda>_ m. m), so_print = (\<lambda>_ m. m),
     so_getcwd = (\<lambda>_. None), so_poweroff = id, so_exec = (\<lambda>args m. (Exited (if hd args = ''busy'' then 1 else 0), m @ [args])), so_ignore_children = id\<rparr>"

theorem init_script_runs_its_lines_witness:
  "run_init_sh demo_shell (Some (''cgroup a'' @ [newline] @ ''# stat'' @ [newline] @ ''busy'' @ [newline] @ ''ls'')) [] = [[''cgroup'', ''a''], [''busy'']]"
proof -
  let ?b = "''cgroup a'' @ [newline] @ ''# stat'' @ [newline] @ ''busy'' @ [newline] @ ''ls''"
  have lines: "strsep_all {newline} ?b = [''cgroup a'', ''# stat'', ''busy'', ''ls'']"
    by (simp add: strsep_all_split del: strsep_all_Cons)
  have ok: "CHR 0x00 \<notin> set ?b" "list_all (\<lambda>l. length l < 1023) (strsep_all {newline} ?b)"
    unfolding lines by simp_all
  have cs: "script_commands ?b = [''cgroup a'', ''busy'', ''ls'']"
    unfolding script_commands_def lines by (simp add: is_script_command_def c_isspace_def)
  have ws: "words_of ''cgroup a'' = [''cgroup'', ''a'']" "words_of ''busy'' = [''busy'']"
    by (simp_all add: words_of_def word_delims_def strsep_all_split del: strsep_all_Cons)
  show ?thesis unfolding init_script_runs_its_lines[OF ok, of demo_shell] cs
    by (simp add: ws execute_external_def demo_shell_def)
qed

section \<open>The tools\<close>

definition params_text :: "string list \<Rightarrow> string" where
  "params_text args = concat (map (\<lambda>a. a @ '' '') args)"

lemma strncat_params_eq:
  "length ps < 1024 \<Longrightarrow> strncat_params ps src = (if length ps + length src < 1024 then Inr (ps @ src) else Inl ''out of bounds: params[]'')"
  by (auto simp: strncat_params_def Let_def min_def)

text \<open>
  The module gets every parameter, each followed by a blank, exactly when they fit the array with its
  terminator; one byte more and the tool writes past the array, which its length arguments are meant
  to prevent.
\<close>
theorem insmod_params_exact:
  "insmod_params args = (if length (params_text args) < 1024 then Inr (params_text args) else Inl ''out of bounds: params[]'')"
proof -
  have "fold_outcome (\<lambda>a ps. bind_outcome (strncat_params ps a) (\<lambda>ps. strncat_params ps '' '')) args ps
      = (if length ps + length (params_text args) < 1024 then Inr (ps @ params_text args) else Inl ''out of bounds: params[]'')" if "length ps < 1024" for ps
    using that
  proof (induction args arbitrary: ps)
    case (Cons a args)
    show ?case
    proof (cases "length ps + length a + 1 < 1024")
      case True
      then have "strncat_params ps a = Inr (ps @ a)" "strncat_params (ps @ a) '' '' = Inr (ps @ a @ '' '')"
        using Cons.prems by (simp_all add: strncat_params_eq)
      then show ?thesis using Cons.IH[of "ps @ a @ '' ''"] True by (simp add: params_text_def)
    next
      case False
      then show ?thesis using Cons.prems by (simp add: strncat_params_eq params_text_def)
    qed
  qed (simp add: params_text_def)
  from this[of "[]"] show ?thesis by (simp add: insmod_params_def)
qed

fun echo_text :: "string list \<Rightarrow> string" where
  "echo_text [] = []"
| "echo_text [w] = w @ [newline]"
| "echo_text (w # ws) = w @ '' '' @ echo_text ws"

lemma echo_buffer_text: "length buf + length (echo_text ws) \<le> 1024 \<Longrightarrow> echo_buffer ws buf = Inr (buf @ echo_text ws)"
proof (induction ws arbitrary: buf)
  case (Cons w ws)
  note ih = Cons.IH and short = Cons.prems
  show ?case
  proof (cases ws)
    case Nil
    then show ?thesis using short by simp
  next
    case (Cons v vs)
    then have ne: "ws \<noteq> []" by simp
    from Cons have t: "echo_text (w # ws) = w @ '' '' @ echo_text ws" by simp
    have "echo_buffer (w # ws) buf = echo_buffer ws (buf @ w @ '' '')"
      using short ne unfolding t echo_buffer.simps(2) Let_def by (simp del: echo_buffer.simps echo_text.simps)
    also have "\<dots> = Inr (buf @ w @ '' '' @ echo_text ws)" using ih[of "buf @ w @ '' ''"] short unfolding t by simp
    finally show ?thesis unfolding t by simp
  qed
qed simp

text \<open>Words that fit the buffer are printed with blanks between them and a line break, to the file behind a \<open>>\<close> if there is one.\<close>

lemma echo_prints_its_words:
  assumes "''>'' \<notin> set ws" "length (echo_text ws) \<le> 1024"
  shows "echo_main opens ws = Inr (Echo_wrote None (echo_text ws))"
    "opens f \<Longrightarrow> echo_main opens (ws @ ''>'' # f # rest) = Inr (Echo_wrote (Some f) (echo_text ws))"
proof -
  have "echo_split ws = Some (ws, None)" "echo_split (ws @ ''>'' # f # rest) = Some (ws, Some f)" using assms(1) by (induction ws) auto
  then show "echo_main opens ws = Inr (Echo_wrote None (echo_text ws))"
    "opens f \<Longrightarrow> echo_main opens (ws @ ''>'' # f # rest) = Inr (Echo_wrote (Some f) (echo_text ws))"
    using echo_buffer_text[of "[]" ws] assms(2) by (simp_all add: echo_main_def)
qed

end
