(* ===== verification/Old_Tools.thy ===== *)
theory Old_Tools
  imports Old_Shell Reset
begin

text \<open>
  The rest of the archived user space and an archived printer (docs/archive/cat.c, stat.c, ls.c, mkdir.c,
  rmmod.c, ps.c and json.c): what each tool prints and returns, and the scheduler's state written to the
  log as JSON. Files and directories are arguments; what goes to the error stream is left out.
\<close>

section \<open>Files and directories\<close>

text \<open>The exit status and what is printed; \<open>args\<close> is the command line without the program's name.\<close>

type_synonym tool_result = "int \<times> string"

definition cat_main :: "(string \<Rightarrow> string option) \<Rightarrow> string list \<Rightarrow> tool_result" where
  "cat_main files args = (case args of
     [path] \<Rightarrow> (case files path of None \<Rightarrow> (1, []) | Some body \<Rightarrow> (0, concat (map cstr (fgets_all 1024 body))))
   | _ \<Rightarrow> (1, []))"

definition stat_main :: "(string \<Rightarrow> string option) \<Rightarrow> tool_result" where
  "stat_main files = (case files ''/sys/kernel/debug/sched/debug'' of None \<Rightarrow> (1, [])
   | Some body \<Rightarrow> (0, concat (map cstr (fgets_all 4096 body))))"

text \<open>\<open>dirs\<close>: the entries of a directory as \<open>readdir\<close> gives them.\<close>

definition ls_main :: "(string \<Rightarrow> string list option) \<Rightarrow> string list \<Rightarrow> tool_result" where
  "ls_main dirs args = (let path = (case args of [p] \<Rightarrow> p | _ \<Rightarrow> ''.'') in
     case dirs path of None \<Rightarrow> (1, [])
     | Some es \<Rightarrow> (0, concat (map (\<lambda>e. e @ ''  '' @ [newline]) (filter (\<lambda>e. e \<noteq> ''.'' \<and> e \<noteq> ''..'') es))))"

definition mkdir_main :: "(string \<Rightarrow> 'm \<Rightarrow> int \<times> 'm) \<Rightarrow> string list \<Rightarrow> 'm \<Rightarrow> int \<times> 'm" where
  "mkdir_main mkdir args m = (case args of [d] \<Rightarrow> let (ret, m) = mkdir d m in (if ret \<noteq> 0 then 1 else 0, m) | _ \<Rightarrow> (1, m))"

definition rmmod_main :: "(string \<Rightarrow> 'm \<Rightarrow> int \<times> 'm) \<Rightarrow> string list \<Rightarrow> 'm \<Rightarrow> int \<times> 'm" where
  "rmmod_main delete_module args m = (case args of [n] \<Rightarrow> let (ret, m) = delete_module n m in (if ret = - 1 then 1 else 0, m) | _ \<Rightarrow> (1, m))"

section \<open>ps\<close>

text \<open>\<open>sscanf\<close> with \<^verbatim>\<open>%d %s %c %d\<close>: each conversion skips blanks first and may find nothing.\<close>

definition is_decimal :: "char \<Rightarrow> bool" where
  "is_decimal c \<longleftrightarrow> (of_char c :: nat) \<ge> 48 \<and> (of_char c :: nat) \<le> 57"

definition scan_int :: "string \<Rightarrow> (int \<times> string) option" where
  "scan_int s = (let t = dropWhile c_isspace s; neg = (t \<noteq> [] \<and> hd t = CHR ''-''); u = (if t \<noteq> [] \<and> hd t \<in> {CHR ''-'', CHR ''+''} then tl t else t);
     ds = takeWhile is_decimal u in
     if ds = [] then None else Some (if neg then - int (undec ds) else int (undec ds), dropWhile is_decimal u))"

definition scan_word :: "string \<Rightarrow> (string \<times> string) option" where
  "scan_word s = (let t = dropWhile c_isspace s in if t = [] then None else Some (takeWhile (\<lambda>c. \<not> c_isspace c) t, dropWhile (\<lambda>c. \<not> c_isspace c) t))"

definition scan_char :: "string \<Rightarrow> (char \<times> string) option" where
  "scan_char s = (case dropWhile c_isspace s of [] \<Rightarrow> None | c # r \<Rightarrow> Some (c, r))"

definition scan_stat :: "string \<Rightarrow> (int \<times> string \<times> char \<times> int) option" where
  "scan_stat line = Option.bind (scan_int line) (\<lambda>(pid, r). Option.bind (scan_word r) (\<lambda>(comm, r).
     Option.bind (scan_char r) (\<lambda>(state, r). Option.bind (scan_int r) (\<lambda>(ppid, _). Some (pid, comm, state, ppid)))))"

text \<open>
  The name without its parentheses: the bytes behind the first moved one to the left, as many as are
  wanted, and a 0 written over the last but one of the string.
\<close>

definition strip_parens :: "string \<Rightarrow> string" where
  "strip_parens comm = (if comm \<noteq> [] \<and> hd comm = CHR ''('' \<and> last comm = CHR '')''
     then let n = length comm; moved = take (n - 2) (tl comm) @ drop (n - 2) comm in take (length moved - 2) moved else comm)"

definition pad :: "nat \<Rightarrow> string \<Rightarrow> string" where
  "pad n s = s @ replicate (n - length s) CHR '' ''"

definition ps_line :: "string \<Rightarrow> string \<Rightarrow> string \<Rightarrow> string \<Rightarrow> string" where
  "ps_line a b c d = pad 8 a @ '' '' @ pad 8 b @ '' '' @ pad 8 c @ '' '' @ d @ [newline]"

text \<open>
  One entry of \<open>/proc\<close>. A conversion that finds nothing leaves its variable without a value, and a word
  of 256 bytes does not fit \<open>comm\<close>; each is an outcome of its own.
\<close>

definition ps_entry :: "(string \<Rightarrow> string option) \<Rightarrow> string \<Rightarrow> string outcome" where
  "ps_entry files name = (if name = [] \<or> \<not> is_decimal (hd name) then Inr []
     else case files (take 511 (''/proc/'' @ name @ ''/stat'')) of None \<Rightarrow> Inr []
     | Some body \<Rightarrow> (case fgets_all 1024 body of [] \<Rightarrow> Inr []
         | line # _ \<Rightarrow> (case scan_stat (cstr line) of None \<Rightarrow> Inl ''no value: pid, comm, state or ppid''
             | Some (pid, comm, state, ppid) \<Rightarrow> if length comm \<ge> 256 then Inl ''out of bounds: comm[]''
                 else Inr (ps_line (sdec pid) (sdec ppid) [state] (strip_parens comm)))))"

definition ps_main :: "(string \<Rightarrow> string option) \<Rightarrow> string list option \<Rightarrow> tool_result outcome" where
  "ps_main files proc = (let head = ps_line ''PID'' ''PPID'' ''STAT'' ''CMD'' @ ps_line ''---'' ''----'' ''----'' ''---'' in
     case proc of None \<Rightarrow> Inr (1, head)
     | Some es \<Rightarrow> bind_outcome (fold_outcome (\<lambda>e out. bind_outcome (ps_entry files e) (\<lambda>l. Inr (out @ l))) es head) (\<lambda>out. Inr (0, out)))"

section \<open>The state of the scheduler as JSON\<close>

text \<open>What the lines are made of, at the widths they are printed with.\<close>

record json_rq =
  rj_cpu :: int
  rj_nr_running :: int
  rj_nr_switches :: u64
  rj_nr_uninterruptible :: int
  rj_next_balance :: u64
  rj_curr_pid :: int
  rj_clock :: u64
  rj_clock_task :: u64
  rj_avg_idle :: u64
  rj_max_idle_cost :: u64
  rj_min_vruntime :: u64
  rj_avg_vruntime :: u64
  rj_nr_queued :: u32
  rj_h_nr_runnable :: u32
  rj_h_nr_queued :: u32
  rj_h_nr_idle :: u32
  rj_load :: u64
  rj_load_avg :: u64
  rj_runnable_avg :: u64
  rj_util_avg :: u64
  rj_util_est :: int
  rj_removed_load :: u64
  rj_removed_util :: u64
  rj_removed_runnable :: u64
  rj_tg_contrib :: u64
  rj_tg_load_avg :: int
  rj_rt_nr_running :: u32
  rj_dl_nr_running :: u32
  rj_dl_bw :: u64
  rj_dl_total_bw :: u64

record task_view =
  tj_pid :: int
  tj_comm :: string
  tj_ppid :: int
  tj_cpu :: int
  tj_on_cpu :: int
  tj_state :: char
  tj_vruntime :: u64
  tj_deadline :: u64
  tj_slice :: u64
  tj_sum_exec :: u64
  tj_switches :: u64
  tj_prio :: int
  tj_node :: int

record sd_view =
  dj_name :: string
  dj_last_balance :: u64
  dj_balance_interval :: u32
  dj_nr_balance_failed :: u32
  dj_min_interval :: u64
  dj_max_interval :: u64
  dj_max_newidle_cost :: u64
  dj_busy_factor :: u32
  dj_imbalance_pct :: u32
  dj_cache_nice_tries :: u32
  dj_imb_numa_nr :: u32
  dj_nohz_idle :: int
  dj_flags :: u32
  dj_level :: u32
  dj_span_weight :: u32

abbreviation quote :: char where "quote \<equiv> CHR 0x22"

definition udec :: "'a :: len word \<Rightarrow> string" where
  "udec w = dec (unat w)"

definition json_field :: "string \<times> string \<Rightarrow> string" where
  "json_field f = [quote] @ fst f @ [quote] @ '': '' @ snd f"

fun json_fields :: "(string \<times> string) list \<Rightarrow> string" where
  "json_fields [] = []"
| "json_fields [f] = json_field f"
| "json_fields (f # fs) = json_field f @ '', '' @ json_fields fs"

definition json_line :: "string \<Rightarrow> (string \<times> string) list \<Rightarrow> string" where
  "json_line key fs = ''{'' @ [quote] @ key @ [quote] @ '': {'' @ json_fields fs @ ''}}''"

definition print_rq_json :: "nat \<Rightarrow> json_rq \<Rightarrow> string list" where
  "print_rq_json v rq = (let cpu = ''['' @ sdec (rj_cpu rq) @ '']''; since = (\<lambda>a b w. if v \<ge> KERNEL_VERSION a b 0 then udec w else ''0'') in
     [json_line (''rq'' @ cpu) [(''nr_running'', sdec (rj_nr_running rq)), (''nr_switches'', udec (rj_nr_switches rq)),
        (''nr_uninterruptible'', sdec (rj_nr_uninterruptible rq)), (''next_balance'', udec (rj_next_balance rq)), (''curr->pid'', sdec (rj_curr_pid rq)),
        (''clock'', udec (rj_clock rq)), (''clock_task'', udec (rj_clock_task rq)), (''avg_idle'', udec (rj_avg_idle rq)), (''max_idle_balance_cost'', udec (rj_max_idle_cost rq))],
      json_line (''cfs_rq'' @ cpu) [(''min_vruntime'', udec (rj_min_vruntime rq)), (''avg_vruntime'', since 6 6 (rj_avg_vruntime rq)),
        (''nr_queued'', since 6 14 (ucast (rj_nr_queued rq) :: u64)), (''h_nr_runnable'', since 6 14 (ucast (rj_h_nr_runnable rq))), (''h_nr_queued'', since 6 14 (ucast (rj_h_nr_queued rq))),
        (''h_nr_idle'', since 6 14 (ucast (rj_h_nr_idle rq))), (''load'', udec (rj_load rq)), (''load_avg'', udec (rj_load_avg rq)), (''runnable_avg'', udec (rj_runnable_avg rq)),
        (''util_avg'', udec (rj_util_avg rq)), (''util_est'', sdec (rj_util_est rq)), (''removed.load_avg'', udec (rj_removed_load rq)),
        (''removed.util_avg'', udec (rj_removed_util rq)), (''removed.runnable_avg'', udec (rj_removed_runnable rq)),
        (''tg_load_avg_contrib'', udec (rj_tg_contrib rq)), (''tg_load_avg'', sdec (rj_tg_load_avg rq))],
      json_line (''rt_rq'' @ cpu) [(''rt_nr_running'', udec (rj_rt_nr_running rq))],
      json_line (''dl_rq'' @ cpu) [(''dl_nr_running'', udec (rj_dl_nr_running rq)), (''bw'', udec (rj_dl_bw rq)), (''total_bw'', udec (rj_dl_total_bw rq))]])"

definition print_task_json :: "nat \<Rightarrow> task_view \<Rightarrow> string" where
  "print_task_json v p = (let since = (\<lambda>w. if v \<ge> KERNEL_VERSION 6 6 0 then udec w else ''0'') in
     json_line (''tasks['' @ sdec (tj_pid p) @ '']'') [(''comm'', [quote] @ tj_comm p @ [quote]), (''pid'', sdec (tj_pid p)), (''ppid'', sdec (tj_ppid p)),
       (''cpu'', sdec (tj_cpu p)), (''on_cpu'', sdec (tj_on_cpu p)), (''task_state'', [quote, tj_state p, quote]), (''vruntime'', udec (tj_vruntime p)),
       (''deadline'', since (tj_deadline p)), (''slice'', since (tj_slice p)), (''sum-exec'', udec (tj_sum_exec p)), (''switches'', udec (tj_switches p)),
       (''prio'', sdec (tj_prio p)), (''node'', sdec (tj_node p))])"

definition print_sd_json :: "sd_view \<Rightarrow> string" where
  "print_sd_json sd = ''{'' @ [quote] @ ''sd['' @ [quote] @ dj_name sd @ [quote] @ '']'' @ [quote] @ '': {'' @
     json_fields [(''last_balance'', udec (dj_last_balance sd)), (''balance_interval'', udec (dj_balance_interval sd)), (''nr_balance_failed'', udec (dj_nr_balance_failed sd)),
       (''min_interval'', udec (dj_min_interval sd)), (''max_interval'', udec (dj_max_interval sd)), (''max_newidle_lb_cost'', udec (dj_max_newidle_cost sd)),
       (''busy_factor'', udec (dj_busy_factor sd)), (''imbalance_pct'', udec (dj_imbalance_pct sd)), (''cache_nice_tries'', udec (dj_cache_nice_tries sd)),
       (''imb_numa_nr'', udec (dj_imb_numa_nr sd)), (''nohz_idle'', sdec (dj_nohz_idle sd)), (''flags'', udec (dj_flags sd)), (''level'', udec (dj_level sd)),
       (''span_weight'', udec (dj_span_weight sd))] @ '' }}''"

text \<open>\<open>rqs\<close> and \<open>domains\<close>: a CPU's runqueue and its domains from the inside out; \<open>tasks\<close>: every thread.\<close>

definition print_sched_state_json :: "nat \<Rightarrow> nat \<Rightarrow> (nat \<Rightarrow> json_rq) \<Rightarrow> (nat \<Rightarrow> sd_view list) \<Rightarrow> task_view list \<Rightarrow> string list" where
  "print_sched_state_json v num_online_cpus rqs domains tasks =
     concat (map (print_rq_json v \<circ> rqs) [1..<num_online_cpus]) @ concat (map (map print_sd_json \<circ> domains) [1..<num_online_cpus])
     @ map (print_task_json v) (filter (\<lambda>p. tj_cpu p \<noteq> 0) tasks)"

section \<open>What the tools print\<close>

lemma fgets_all_concat: "n > 1 \<Longrightarrow> concat (fgets_all n s) = s"
proof (induction n s rule: fgets_all.induct)
  case (2 n c s)
  let ?l = "takeWhile (\<lambda>c. c \<noteq> newline) (take (n - 1) (c # s))"
  let ?k = "if length ?l < n - 1 \<and> length ?l < length (c # s) then length ?l + 1 else length ?l"
  have "fgets_all n (c # s) = take ?k (c # s) # fgets_all n (drop ?k (c # s))"
    using 2(2) by (simp only: fgets_all.simps(2) Let_def not_le[symmetric] if_False)
  moreover have "concat (fgets_all n (drop ?k (c # s))) = drop ?k (c # s)" using 2 by (simp only: not_le[symmetric] simp_thms if_False)
  ultimately show ?case by (simp only: concat.simps append_take_drop_id)
qed simp

text \<open>\<open>cat\<close> prints the file as it is, whatever its lines, and so does \<open>stat\<close>.\<close>

lemma cat_prints_the_file:
  assumes "CHR 0x00 \<notin> set body"
  shows "files path = Some body \<Longrightarrow> cat_main files [path] = (0, body)"
    "files ''/sys/kernel/debug/sched/debug'' = Some body \<Longrightarrow> stat_main files = (0, body)"
proof -
  have "map cstr (fgets_all n body) = fgets_all n body" if "n > 1" for n
    using fgets_all_member assms by (intro map_idI cstr_id) blast
  then show "files path = Some body \<Longrightarrow> cat_main files [path] = (0, body)"
    "files ''/sys/kernel/debug/sched/debug'' = Some body \<Longrightarrow> stat_main files = (0, body)"
    by (simp_all add: cat_main_def stat_main_def fgets_all_concat)
qed

lemma strip_parens_name: "strip_parens (''('' @ c @ '')'') = c"
  by (simp add: strip_parens_def Let_def)

lemma dec_digits_only: "set (dec n) \<subseteq> set ''0123456789''"
proof -
  have "list_all (\<lambda>k. digit k \<in> set ''0123456789'') [0..<10]" by code_simp
  then have "digit ` {0..<10} \<subseteq> set ''0123456789''" unfolding list_all_iff by (auto simp del: list.set)
  then show ?thesis using set_dec[of n] by (rule order_trans[rotated])
qed

lemma digit_facts: "c \<in> set (dec n) \<Longrightarrow> is_decimal c \<and> \<not> c_isspace c \<and> c \<noteq> CHR ''-'' \<and> c \<noteq> CHR ''+'' \<and> c \<noteq> quote"
proof -
  assume "c \<in> set (dec n)"
  then have "c \<in> set ''0123456789''" using dec_digits_only by blast
  then show ?thesis unfolding list.set by (elim insertE) (simp_all add: is_decimal_def c_isspace_def)
qed

lemma dec_nonempty: "dec n \<noteq> []"
  by (subst dec.simps) simp

lemma scan_int_dec:
  assumes "r = [] \<or> \<not> is_decimal (hd r)"
  shows "scan_int (dec n @ r) = Some (int n, r)" "scan_int (CHR '' '' # dec n @ r) = Some (int n, r)"
proof -
  have hd: "\<not> c_isspace (hd (dec n))" "hd (dec n) \<noteq> CHR ''-''" "hd (dec n) \<noteq> CHR ''+''" using digit_facts[of "hd (dec n)" n] dec_nonempty[of n] by auto
  have d: "dropWhile c_isspace (dec n @ r) = dec n @ r" using hd dec_nonempty[of n] by (cases "dec n") auto
  have t: "takeWhile is_decimal (dec n @ r) = dec n" "dropWhile is_decimal (dec n @ r) = r"
    using assms digit_facts[of _ n] by (auto simp: takeWhile_append dropWhile_append takeWhile_eq_Nil_iff dropWhile_eq_self_iff)
  show "scan_int (dec n @ r) = Some (int n, r)" unfolding scan_int_def Let_def d using hd dec_nonempty[of n] t by simp
  then show "scan_int (CHR '' '' # dec n @ r) = Some (int n, r)" by (simp add: scan_int_def c_isspace_def)
qed

text \<open>
  A status line whose name has no blank is read as it was written, and the parentheses are taken off;
  the kernel puts names with blanks into it as they are, and of those the parent is lost.
\<close>

lemma ps_reads_the_line:
  assumes "list_all (\<lambda>c. \<not> c_isspace c) comm" "\<not> c_isspace state" "rest = [] \<or> \<not> is_decimal (hd rest)"
  shows "scan_stat (dec pid @ '' ('' @ comm @ '') '' @ [state] @ '' '' @ dec ppid @ rest) = Some (int pid, ''('' @ comm @ '')'', state, int ppid)"
proof -
  let ?w = "''('' @ comm @ '')''" and ?r = "'' '' @ [state] @ '' '' @ dec ppid @ rest"
  have i: "scan_int (dec pid @ '' '' @ ?w @ ?r) = Some (int pid, '' '' @ ?w @ ?r)"
    by (rule scan_int_dec) (simp add: is_decimal_def)
  have "\<not> c_isspace c" if "c \<in> set ?w" for c using assms(1) that by (auto simp: c_isspace_def list_all_iff)
  then have "takeWhile (\<lambda>c. \<not> c_isspace c) (?w @ ?r) = ?w" "dropWhile (\<lambda>c. \<not> c_isspace c) (?w @ ?r) = ?r"
    by (simp_all add: takeWhile_append2 dropWhile_append2 c_isspace_def[of "CHR '' ''"] del: append.simps)
      (auto simp: takeWhile_append dropWhile_append c_isspace_def)
  then have w: "scan_word ('' '' @ ?w @ ?r) = Some (?w, ?r)" by (simp add: scan_word_def c_isspace_def)
  have c: "scan_char ?r = Some (state, '' '' @ dec ppid @ rest)" using assms(2) by (simp add: scan_char_def c_isspace_def)
  have "scan_stat (dec pid @ '' '' @ ?w @ ?r) = Some (int pid, ?w, state, int ppid)"
    unfolding scan_stat_def i by (simp only: Option.bind.simps prod.case w c) (simp add: scan_int_dec[OF assms(3)])
  then show ?thesis by simp
qed

lemma ps_loses_the_parent: "scan_stat ''7 (Web Content) S 1'' = None" "scan_stat ''7 (sh) S 1'' = Some (7, ''(sh)'', CHR ''S'', 1)"
  by code_simp+

section \<open>Quotes in the lines of the log\<close>

text \<open>What is outside of every quoted string, and whether a text ends inside of one.\<close>

fun outside :: "bool \<Rightarrow> string \<Rightarrow> string" where
  "outside q [] = []"
| "outside q (c # s) = (if c = quote then outside (\<not> q) s else if q then outside q s else c # outside q s)"

definition ends_quoted :: "bool \<Rightarrow> string \<Rightarrow> bool" where
  "ends_quoted q s \<longleftrightarrow> (q \<noteq> odd (count_list s quote))"

definition json_chars :: "char set" where
  "json_chars = set ''{}[]:, -0123456789''"

text \<open>What any line of JSON with numbers and plain strings has: strings end, and outside of them are only marks, blanks and digits.\<close>

definition quotes_ok :: "string \<Rightarrow> bool" where
  "quotes_ok s \<longleftrightarrow> \<not> ends_quoted False s \<and> set (outside False s) \<subseteq> json_chars"

lemma outside_append: "outside q (a @ b) = outside q a @ outside (ends_quoted q a) b"
  by (induction a arbitrary: q) (auto simp: ends_quoted_def)

lemma quotes_append: "quotes_ok a \<Longrightarrow> quotes_ok b \<Longrightarrow> quotes_ok (a @ b)"
  unfolding quotes_ok_def outside_append by (auto simp: ends_quoted_def)

lemma outside_quoted: "quote \<notin> set s \<Longrightarrow> outside True s = []" "quote \<notin> set s \<Longrightarrow> outside False s = s" "quote \<notin> set s \<Longrightarrow> ends_quoted q s = q"
  by (induction s) (auto simp: ends_quoted_def)

lemma quotes_string: "quote \<notin> set s \<Longrightarrow> quotes_ok ([quote] @ s @ [quote])"
  by (simp add: quotes_ok_def outside_append outside_quoted) (simp add: ends_quoted_def)

lemma quotes_plain: "set s \<subseteq> json_chars \<Longrightarrow> quotes_ok s"
proof -
  assume s: "set s \<subseteq> json_chars"
  then have "quote \<notin> set s" by (auto simp: json_chars_def)
  then show ?thesis using s by (simp add: quotes_ok_def outside_quoted)
qed

lemma dec_chars: "set (dec n) \<subseteq> json_chars"
proof -
  have "set ''0123456789'' \<subseteq> json_chars" unfolding json_chars_def by simp
  then show ?thesis using dec_digits_only by (rule order_trans[rotated])
qed

lemma quotes_numbers: "quotes_ok (sdec i)" "quotes_ok (udec w)" "quotes_ok ''0''"
  using dec_chars by (intro quotes_plain; auto simp: sdec_def udec_def json_chars_def)+

lemma quotes_since: "quotes_ok (if b then udec w else ''0'')"
  by (simp add: quotes_numbers)

lemma quotes_field: "quote \<notin> set (fst f) \<Longrightarrow> quotes_ok (snd f) \<Longrightarrow> quotes_ok (json_field f)"
proof -
  assume f: "quote \<notin> set (fst f)" "quotes_ok (snd f)"
  have "quotes_ok '': ''" by (rule quotes_plain) (simp add: json_chars_def)
  from quotes_append[OF quotes_string[OF f(1)] quotes_append[OF this f(2)]] show ?thesis by (simp add: json_field_def)
qed

lemma quotes_fields: "list_all (\<lambda>f. quote \<notin> set (fst f) \<and> quotes_ok (snd f)) fs \<Longrightarrow> quotes_ok (json_fields fs)"
proof (induction fs rule: json_fields.induct)
  case 1
  show ?case by (rule quotes_plain) simp
next
  case (2 f)
  then show ?case by (simp add: quotes_field)
next
  case (3 f g fs)
  have "quotes_ok '', ''" by (rule quotes_plain) (simp add: json_chars_def)
  moreover have "quotes_ok (json_field f)" "quotes_ok (json_fields (g # fs))" using 3 by (simp_all add: quotes_field)
  ultimately have "quotes_ok (json_field f @ '', '' @ json_fields (g # fs))" by (intro quotes_append)
  then show ?case by simp
qed

lemma quotes_line:
  assumes "quote \<notin> set key" "list_all (\<lambda>f. quote \<notin> set (fst f) \<and> quotes_ok (snd f)) fs"
  shows "quotes_ok (json_line key fs)"
proof -
  have m: "quotes_ok ''{''" "quotes_ok '': {''" "quotes_ok ''}}''" by (rule quotes_plain; simp add: json_chars_def)+
  show ?thesis using quotes_append[OF m(1) quotes_append[OF quotes_string[OF assms(1)] quotes_append[OF m(2) quotes_append[OF quotes_fields[OF assms(2)] m(3)]]]]
    by (simp add: json_line_def)
qed

lemma sdec_no_quote [simp]: "quote \<notin> set (sdec i)"
  using digit_facts by (auto simp: sdec_def)

text \<open>
  Every line about a runqueue, whatever its values and the kernel's version, and every line about a task
  whose name and state have no quote in them, has its strings closed and nothing but marks and numbers
  outside of them; a line about a domain has the domain's name outside, so that no reader takes it for
  JSON.
\<close>
theorem json_lines_quoted:
  "list_all quotes_ok (print_rq_json v rq) \<and> (quote \<in> set (tj_comm p) \<or> tj_state p = quote \<or> quotes_ok (print_task_json v p))
     \<and> (quote \<in> set (dj_name sd) \<or> set (dj_name sd) \<subseteq> set (outside False (print_sd_json sd)))"
proof (intro conjI)
  show "list_all quotes_ok (print_rq_json v rq)"
    unfolding print_rq_json_def Let_def list.pred_inject
    by (intro conjI quotes_line TrueI) (simp_all add: quotes_numbers quotes_since)
  have "quotes_ok (print_task_json v p)" if "quote \<notin> set (tj_comm p)" "tj_state p \<noteq> quote"
    using that quotes_string[of "tj_comm p"] quotes_string[of "[tj_state p]"] unfolding print_task_json_def Let_def
    by (intro quotes_line) (simp_all add: quotes_numbers quotes_since)
  then show "quote \<in> set (tj_comm p) \<or> tj_state p = quote \<or> quotes_ok (print_task_json v p)" by blast
  obtain rest where rest: "print_sd_json sd = (''{'' @ [quote] @ ''sd['' @ [quote]) @ dj_name sd @ rest"
    unfolding print_sd_json_def append_assoc by blast
  have "\<not> ends_quoted False (''{'' @ [quote] @ ''sd['' @ [quote])" by (simp add: ends_quoted_def)
  then have "set (dj_name sd) \<subseteq> set (outside False (print_sd_json sd))" if "quote \<notin> set (dj_name sd)"
    using that unfolding rest outside_append by (auto simp: outside_quoted)
  then show "quote \<in> set (dj_name sd) \<or> set (dj_name sd) \<subseteq> set (outside False (print_sd_json sd))" by blast
qed

end
