(* ===== verification/Old_Drivers.thy ===== *)
theory Old_Drivers
  imports Json
begin

text \<open>
  Archived drivers and modules (docs/archive/driver_default.c, driver_time_sensitive.c, resched.c,
  sched_sim.c): what each asks of the kernel and of the drivers' calls of its time, as the sequence of
  its calls; what the kernel answers is an argument.
\<close>

section \<open>Drivers\<close>

text \<open>The calls these drivers make; a task is named by its place in \<open>tasks[]\<close>.\<close>

datatype old_call = O_create | O_wakeup nat | O_pause nat | O_pin nat nat nat | O_tick

text \<open>\<open>btf\<close>: whether the kernel's type information is there; \<open>type_id\<close>: the type's number in it, negative for none.\<close>

definition default_setup :: "bool \<Rightarrow> int \<Rightarrow> old_call list outcome" where
  "default_setup btf type_id = (if \<not> btf then Inl ''Failed to get vmlinux BTF''
     else if type_id < 0 then Inl ''Failed to find rq in BTF: %d'' else Inr (replicate 10 O_create))"

definition default_run :: "old_call list" where
  "default_run = map O_wakeup [0..<10] @ replicate 5 O_tick"

abbreviation PRINT_BUF_SIZE :: nat where "PRINT_BUF_SIZE \<equiv> 16384"

text \<open>
  The text of the runqueue at a tick. The kernel's function writes what fits the buffer and returns how
  long the text is, or an error; bytes of the buffer that are not there have no meaning, an outcome of
  its own.
\<close>

definition default_on_tick :: "int + string \<Rightarrow> string outcome" where
  "default_on_tick shown = (case shown of Inl e \<Rightarrow> Inl ''btf_type_snprintf_show failed: %d''
   | Inr body \<Rightarrow> if length body > PRINT_BUF_SIZE then Inl ''out of bounds: print_buf[]''
       else Inr (take (PRINT_BUF_SIZE - 1) body @ (if length body = PRINT_BUF_SIZE then [CHR 0x00] else []) @ [newline]))"

definition time_setup :: "old_call list" where
  "time_setup = replicate 3 O_create"

text \<open>One round with the number the kernel's generator gave.\<close>

definition time_round :: "u32 \<Rightarrow> old_call list" where
  "time_round r = (let rand_iter = 10 + r mod 11 in
     replicate (unat rand_iter) O_tick @ [O_pause 2] @ replicate 15 O_tick @ [O_wakeup 0])"

definition time_run :: "u32 list \<Rightarrow> old_call list" where
  "time_run rands = map (\<lambda>i. O_pin i 1 1) [0..<3] @ concat (map time_round (take 10 rands))"

section \<open>A reschedule interrupt\<close>

text \<open>The two names of the function, 0 for one the kernel does not have; the function called and the CPU it is sent to.\<close>

definition resched_ipi_init :: "nat \<Rightarrow> u64 \<Rightarrow> u64 \<Rightarrow> int \<times> (u64 \<times> nat) option" where
  "resched_ipi_init curr_cpu arch native = (if curr_cpu \<noteq> 0 then (0, None)
     else if arch \<noteq> 0 then (0, Some (arch, 1)) else if native \<noteq> 0 then (0, Some (native, 1)) else (- 38, None))"

section \<open>The simulator\<close>

text \<open>What it has the kernel do, on runqueues and tasks of its own.\<close>

datatype sim_call = Init_bandwidth | Init_rootdomain | Init_cfs_rq nat | Init_rt_rq nat | Init_dl_rq nat | Init_tg_entry nat
  | Attach_root nat | Fair_server nat | Sched_fork nat | Enqueue nat nat | Dequeue nat nat

record sim_task =
  st_pid :: int
  st_rq :: nat
  st_comm :: string
  st_vruntime :: u64

text \<open>What a pointer of the simulator's structures is set to.\<close>

datatype sim_ptr = Init_task | Se_array | Cfs_rq_array | Leaf_cfs_rq_list nat | Root_task_group

record sim_rq =
  sr_clock :: u64
  sr_cpu :: nat
  sr_capacity :: nat
  sr_cfs_leaf :: "nat list"
  sr_tmp_alone :: "sim_ptr option"
  sr_cfs_tasks :: "nat list"
  sr_curr :: "sim_ptr option"

text \<open>\<open>root_task_group\<close> and the list of the groups.\<close>

record sim_group =
  sg_se :: "sim_ptr option"
  sg_cfs_rq :: "sim_ptr option"
  sg_shares :: u64
  sg_children :: "sim_ptr list"
  sg_siblings :: "sim_ptr list"

record sim =
  sm_clock :: "32 word"
  sm_rq :: "nat \<Rightarrow> sim_rq"
  sm_group :: sim_group
  sm_groups :: "sim_ptr list"
  sm_tasks :: "sim_task list"
  sm_calls :: "sim_call list"

definition sim_do :: "sim_call list \<Rightarrow> sim \<Rightarrow> sim" where
  "sim_do cs s = s\<lparr>sm_calls := sm_calls s @ cs\<rparr>"

text \<open>The clock is a signed int of 32 bits, widened to the runqueue's.\<close>

definition update_clock :: "nat \<Rightarrow> sim \<Rightarrow> sim" where
  "update_clock cpu s = (let c = sm_clock s + 10000000 in s\<lparr>sm_clock := c, sm_rq := (sm_rq s)(cpu := (sm_rq s cpu)\<lparr>sr_clock := scast c\<rparr>)\<rparr>)"

definition create_tasks :: "(int \<times> nat) list \<Rightarrow> sim \<Rightarrow> sim" where
  "create_tasks specs s = sim_do (map Sched_fork [0..<length specs])
     (s\<lparr>sm_tasks := map (\<lambda>(pid, cpu). \<lparr>st_pid = pid, st_rq = cpu, st_comm = ''test'', st_vruntime = 0\<rparr>) specs\<rparr>)"

definition set_rq :: "nat \<Rightarrow> (sim_rq \<Rightarrow> sim_rq) \<Rightarrow> sim \<Rightarrow> sim" where
  "set_rq i f s = s\<lparr>sm_rq := (sm_rq s)(i := f (sm_rq s i))\<rparr>"

text \<open>
  \<open>fair_groups\<close> and \<open>cgroups\<close>: whether the kernel is built to schedule groups (CONFIG_FAIR_GROUP_SCHED,
  CONFIG_CGROUP_SCHED); \<open>root_load\<close>: its ROOT_TASK_GROUP_LOAD.
\<close>

definition init_rq :: "bool \<Rightarrow> nat \<Rightarrow> sim \<Rightarrow> sim" where
  "init_rq fair_groups i s = (let
     s = sim_do [Init_cfs_rq i, Init_rt_rq i, Init_dl_rq i] s;
     s = (if fair_groups then sim_do [Init_tg_entry i] (set_rq i (\<lambda>q. q\<lparr>sr_cfs_leaf := [], sr_tmp_alone := Some (Leaf_cfs_rq_list i)\<rparr>) s) else s);
     s = set_rq i (\<lambda>q. q\<lparr>sr_capacity := 1024, sr_cpu := i, sr_cfs_tasks := []\<rparr>) s;
     s = sim_do [Attach_root i, Fair_server i] s
   in set_rq i (\<lambda>q. q\<lparr>sr_curr := Some Init_task\<rparr>) s)"

definition init_sched :: "bool \<Rightarrow> bool \<Rightarrow> u64 \<Rightarrow> nat list \<Rightarrow> sim \<Rightarrow> sim" where
  "init_sched fair_groups cgroups root_load possible s = (let
     s = (if fair_groups then sim_do [Init_bandwidth]
            (s\<lparr>sm_group := (sm_group s)\<lparr>sg_se := Some Se_array, sg_cfs_rq := Some Cfs_rq_array, sg_shares := root_load\<rparr>\<rparr>) else s);
     s = sim_do [Init_rootdomain] s;
     s = (if cgroups then s\<lparr>sm_groups := Root_task_group # sm_groups s,
            sm_group := (sm_group s)\<lparr>sg_children := [], sg_siblings := []\<rparr>\<rparr> else s)
   in fold (init_rq fair_groups) possible s)"

definition sim_enqueue :: "nat \<Rightarrow> sim \<Rightarrow> sim" where
  "sim_enqueue i s = (let v = (3 - of_nat i) * 10000000; s = s\<lparr>sm_tasks := (sm_tasks s)[i := (sm_tasks s ! i)\<lparr>st_vruntime := v\<rparr>]\<rparr> in
     update_clock 0 (sim_do [Enqueue 0 i] s))"

definition sim_dequeue :: "nat \<Rightarrow> sim \<Rightarrow> sim" where
  "sim_dequeue i s = update_clock 0 (sim_do [Dequeue 0 i] s)"

definition sched_sim :: "bool \<Rightarrow> bool \<Rightarrow> u64 \<Rightarrow> nat list \<Rightarrow> sim \<Rightarrow> sim" where
  "sched_sim fair_groups cgroups root_load possible s = (let s = init_sched fair_groups cgroups root_load possible s; s = create_tasks [(10000, 0), (10001, 0), (10002, 0)] s;
     s = fold sim_enqueue [0..<3] s in fold sim_dequeue [0..<3] s)"

section \<open>What they do\<close>

lemma count_replicate: "count_list (replicate n x) y = (if x = y then n else 0)"
  by (induction n) auto

lemma time_round_ticks: "25 \<le> count_list (time_round r) O_tick \<and> count_list (time_round r) O_tick \<le> 35"
proof -
  have m: "unat (r mod 11) < 11" using unat_mod_distrib[of r 11] by simp
  then have "unat (10 + r mod 11) = 10 + unat (r mod 11)" by (simp add: unat_plus_if' )
  then show ?thesis using m by (simp add: time_round_def Let_def count_replicate)
qed

text \<open>
  The time-sensitive driver ticks between 250 and 350 times whatever the generator gives, and names
  only the three tasks it has created.
\<close>

theorem time_sensitive_ticks:
  assumes "length rands = 10"
  shows "250 \<le> count_list (time_run rands) O_tick \<and> count_list (time_run rands) O_tick \<le> 350
    \<and> (\<forall>c \<in> set (time_run rands). case c of O_wakeup t \<Rightarrow> t < count_list time_setup O_create | O_pause t \<Rightarrow> t < count_list time_setup O_create
        | O_pin t _ _ \<Rightarrow> t < count_list time_setup O_create | _ \<Rightarrow> True)"
proof -
  have ticks: "25 * length rs \<le> count_list (concat (map time_round rs)) O_tick \<and> count_list (concat (map time_round rs)) O_tick \<le> 35 * length rs" for rs
  proof (induction rs)
    case (Cons r rs)
    then show ?case using time_round_ticks[of r] by simp
  qed simp
  moreover have "count_list (map (\<lambda>i. O_pin i 1 1) [0..<3]) O_tick = 0" by (simp add: upt_rec)
  ultimately have "250 \<le> count_list (time_run rands) O_tick \<and> count_list (time_run rands) O_tick \<le> 350"
    using assms ticks[of rands] by (simp add: time_run_def)
  moreover have "case c of O_wakeup t \<Rightarrow> t < 3 | O_pause t \<Rightarrow> t < 3 | O_pin t _ _ \<Rightarrow> t < 3 | _ \<Rightarrow> True" if "c \<in> set (time_run rands)" for c
    using that by (auto simp: time_run_def time_round_def Let_def split: if_splits old_call.splits)
  moreover have n: "count_list time_setup O_create = 3" by (simp add: time_setup_def count_replicate)
  ultimately show ?thesis unfolding n by blast
qed

theorem time_sensitive_ticks_witness: "count_list (time_run [0, 1, 2, 3, 4, 5, 6, 7, 8, 9]) O_tick \<le> 350"
  using time_sensitive_ticks[of "[0, 1, 2, 3, 4, 5, 6, 7, 8, 9]"] by simp

text \<open>The buffer is read past its end exactly when the text is longer than it; one byte less and its last byte is the terminator.\<close>

lemma default_tick_overruns: "default_on_tick (Inr body) = Inl ''out of bounds: print_buf[]'' \<longleftrightarrow> length body > 16384"
  by (simp add: default_on_tick_def)

lemma update_clock_fields: "sm_calls (update_clock c s) = sm_calls s" "sm_tasks (update_clock c s) = sm_tasks s" "sm_clock (update_clock c s) = sm_clock s + 10000000"
  "sr_clock (sm_rq (update_clock c s) c) = scast (sm_clock s + 10000000)"
  by (simp_all add: update_clock_def Let_def)

text \<open>
  The simulator queues every task once and takes every task off again, in their order, after the
  runqueues are set up; its clock has then moved six steps of ten milliseconds.
\<close>

lemma sched_sim_calls:
  assumes "sm_calls s = []" "sm_clock s = 0"
  shows "filter (\<lambda>c. case c of Enqueue _ _ \<Rightarrow> True | Dequeue _ _ \<Rightarrow> True | _ \<Rightarrow> False) (sm_calls (sched_sim fair_groups cgroups root_load possible s))
      = map (Enqueue 0) [0..<3] @ map (Dequeue 0) [0..<3]"
    "sr_clock (sm_rq (sched_sim fair_groups cgroups root_load possible s) 0) = 60000000"
proof -
  let ?q = "\<lambda>c. case c of Enqueue _ _ \<Rightarrow> True | Dequeue _ _ \<Rightarrow> True | _ \<Rightarrow> False"
  have i: "filter ?q (sm_calls (fold (init_rq fair_groups) is t)) = filter ?q (sm_calls t) \<and> sm_clock (fold (init_rq fair_groups) is t) = sm_clock t" for "is" t
    by (induction "is" arbitrary: t) (simp_all add: init_rq_def sim_do_def set_rq_def Let_def)
  define t where "t = create_tasks [(10000, 0), (10001, 0), (10002, 0)] (init_sched fair_groups cgroups root_load possible s)"
  have t: "filter ?q (sm_calls t) = []" "sm_clock t = 0" using i assms by (simp_all add: t_def create_tasks_def init_sched_def sim_do_def Let_def)
  have r: "[0..<3] = [0, 1, 2 :: nat]" by (simp add: upt_rec)
  have f: "sched_sim fair_groups cgroups root_load possible s = sim_dequeue 2 (sim_dequeue 1 (sim_dequeue 0 (sim_enqueue 2 (sim_enqueue 1 (sim_enqueue 0 t)))))"
    unfolding sched_sim_def t_def r by (simp add: Let_def)
  show "filter ?q (sm_calls (sched_sim fair_groups cgroups root_load possible s)) = map (Enqueue 0) [0..<3] @ map (Dequeue 0) [0..<3]"
    unfolding f r by (simp add: sim_dequeue_def sim_enqueue_def update_clock_fields sim_do_def t Let_def)
  show "sr_clock (sm_rq (sched_sim fair_groups cgroups root_load possible s) 0) = 60000000"
    unfolding f by (simp add: sim_dequeue_def sim_enqueue_def update_clock_fields sim_do_def t Let_def)
qed

end
