(* ===== verification/Spec2Isabelle.thy ===== *)
theory Spec2Isabelle
  imports Prelude Fifo Task_Ctrl Channel Json Events Trace Tick Cstr Topo Kernel Cli Checkers Cov Reset Shm Symbols Isolation Userland Boot
    Topo_Report Driver_Lang Drivers Driver_Run Session Cli_Frame Refine Host Fuzz_Cov Fuzz_Ops Fuzz_Exec Old_Kcov Old_Cgroup Old_Shell Old_Tools Old_Drivers
begin

text \<open>
  kSTEP steps the Linux scheduler deterministically. A kernel module (src/kmod) takes over the clocks
  and the timer tick of a virtual machine, keeps CPU 0 for itself (the controller) and leaves the other
  CPUs to the tasks under test; user tasks (src/user) do what they are told through a control file; a
  driver (src/kmod/drivers, or the command interpreter src/kmod/cli.c) builds a session and ticks it; a
  virtio channel carries commands in and JSON records out, and a region of shared memory shows the state
  of the scheduler to the host.

  \<^bold>\<open>Shared theories.\<close>
  \<^item> \<open>Prelude\<close>: widths of the C integers; \<open>outcome\<close>, the result of code that may \<open>panic()\<close>, with its
    sequencing and loops; circular buffers under free-running counters.
  \<^item> \<open>Fifo\<close>: the locale \<open>bounded_fifo\<close>, the contract of a queue whose producer panics when it is full,
    and what its clients may conclude about any sequence of puts and takes.
  \<^item> \<open>Cstr\<close>: the C string functions the parsers use; the kernel's number and CPU-list parsers are arguments.

  \<^bold>\<open>Tasks and time.\<close>
  \<^item> \<open>Task_Ctrl\<close> (kmod/task.c, user/user.c): the action queue of a task, the record kept of a task, the
    read of the control file, the verbs, the loop of the user task. The queue interprets \<open>bounded_fifo\<close>.
    The controller and one task run against each other as a step relation: actions are done once and in
    order, and a task reported settled has done all of them.
  \<^item> \<open>Userland\<close> (user/user.c, kmod/task.c): the first process, the loading of the module, the birth of a
    task up to its first read.
  \<^item> \<open>Tick\<close> (kmod/tick.c, tick_clock.c, tick_jiffies.c): clocks, settling, the tick, bandwidth timers. The
    machine under test is a type variable with the operations the tick calls on it. A wait that may not
    end is a \<open>partial_function\<close> into \<open>option\<close>, \<open>None\<close> meaning it never returns; that waits return
    is proved, not assumed.
  \<^item> \<open>Boot\<close> (kmod/main.c): the order in which the components come up and the state the driver finds.
  \<^item> \<open>Reset\<close> (kmod/reset.c, and the hook on new groups of kmod/trace.c): every field the resets write,
    by kernel version; kernels with different histories are reset to equal ones.
  \<^item> \<open>Isolation\<close> (kmod/isolation.c), \<open>Symbols\<close> (kmod/sym.c): clearing the test CPUs; resolving symbols.

  \<^bold>\<open>Machine.\<close>
  \<^item> \<open>Topo\<close> (kmod/cpu.c): the topology language, its application to masks, capacities and slices;
    masks always partition the test CPUs and leave the others alone.
  \<^item> \<open>Topo_Report\<close> (kmod/cpu.c): frequencies, the names of flags, the log of a topology.
  \<^item> \<open>Kernel\<close> (kmod/kernel.c): files, sysctls, features, the cgroup tree, the freezer.

  \<^bold>\<open>Talking to the host.\<close>
  \<^item> \<open>Channel\<close> (kmod/io.c): transmit buffers shared with the device and the receive ring, the second
    interpretation of \<open>bounded_fifo\<close>; device, interrupts and the module interleave as a step relation.
  \<^item> \<open>Json\<close> (kmod/io.c): the record writer over its buffer of 504 bytes, and every record sent.
  \<^item> \<open>Shm\<close> (kmod/shm.c, shm.h): the whole update of the shared region from what it reads of the kernel;
    no table overflows; the balancing CPU, the real-time pick and weights agree with references.
  \<^item> \<open>Cov\<close> (kmod/cov.c, linux/cov.c): the coverage map.
  \<^item> \<open>Cli\<close> (kmod/cli.c): every command, dispatch, replies, the session loop. It runs on the definitions of
    \<open>Task_Ctrl\<close>, \<open>Tick\<close>, \<open>Topo\<close>, \<open>Kernel\<close>, \<open>Json\<close>, \<open>Channel\<close> and \<open>Shm\<close>.
  \<^item> \<open>Session\<close> (kmod/cli.c with kmod/shm.c): when the reply to a command is sent, the test CPUs are
    settled and the shared region is the current one.
  \<^item> \<open>Cli_Frame\<close>: no command depends on the transmit buffers, for every command of the interpreter.
  \<^item> \<open>Refine\<close>: the locale \<open>simulation\<close>, the contract between a system and its specification; the transmit
    buffers interpret it against a queue of records.
  \<^item> \<open>Host\<close> (kmod/cli.c with kmod/io.c): the whole session with the host, the ring, the reads, the turns, the
    transfers and the interrupts as one step relation that interprets \<open>simulation\<close> against a sequential
    session over unbounded lists. Its runs give the host what the specification writes, do not depend on
    when the host reads, and answer every line whose turn ends.

  \<^bold>\<open>Watching.\<close>
  \<^item> \<open>Events\<close> (kmod/event.c, event.h): the registry, against the locale \<open>registry\<close> it interprets.
  \<^item> \<open>Trace\<close> (kmod/trace.c): the hook table, arming and dispatch, the handlers.
  \<^item> \<open>Checkers\<close> (kmod/checkers): every rule, what it keeps between events, when it warns.

  \<^bold>\<open>Drivers.\<close>
  \<^item> \<open>Driver_Lang\<close>: a driver as a program of calls, branches and waits (kmod/driver.h); its runs on a
    machine, where a call may panic or never return; a check of a program and its soundness for every
    run; the locale \<open>call_rule\<close>, what holds of every call holds of every run.
  \<^item> \<open>Drivers\<close> (kmod/drivers): the twenty drivers and their callbacks. Each passes the check, so its calls
    name only what exists by then. The heap check of one driver is exact for deadlines within a
    quarter of the range of the counter of each other.
  \<^item> \<open>Driver_Run\<close>: the calls of the drivers performed by the definitions of the components on the state
    \<open>Boot\<close> leaves; the locale interpreted on the clocks, so that the time after a driver is its ticks.

  \<^bold>\<open>Archived programs\<close> (docs/archive), kept beside the module and not built with it.
  \<^item> \<open>Fuzz_Cov\<close>, \<open>Fuzz_Ops\<close>, \<open>Fuzz_Exec\<close> (old_fuzzer/kmod): coverage by task, every operation of the fuzzer
    that ran in the guest, its checks, console loop and state message.
  \<^item> \<open>Old_Kcov\<close> (kcov_helpers.c, kcov.c): a task's coverage, from the kernel's buffer through a file
    to the set of addresses.
  \<^item> \<open>Old_Cgroup\<close> (cgroup.c): the process that kept the cgroup tree, driven by signals.
  \<^item> \<open>Old_Shell\<close> (init.c, echo.c, insmod.c): the first process with its script and shell, two tools.
  \<^item> \<open>Old_Tools\<close> (cat.c, stat.c, ls.c, mkdir.c, rmmod.c, ps.c, json.c): the other tools and the printer of the
    scheduler's state.
  \<^item> \<open>Old_Drivers\<close> (driver_default.c, driver_time_sensitive.c, resched.c, sched_sim.c): two drivers, a
    reschedule interrupt and a simulator, by the calls they make of the kernel.

  \<^bold>\<open>Bounds.\<close> Capacities are those of the source: 8 queued actions, 256 transmit buffers, a ring of 4096
  bytes, 32 CPUs, 64 tasks, 16 cgroups, records of 503 bytes. No fuel is used: loops
  over data are structural, nested real-time queues and parsers have termination proofs, and waits are
  \<open>option\<close>-valued as above.

  \<^bold>\<open>Arguments.\<close> What the sources call and do not contain is an argument of the definitions: the
  scheduler itself, ftrace, the virtqueues, the file system, \<open>kstrtoint\<close>, \<open>cpulist_parse\<close>, the symbol
  table, the kernel's formatting of masks. Where a theorem needs something of them it is a hypothesis of
  the theorem, with an instance in its witness.

  \<^bold>\<open>Not modelled.\<close> The host's tools (src/crates, Rust: the launcher, the visualiser, the fuzzer), patches
  and configuration of the kernels under test (src/linux apart from cov.c), data and figures. Of the module:
  what goes to the kernel log only (apart from the topology's), the registration records of the virtio
  driver and of the module, header files that only declare. Of docs/archive: probes that only log
  (kprobe.c, trace_update_rq_clock.c) and a driver that dequeues a group by a function of the kernel (vruntime_overflow.c).
  In \<open>Host\<close> the reports of a turn are sent once the machine has settled and before the reply, where the
  callbacks send them while it runs; only their order among themselves and before the reply is used.
\<close>

end
